(* ===== verification/Prelude.thy ===== *)
theory Prelude
  imports Main "HOL-Library.Word"
begin

text \<open>
  Shared vocabulary of the development: return codes, fixed-width casts of C integers,
  the list view of a ring buffer and the named theorem collections that the component
  theories fill (\<open>ring_simps\<close> for ring buffers, \<open>cstr_simps\<close> for C strings,
  \<open>pool_simps\<close> for the backend pool).
\<close>

named_theorems ring_simps "list view of ring buffers"
named_theorems cstr_simps "C string primitives"
named_theorems pool_simps "backend pool operations"

section \<open>Return codes and casts\<close>

text \<open>The C functions of the program report 0 for success and -1 for failure.\<close>

abbreviation (input) OK :: int where "OK \<equiv> 0"
abbreviation (input) ERR :: int where "ERR \<equiv> - 1"

type_synonym byte = "8 word"
type_synonym bytes = "byte list"

text \<open>The casts \<open>(int16_t)x\<close>, \<open>(uint16_t)x\<close> and \<open>(int)x\<close> of a wider signed value.\<close>

definition to_int16 :: "int \<Rightarrow> int" where
  "to_int16 x = (x + 32768) mod 65536 - 32768"

definition to_uint16 :: "int \<Rightarrow> nat" where
  "to_uint16 x = nat (x mod 65536)"

definition to_int32 :: "int \<Rightarrow> int" where
  "to_int32 x = (x + 2147483648) mod 4294967296 - 2147483648"

lemma to_int16_range: "- 32768 \<le> to_int16 x \<and> to_int16 x \<le> 32767"
  unfolding to_int16_def using pos_mod_bound [of 65536 "x + 32768"] pos_mod_sign [of 65536 "x + 32768"]
  by simp

lemma to_int16_id [simp]: "- 32768 \<le> x \<Longrightarrow> x \<le> 32767 \<Longrightarrow> to_int16 x = x"
  by (simp add: to_int16_def)

lemma to_int32_id [simp]: "- 2147483648 \<le> x \<Longrightarrow> x \<le> 2147483647 \<Longrightarrow> to_int32 x = x"
  by (simp add: to_int32_def)

lemma to_uint16_id [simp]: "0 \<le> x \<Longrightarrow> x \<le> 65535 \<Longrightarrow> to_uint16 x = nat x"
  by (simp add: to_uint16_def)

lemma to_uint16_bound: "to_uint16 x < 65536"
proof -
  have "x mod 65536 < 65536" by simp
  then show ?thesis by (simp add: to_uint16_def nat_less_iff)
qed

section \<open>Ring buffers\<close>

text \<open>
  The program keeps two ring buffers of fixed size (the request queue of a frontend and the
  ring of waiting frontends): an array, a head index and a count. Their contents, oldest
  first, are the \<open>n\<close> cells from \<open>h\<close> on, modulo the size of the array.
\<close>

definition ring_view :: "'a list \<Rightarrow> nat \<Rightarrow> nat \<Rightarrow> 'a list" where
  "ring_view buf h n = map (\<lambda>i. buf ! ((h + i) mod length buf)) [0..<n]"

lemma length_ring_view [simp, ring_simps]: "length (ring_view buf h n) = n"
  by (simp add: ring_view_def)

lemma ring_view_0 [simp, ring_simps]: "ring_view buf h 0 = []"
  by (simp add: ring_view_def)

lemma nth_ring_view [simp, ring_simps]: "i < n \<Longrightarrow> ring_view buf h n ! i = buf ! ((h + i) mod length buf)"
  by (simp add: ring_view_def)

lemma ring_index_inj:
  assumes "i < n" "j < n" "(h + i) mod n = (h + j) mod (n::nat)"
  shows "i = j"
proof (rule ccontr)
  assume "i \<noteq> j"
  have "n dvd (if i < j then j - i else i - j)"
    using assms(3) by (cases "i < j") (auto simp: mod_eq_dvd_iff_nat dest: sym)
  then have "n \<le> (if i < j then j - i else i - j)"
    using \<open>i \<noteq> j\<close> by (intro dvd_imp_le) auto
  with assms(1,2) show False by (simp split: if_splits)
qed

lemma ring_view_update_other:
  assumes "k < length buf" "\<And>i. i < n \<Longrightarrow> (h + i) mod length buf \<noteq> k"
  shows "ring_view (buf[k := x]) h n = ring_view buf h n"
  using assms(2) by (fastforce simp: ring_view_def intro!: nth_list_update_neq)

lemma ring_view_push:
  assumes "n < length buf"
  shows "ring_view (buf[(h + n) mod length buf := x]) h (Suc n) = ring_view buf h n @ [x]"
proof -
  have pos: "0 < length buf" using assms by linarith
  have "ring_view (buf[(h + n) mod length buf := x]) h n = ring_view buf h n"
    using assms pos by (intro ring_view_update_other) (auto dest: ring_index_inj [rotated 2])
  moreover have "ring_view b h (Suc n) = ring_view b h n @ [b ! ((h + n) mod length b)]" for b :: "'a list"
    by (simp add: ring_view_def)
  ultimately show ?thesis using pos by simp
qed

lemma ring_view_pop:
  "ring_view buf h (Suc n) = buf ! (h mod length buf) # ring_view buf ((h + 1) mod length buf) n"
  by (auto simp: ring_view_def map_upt_Suc mod_simps simp del: upt_Suc)

lemma ring_view_mod [ring_simps]: "ring_view buf (h mod length buf) n = ring_view buf h n"
  by (simp add: ring_view_def mod_simps)

lemma ring_view_pop_clear:
  assumes "h < length buf" "Suc n \<le> length buf"
  shows "ring_view (buf[h := z]) ((h + 1) mod length buf) n = ring_view buf ((h + 1) mod length buf) n"
proof (rule ring_view_update_other [OF assms(1)])
  fix i assume i: "i < n"
  show "((h + 1) mod length buf + i) mod length buf \<noteq> h"
  proof
    assume "((h + 1) mod length buf + i) mod length buf = h"
    with assms(1) have "(h + Suc i) mod length buf = (h + 0) mod length buf"
      by (simp add: mod_simps)
    moreover have "Suc i < length buf" "0 < length buf" using i assms by linarith+
    ultimately show False using ring_index_inj [of "Suc i" "length buf" 0 h] by simp
  qed
qed

lemma ring_view_push_front:
  assumes "n < length buf" "h < length buf"
  defines "h' \<equiv> (h + length buf - 1) mod length buf"
  shows "ring_view (buf[h' := x]) h' (Suc n) = x # ring_view buf h n"
proof -
  have h': "h' < length buf" unfolding h'_def using assms(1) by (intro mod_less_divisor) linarith
  have next_eq: "(h' + 1) mod length buf = h"
  proof -
    have "Suc (h + length buf - Suc 0) = h + length buf" using assms(1) by linarith
    then show ?thesis using assms(2) by (simp add: h'_def mod_Suc_eq)
  qed
  have "ring_view (buf[h' := x]) ((h' + 1) mod length buf) n = ring_view buf ((h' + 1) mod length buf) n"
    using ring_view_pop_clear [of h' buf n x] h' assms by simp
  then show ?thesis
    using h' next_eq by (simp add: ring_view_pop)
qed

lemma set_ring_view_subset: "0 < length buf \<Longrightarrow> set (ring_view buf h n) \<subseteq> set buf"
  by (auto simp: ring_view_def)

end
