(* ===== verification/C_Strings.thy ===== *)
theory C_Strings
  imports Prelude "HOL-Library.Sublist"
begin

text \<open>
  The string primitives of the C library that the program uses, on strings as lists of
  characters without the terminating NUL: the position searches \<open>strchr\<close>,
  \<open>strrchr\<close> and \<open>strstr\<close>, the truncating copies into fixed arrays (\<open>strncpy\<close>
  with one byte kept for the NUL), and \<open>strtol\<close> and \<open>atoi\<close> in base 10. A raw byte
  block that may hold a NUL is read as a string by \<open>cstr\<close>.
\<close>

section \<open>Characters\<close>

definition code_of :: "char \<Rightarrow> nat" where
  "code_of c = of_char c"

definition is_digit :: "char \<Rightarrow> bool" where
  "is_digit c \<longleftrightarrow> 48 \<le> code_of c \<and> code_of c \<le> 57"

definition is_upper :: "char \<Rightarrow> bool" where
  "is_upper c \<longleftrightarrow> 65 \<le> code_of c \<and> code_of c \<le> 90"

definition is_lower :: "char \<Rightarrow> bool" where
  "is_lower c \<longleftrightarrow> 97 \<le> code_of c \<and> code_of c \<le> 122"

text \<open>\<open>isspace\<close> in the C locale: blank, \<open>\\t \\n \\v \\f \\r\<close>.\<close>

definition is_space :: "char \<Rightarrow> bool" where
  "is_space c \<longleftrightarrow> code_of c = 32 \<or> (9 \<le> code_of c \<and> code_of c \<le> 13)"

definition to_lower :: "char \<Rightarrow> char" where
  "to_lower c = (if is_upper c then char_of (code_of c + 32) else c)"

lemma code_of_bound: "code_of c < 256"
  by (simp add: code_of_def)

lemma code_of_inject [simp]: "code_of a = code_of b \<longleftrightarrow> a = b"
  by (simp add: code_of_def)

section \<open>Strings in byte blocks and fixed arrays\<close>

definition cstr :: "string \<Rightarrow> string" where
  "cstr b = takeWhile (\<lambda>c. c \<noteq> CHR 0x00) b"

text \<open>
  \<open>strncpy(dst, src, sizeof(dst) - 1)\<close> into an array whose last byte is 0: at most
  \<open>sz - 1\<close> characters of the source are kept.
\<close>

definition strncpy_arr :: "nat \<Rightarrow> string \<Rightarrow> string" where
  "strncpy_arr sz src = take (sz - 1) src"

lemma strncpy_arr_length [cstr_simps]: "0 < sz \<Longrightarrow> length (strncpy_arr sz src) < sz"
  by (auto simp: strncpy_arr_def)

lemma strncpy_arr_fits [cstr_simps]: "length src < sz \<Longrightarrow> strncpy_arr sz src = src"
  by (simp add: strncpy_arr_def)

lemma strncpy_arr_Nil_iff [cstr_simps]: "1 < sz \<Longrightarrow> strncpy_arr sz src = [] \<longleftrightarrow> src = []"
  by (auto simp: strncpy_arr_def)

lemma cstr_id [cstr_simps]: "CHR 0x00 \<notin> set b \<Longrightarrow> cstr b = b"
  unfolding cstr_def by (rule takeWhile_eq_all_conv [THEN iffD2]) auto

section \<open>Searching\<close>

text \<open>The offset of the first, and of the last, occurrence of a character.\<close>

fun strchr_pos :: "char \<Rightarrow> string \<Rightarrow> nat option" where
  "strchr_pos c [] = None"
| "strchr_pos c (x # xs) = (if x = c then Some 0 else map_option Suc (strchr_pos c xs))"

fun strrchr_pos :: "char \<Rightarrow> string \<Rightarrow> nat option" where
  "strrchr_pos c [] = None"
| "strrchr_pos c (x # xs) =
     (case strrchr_pos c xs of
        Some k \<Rightarrow> Some (Suc k)
      | None \<Rightarrow> if x = c then Some 0 else None)"

text \<open>The offset of the first occurrence of a pattern.\<close>

fun strstr_pos :: "string \<Rightarrow> string \<Rightarrow> nat option" where
  "strstr_pos pat [] = (if pat = [] then Some 0 else None)"
| "strstr_pos pat (x # xs) =
     (if prefix pat (x # xs) then Some 0 else map_option Suc (strstr_pos pat xs))"

lemma strchr_pos_None [cstr_simps]: "strchr_pos c s = None \<longleftrightarrow> c \<notin> set s"
  by (induction s) auto

lemma strchr_pos_app [cstr_simps]: "c \<notin> set a \<Longrightarrow> strchr_pos c (a @ c # b) = Some (length a)"
  by (induction a) auto

lemma strchr_pos_Some:
  "strchr_pos c s = Some k \<Longrightarrow> k < length s \<and> s ! k = c \<and> c \<notin> set (take k s)"
  by (induction s arbitrary: k) (auto split: if_splits simp: nth_Cons' take_Cons')

lemma strrchr_pos_None [cstr_simps]: "strrchr_pos c s = None \<longleftrightarrow> c \<notin> set s"
  by (induction s) (auto split: option.splits)

lemma strrchr_pos_app [cstr_simps]: "c \<notin> set b \<Longrightarrow> strrchr_pos c (a @ c # b) = Some (length a)"
proof (induction a)
  case Nil
  then have "strrchr_pos c b = None" by (simp add: strrchr_pos_None)
  then show ?case by simp
next
  case (Cons x a)
  then show ?case by simp
qed

lemma strrchr_pos_Some:
  "strrchr_pos c s = Some k \<Longrightarrow> k < length s \<and> s ! k = c \<and> c \<notin> set (drop (Suc k) s)"
proof (induction s arbitrary: k)
  case (Cons x xs)
  then show ?case
    by (auto split: option.splits if_splits simp: strrchr_pos_None)
qed simp

lemma strstr_pos_Some:
  "strstr_pos pat s = Some k \<Longrightarrow> k \<le> length s \<and> prefix pat (drop k s)"
  by (induction s arbitrary: k) (auto split: if_splits)

lemma strstr_pos_least:
  "strstr_pos pat s = Some k \<Longrightarrow> j < k \<Longrightarrow> \<not> prefix pat (drop j s)"
proof (induction s arbitrary: k j)
  case (Cons x xs)
  then show ?case by (cases j) (auto split: if_splits)
qed (auto split: if_splits)

lemma strstr_pos_prefix [cstr_simps]: "prefix pat s \<Longrightarrow> strstr_pos pat s = Some 0"
  by (cases s) auto

lemma strstr_pos_None_sublist: "strstr_pos pat s = None \<longleftrightarrow> \<not> sublist pat s"
  by (induction s) (auto simp: sublist_Cons_right)

section \<open>Numbers\<close>

definition digit_val :: "char \<Rightarrow> int" where
  "digit_val c = int (code_of c) - 48"

fun dec_value :: "int \<Rightarrow> string \<Rightarrow> int" where
  "dec_value acc [] = acc"
| "dec_value acc (d # ds) = dec_value (acc * 10 + digit_val d) ds"

text \<open>A 64-bit \<open>long\<close>: \<open>strtol\<close> saturates.\<close>

definition clamp_long :: "int \<Rightarrow> int" where
  "clamp_long v = max (- 9223372036854775808) (min 9223372036854775807 v)"

text \<open>
  \<open>strtol(s, &end, 10)\<close>: leading blanks, an optional sign, digits; \<open>None\<close> when
  there is no digit, the case in which the C code sees \<open>end == s\<close>. What follows the
  digits is ignored, as by all callers.
\<close>

definition strtol10 :: "string \<Rightarrow> int option" where
  "strtol10 s =
     (let t = dropWhile is_space s;
          neg = (t \<noteq> [] \<and> hd t = CHR ''-'');
          u = (if t \<noteq> [] \<and> (hd t = CHR ''-'' \<or> hd t = CHR ''+'') then tl t else t);
          ds = takeWhile is_digit u;
          v = dec_value 0 ds
      in if ds = [] then None else Some (clamp_long (if neg then - v else v)))"

text \<open>\<open>atoi\<close> as \<open>(int)strtol(s, NULL, 10)\<close>, the way the C library implements it.\<close>

definition atoi :: "string \<Rightarrow> int" where
  "atoi s = to_int32 (case strtol10 s of None \<Rightarrow> 0 | Some v \<Rightarrow> v)"

lemma digit_val_range: "is_digit c \<Longrightarrow> 0 \<le> digit_val c \<and> digit_val c \<le> 9"
  by (auto simp: is_digit_def digit_val_def)

lemma dec_value_nonneg: "0 \<le> acc \<Longrightarrow> \<forall>c \<in> set ds. is_digit c \<Longrightarrow> 0 \<le> dec_value acc ds"
  by (induction ds arbitrary: acc) (auto dest!: digit_val_range)

lemma dec_value_bound:
  "0 \<le> acc \<Longrightarrow> \<forall>c \<in> set ds. is_digit c \<Longrightarrow> dec_value acc ds < (acc + 1) * 10 ^ length ds"
proof (induction ds arbitrary: acc)
  case (Cons d ds)
  from Cons.prems have d: "0 \<le> digit_val d" "digit_val d \<le> 9"
    using digit_val_range by auto
  have "dec_value (acc * 10 + digit_val d) ds < (acc * 10 + digit_val d + 1) * 10 ^ length ds"
    using Cons.prems d by (intro Cons.IH) auto
  also have "\<dots> \<le> (acc * 10 + 10) * 10 ^ length ds"
    using d by (intro mult_right_mono) auto
  finally show ?case by (simp add: algebra_simps)
qed simp

lemma digit_not_space: "is_digit c \<Longrightarrow> \<not> is_space c"
  by (auto simp: is_digit_def is_space_def)

lemma digit_not_sign: "is_digit c \<Longrightarrow> c \<noteq> CHR ''-'' \<and> c \<noteq> CHR ''+''"
  by (auto simp: is_digit_def code_of_def)

lemma strtol10_digits:
  assumes "ds \<noteq> []" "\<forall>c \<in> set ds. is_digit c"
  shows "strtol10 ds = Some (clamp_long (dec_value 0 ds))"
proof -
  from assms obtain d ds' where ds: "ds = d # ds'" and d: "is_digit d" by (cases ds) auto
  have dw: "dropWhile is_space ds = ds" using ds digit_not_space [OF d] by simp
  have tw: "takeWhile is_digit ds = ds" using assms(2) by simp
  have "hd ds \<noteq> CHR ''-''" "hd ds \<noteq> CHR ''+''" using ds digit_not_sign [OF d] by auto
  then show ?thesis using assms(1) by (simp add: strtol10_def Let_def dw tw)
qed

lemma atoi_digits:
  assumes "ds \<noteq> []" "\<forall>c \<in> set ds. is_digit c" "length ds \<le> 9"
  shows "atoi ds = dec_value 0 ds"
proof -
  have "dec_value 0 ds < 1 * 10 ^ length ds"
    using dec_value_bound [of 0 ds] assms(2) by simp
  also have "\<dots> \<le> 10 ^ 9" using power_increasing [OF assms(3), of "10::int"] by simp
  finally have ub: "dec_value 0 ds < 1000000000" by simp
  have "0 \<le> dec_value 0 ds" using assms(2) by (intro dec_value_nonneg) auto
  with ub strtol10_digits [OF assms(1,2)] show ?thesis
    by (simp add: atoi_def clamp_long_def)
qed

end
