(* ===== verification/Interfaces.thy ===== *)
theory Interfaces
  imports Prelude
begin

text \<open>
  The contracts between the components, as locales over the operations their clients call.
  \<open>bounded_map\<close> is the contract of the prepared-statement cache, \<open>fifo\<close> that of a
  bounded queue, \<open>edit_fifo\<close> that of one with a further operation and \<open>requeue_fifo\<close>
  that of a queue whose last taken element may be put back at its front; \<open>lease_pool\<close>
  is the contract of the backend pool. The abstract machines that the contracts refine stand first.
\<close>

section \<open>A bounded finite map\<close>

text \<open>The operations of a store, and the machine that runs them and lists their return codes.\<close>

datatype ('p, 'k) store_op = SPut 'p | SRemove 'k

fun store_run :: "('c \<Rightarrow> 'p \<Rightarrow> int \<times> 'c) \<Rightarrow> ('c \<Rightarrow> 'k \<Rightarrow> int \<times> 'c) \<Rightarrow> ('p, 'k) store_op list \<Rightarrow>
    'c \<Rightarrow> int list \<times> 'c" where
  "store_run put remove [] c = ([], c)"
| "store_run put remove (SPut p # ops) c =
     (let (rc, c') = put c p; (rcs, c'') = store_run put remove ops c' in (rc # rcs, c''))"
| "store_run put remove (SRemove k # ops) c =
     (let (rc, c') = remove c k; (rcs, c'') = store_run put remove ops c' in (rc # rcs, c''))"

text \<open>The specification on finite maps with at most \<open>cap\<close> keys.\<close>

definition map_put :: "nat \<Rightarrow> ('p \<Rightarrow> bool) \<Rightarrow> ('p \<Rightarrow> 'k) \<Rightarrow> ('p \<Rightarrow> 'v) \<Rightarrow> ('k \<rightharpoonup> 'v) \<Rightarrow> 'p \<Rightarrow> int \<times> ('k \<rightharpoonup> 'v)" where
  "map_put cap accepted key val m p =
     (if accepted p \<and> (key p \<in> dom m \<or> card (dom m) < cap) then (0, m(key p \<mapsto> val p)) else (- 1, m))"

definition map_remove :: "('k \<rightharpoonup> 'v) \<Rightarrow> 'k \<Rightarrow> int \<times> ('k \<rightharpoonup> 'v)" where
  "map_remove m k = (if k \<in> dom m then (0, m(k := None)) else (- 1, m))"

locale bounded_map =
  fixes env_ok :: bool
    and inv :: "'c \<Rightarrow> bool"
    and content :: "'c \<Rightarrow> 'k \<rightharpoonup> 'v"
    and cap :: nat
    and empty :: 'c
    and put :: "'c \<Rightarrow> 'p \<Rightarrow> int \<times> 'c"
    and get :: "'c \<Rightarrow> 'k \<Rightarrow> 'v option"
    and remove :: "'c \<Rightarrow> 'k \<Rightarrow> int \<times> 'c"
    and well_sized :: "'p \<Rightarrow> bool"
    and accepted :: "'p \<Rightarrow> bool"
    and key :: "'p \<Rightarrow> 'k"
    and val :: "'p \<Rightarrow> 'v"
  assumes inv_empty: "inv empty" and content_empty: "content empty = Map.empty"
    and get_content: "inv c \<Longrightarrow> get c k = content c k"
    and put_spec: "env_ok \<Longrightarrow> inv c \<Longrightarrow> well_sized p \<Longrightarrow>
      fst (put c p) = fst (map_put cap accepted key val (content c) p) \<and> inv (snd (put c p)) \<and>
      content (snd (put c p)) = snd (map_put cap accepted key val (content c) p)"
    and remove_spec: "env_ok \<Longrightarrow> inv c \<Longrightarrow>
      fst (remove c k) = fst (map_remove (content c) k) \<and> inv (snd (remove c k)) \<and>
      content (snd (remove c k)) = snd (map_remove (content c) k)"
    and finite_content: "inv c \<Longrightarrow> finite (dom (content c))"
    and content_bound: "inv c \<Longrightarrow> card (dom (content c)) \<le> cap"
begin

lemma put_get:
  assumes "env_ok" "inv c" "well_sized p" "put c p = (0, c')"
  shows "get c' k = (if k = key p then Some (val p) else get c k)"
  using put_spec [OF assms(1-3)] assms(4) get_content [OF assms(2)] get_content [of c']
  by (auto simp: map_put_def split: if_splits)

lemma put_fails_iff_full:
  assumes "env_ok" "inv c" "well_sized p"
  shows "put c p = (0, snd (put c p)) \<longleftrightarrow> accepted p \<and> (get c (key p) \<noteq> None \<or> card (dom (content c)) < cap)"
  using put_spec [OF assms] get_content [OF assms(2)] by (cases "put c p") (auto simp: map_put_def domIff)

lemma remove_get:
  assumes "env_ok" "inv c" "remove c k = (0, c')"
  shows "get c' j = (if j = k then None else get c j)"
  using remove_spec [OF assms(1,2), of k] assms(3) get_content [OF assms(2)] get_content [of c']
  by (auto simp: map_remove_def split: if_splits)

text \<open>Any run of puts and removes refines the run of the specification.\<close>

lemma run_refines:
  assumes env: "env_ok"
  shows "inv c \<Longrightarrow> \<forall>p. SPut p \<in> set ops \<longrightarrow> well_sized p \<Longrightarrow>
    fst (store_run put remove ops c) = fst (store_run (map_put cap accepted key val) map_remove ops (content c)) \<and>
    content (snd (store_run put remove ops c)) =
      snd (store_run (map_put cap accepted key val) map_remove ops (content c)) \<and>
    inv (snd (store_run put remove ops c))"
proof (induction ops arbitrary: c)
  case (Cons a ops)
  show ?case
  proof (cases a)
    case (SPut p)
    then have "well_sized p" using Cons.prems(2) by simp
    from put_spec [OF env Cons.prems(1) this] Cons.IH [of "snd (put c p)"] Cons.prems(2) SPut
    show ?thesis by (simp add: case_prod_beta)
  next
    case (SRemove k)
    from remove_spec [OF env Cons.prems(1), of k] Cons.IH [of "snd (remove c k)"] Cons.prems(2) SRemove
    show ?thesis by (simp add: case_prod_beta)
  qed
qed simp

end

section \<open>A bounded queue\<close>

text \<open>
  A push either refuses (and leaves the queue alone) or appends; besides a full queue it may
  refuse what \<open>admits\<close> does not allow. A pop takes the oldest element. \<open>QEdit\<close> is
  a third operation of the provider: returning an element to the front, or deleting it.
\<close>

datatype 'a queue_op = QPush 'a | QPop | QEdit 'a

fun queue_run :: "('q \<Rightarrow> 'a \<Rightarrow> 'q) \<Rightarrow> ('q \<Rightarrow> ('a \<times> 'q) option) \<Rightarrow> ('q \<Rightarrow> 'a \<Rightarrow> 'q) \<Rightarrow> 'a queue_op list \<Rightarrow> 'q \<Rightarrow>
    'a option list \<times> 'q" where
  "queue_run push pop edit [] q = ([], q)"
| "queue_run push pop edit (QPush x # ops) q = queue_run push pop edit ops (push q x)"
| "queue_run push pop edit (QEdit x # ops) q = queue_run push pop edit ops (edit q x)"
| "queue_run push pop edit (QPop # ops) q =
     (case pop q of
        None \<Rightarrow> (let (ys, q') = queue_run push pop edit ops q in (None # ys, q'))
      | Some (y, q') \<Rightarrow> (let (ys, q'') = queue_run push pop edit ops q' in (Some y # ys, q'')))"

text \<open>The specification on lists of at most \<open>cap\<close> elements.\<close>

definition list_push :: "nat \<Rightarrow> ('a list \<Rightarrow> 'a \<Rightarrow> bool) \<Rightarrow> 'a list \<Rightarrow> 'a \<Rightarrow> 'a list" where
  "list_push cap admits xs x = (if admits xs x \<and> length xs < cap then xs @ [x] else xs)"

fun list_pop :: "'a list \<Rightarrow> ('a \<times> 'a list) option" where
  "list_pop [] = None"
| "list_pop (x # xs) = Some (x, xs)"

definition list_requeue :: "nat \<Rightarrow> 'a list \<Rightarrow> 'a \<Rightarrow> 'a list" where
  "list_requeue cap xs x = (if length xs < cap then x # xs else xs)"

locale fifo =
  fixes inv :: "'q \<Rightarrow> bool"
    and items :: "'q \<Rightarrow> 'a list"
    and cap :: nat
    and admits :: "'a list \<Rightarrow> 'a \<Rightarrow> bool"
    and push :: "'q \<Rightarrow> 'a \<Rightarrow> 'q"
    and pop :: "'q \<Rightarrow> ('a \<times> 'q) option"
  assumes items_bound: "inv q \<Longrightarrow> length (items q) \<le> cap"
    and push_items: "inv q \<Longrightarrow> inv (push q x) \<and> items (push q x) = list_push cap admits (items q) x"
    and pop_items: "inv q \<Longrightarrow> (case pop q of None \<Rightarrow> items q = []
      | Some (x, q') \<Rightarrow> inv q' \<and> items q = x # items q')"
begin

lemma pop_empty: "inv q \<Longrightarrow> pop q = None \<longleftrightarrow> items q = []"
  using pop_items [of q] by (auto split: option.splits)

lemma pop_Cons: "inv q \<Longrightarrow> items q = x # xs \<Longrightarrow> \<exists>q'. pop q = Some (x, q') \<and> inv q' \<and> items q' = xs"
  using pop_items [of q] by (auto split: option.splits)

text \<open>Items admitted together are queued in the order in which they came.\<close>

lemma pushes_in_order:
  assumes "\<And>xs x. admits xs x"
  shows "inv q \<Longrightarrow> length (items q) + length xs \<le> cap \<Longrightarrow>
    inv (foldl push q xs) \<and> items (foldl push q xs) = items q @ xs"
proof (induction xs arbitrary: q)
  case (Cons x xs)
  have "inv (push q x) \<and> items (push q x) = items q @ [x]"
    using Cons.prems assms push_items [of q x] by (simp add: list_push_def)
  with Cons.IH [of "push q x"] Cons.prems show ?case by simp
qed simp

end

text \<open>A queue with a third operation: every run refines the run on lists.\<close>

locale edit_fifo = fifo inv items cap admits push pop
  for inv :: "'q \<Rightarrow> bool" and items :: "'q \<Rightarrow> 'a list" and cap :: nat
    and admits :: "'a list \<Rightarrow> 'a \<Rightarrow> bool" and push :: "'q \<Rightarrow> 'a \<Rightarrow> 'q"
    and pop :: "'q \<Rightarrow> ('a \<times> 'q) option" +
  fixes edit :: "'q \<Rightarrow> 'a \<Rightarrow> 'q" and edit_list :: "'a list \<Rightarrow> 'a \<Rightarrow> 'a list"
  assumes edit_items: "inv q \<Longrightarrow> inv (edit q x) \<and> items (edit q x) = edit_list (items q) x"
begin

lemma run_refines:
  "inv q \<Longrightarrow>
    inv (snd (queue_run push pop edit ops q)) \<and>
    fst (queue_run push pop edit ops q) =
      fst (queue_run (list_push cap admits) list_pop edit_list ops (items q)) \<and>
    items (snd (queue_run push pop edit ops q)) =
      snd (queue_run (list_push cap admits) list_pop edit_list ops (items q))"
proof (induction ops arbitrary: q)
  case (Cons a ops)
  show ?case
  proof (cases a)
    case (QPush x)
    with Cons.IH [of "push q x"] push_items [OF Cons.prems, of x] show ?thesis by simp
  next
    case (QEdit x)
    with Cons.IH [of "edit q x"] edit_items [OF Cons.prems, of x] show ?thesis by simp
  next
    case QPop
    show ?thesis
    proof (cases "items q")
      case Nil
      with pop_empty [OF Cons.prems] Cons.IH [OF Cons.prems] QPop show ?thesis by (simp add: case_prod_beta)
    next
      case (Cons x xs)
      with pop_Cons [OF Cons.prems] obtain q' where "pop q = Some (x, q')" "inv q'" "items q' = xs" by blast
      with Cons.IH [of q'] Cons QPop show ?thesis by (simp add: case_prod_beta)
    qed
  qed
qed simp

end

text \<open>A queue to whose front the element just taken can be returned.\<close>

locale requeue_fifo = fifo inv items cap admits push pop
  for inv :: "'q \<Rightarrow> bool" and items :: "'q \<Rightarrow> 'a list" and cap :: nat
    and admits :: "'a list \<Rightarrow> 'a \<Rightarrow> bool" and push :: "'q \<Rightarrow> 'a \<Rightarrow> 'q"
    and pop :: "'q \<Rightarrow> ('a \<times> 'q) option" +
  fixes push_front :: "'q \<Rightarrow> 'a \<Rightarrow> 'q"
  assumes push_front_items: "inv q \<Longrightarrow>
    inv (push_front q x) \<and> items (push_front q x) = list_requeue cap (items q) x"
begin

lemma requeue_restores:
  assumes "inv q" "pop q = Some (x, q')"
  shows "inv (push_front q' x) \<and> items (push_front q' x) = items q"
proof -
  from pop_items [OF assms(1)] assms(2) have q': "inv q'" "items q = x # items q'" by auto
  then have "length (items q') < cap" using items_bound [OF assms(1)] by simp
  with push_front_items [OF q'(1), of x] q'(2) show ?thesis by (simp add: list_requeue_def)
qed

end

sublocale requeue_fifo \<subseteq> requeue: edit_fifo inv items cap admits push pop push_front "list_requeue cap"
  by unfold_locales (rule push_front_items)

section \<open>A pool of exclusive resources\<close>

text \<open>
  Resources are numbered. \<open>acquire k\<close> asks for one and may fail; \<open>release i\<close> gives one
  back. The machine below runs the operations of clients that keep a ledger of what they hold
  and give back only what is on it.
\<close>

datatype 'k lease_op = Acquire 'k | Release nat

fun lease_run :: "('k \<Rightarrow> 's \<Rightarrow> 'e \<Rightarrow> nat option \<times> 's \<times> 'e) \<Rightarrow> (nat \<Rightarrow> 's \<Rightarrow> 's) \<Rightarrow> 'k lease_op list \<Rightarrow>
    's \<times> 'e \<times> nat list \<Rightarrow> 's \<times> 'e \<times> nat list" where
  "lease_run acquire release [] st = st"
| "lease_run acquire release (Acquire k # ops) (s, e, held) =
     (case acquire k s e of
        (None, s', e') \<Rightarrow> lease_run acquire release ops (s', e', held)
      | (Some i, s', e') \<Rightarrow> lease_run acquire release ops (s', e', i # held))"
| "lease_run acquire release (Release i # ops) (s, e, held) =
     (if i \<in> set held then lease_run acquire release ops (release i s, e, remove1 i held)
      else lease_run acquire release ops (s, e, held))"

locale lease_pool =
  fixes inv :: "'s \<Rightarrow> bool"
    and in_use :: "'s \<Rightarrow> nat set"
    and acquire :: "'k \<Rightarrow> 's \<Rightarrow> 'e \<Rightarrow> nat option \<times> 's \<times> 'e"
    and release :: "nat \<Rightarrow> 's \<Rightarrow> 's"
  assumes acquire_spec: "inv s \<Longrightarrow> acquire k s e = (got, s', e') \<Longrightarrow>
      inv s' \<and> in_use s' = in_use s \<union> set_option got \<and> (\<forall>i. got = Some i \<longrightarrow> i \<notin> in_use s)"
    and release_spec: "inv s \<Longrightarrow> inv (release i s) \<and> in_use (release i s) = in_use s - {i}"
begin

text \<open>What the clients hold is what the pool regards as in use, and no resource is held twice.\<close>

lemma ledger_exact:
  "inv s \<Longrightarrow> distinct held \<Longrightarrow> set held = in_use s \<Longrightarrow>
    lease_run acquire release ops (s, e, held) = (s', e', held') \<Longrightarrow>
    inv s' \<and> distinct held' \<and> set held' = in_use s'"
proof (induction ops arbitrary: s e held)
  case (Cons a ops)
  show ?case
  proof (cases a)
    case (Acquire k)
    obtain got s1 e1 where ac: "acquire k s e = (got, s1, e1)" by (metis prod_cases3)
    show ?thesis
    proof (cases got)
      case None
      then show ?thesis using Cons.IH [of s1 held e1] Cons.prems acquire_spec [OF Cons.prems(1) ac] Acquire ac by simp
    next
      case (Some i)
      then show ?thesis using Cons.IH [of s1 "i # held" e1] Cons.prems acquire_spec [OF Cons.prems(1) ac] Acquire ac
        by auto
    qed
  next
    case (Release i)
    show ?thesis
    proof (cases "i \<in> set held")
      case True
      then show ?thesis
        using Cons.IH [of "release i s" "remove1 i held" e] Cons.prems release_spec [OF Cons.prems(1), of i] Release
        by simp
    next
      case False
      then show ?thesis using Cons.IH [of s held e] Cons.prems Release by simp
    qed
  qed
qed simp

end

end
