(* ===== verification/Pqwire.thy ===== *)
theory Pqwire
  imports C_Strings
begin

text \<open>
  The interface of libpqwire (the sibling project pique), which the program links and whose
  sources are not part of the repository. The data types hold the fields that the program
  reads or writes. The functions of the library are the fields of a record that every
  definition using them takes as an argument; an opaque type \<open>'w\<close> stands for its
  connection context \<open>pqwire_ctx_t\<close>. Nothing is defined for the library itself:
  what the program relies on is stated as named hypotheses over that record.
\<close>

section \<open>Messages and contexts\<close>

record pq_parse =
  p_statement :: string
  p_query :: string
  p_n_param_types :: nat
  p_param_type_oids :: "32 word list"

record prepared_stmt =
  st_name :: string
  st_query :: string
  st_n_param_types :: nat
  st_param_type_oids :: "32 word list"
  st_identity_param_slot :: int

text \<open>A parameter of a Bind: format code, length (negative for SQL NULL) and its bytes.\<close>

record bind_param =
  bp_format :: int
  bp_length :: int
  bp_data :: bytes

record pq_bind =
  b_portal :: string
  b_statement :: string
  b_n_params :: nat
  b_params :: "bind_param list"
  b_formats :: "int list"
  b_result_formats :: "int list"

text \<open>The pipeline status the library keeps while a backend answers: the two fields read here.\<close>

record pipeline_status =
  ps_saw_error :: bool
  ps_complete :: bool

datatype protocol_event =
    EvStartup
  | EvParse pq_parse
  | EvBind pq_bind
  | EvExecute
  | EvSync
  | EvTerminate
  | EvQuery "string option"
  | EvReadyForQuery
  | EvErrorResponse string
  | EvOther

section \<open>The library's functions\<close>

text \<open>
  The sizes are \<open>PQWIRE_MAX_STMT_NAME\<close>, \<open>PQWIRE_MAX_PORTAL_NAME\<close>,
  \<open>PQWIRE_MAX_QUERY_LEN\<close> and \<open>PQWIRE_MAX_BIND_PARAMS\<close>. A send function returns
  its result code and the context it leaves. \<open>w_get_output w cap\<close> takes at most
  \<open>cap\<close> pending bytes off the context.
\<close>

record 'w pqwire =
  max_stmt_name :: nat
  max_portal_name :: nat
  max_query_len :: nat
  max_bind_params :: nat
  w_prepared_from_parse :: "pq_parse \<Rightarrow> prepared_stmt \<Rightarrow> int \<times> prepared_stmt"
  w_create_client :: "'w option"
  w_create_server :: "'w option"
  w_feed_input :: "'w \<Rightarrow> bytes \<Rightarrow> 'w"
  w_next_event :: "'w \<Rightarrow> (protocol_event \<times> 'w) option"
  w_get_output :: "'w \<Rightarrow> nat \<Rightarrow> bytes \<times> 'w"
  w_send_startup :: "'w \<Rightarrow> string \<Rightarrow> string \<Rightarrow> int \<times> 'w"
  w_send_auth_ok :: "'w \<Rightarrow> int \<times> 'w"
  w_send_parse_complete :: "'w \<Rightarrow> int \<times> 'w"
  w_send_bind_complete :: "'w \<Rightarrow> int \<times> 'w"
  w_send_command_complete :: "'w \<Rightarrow> string \<Rightarrow> int \<times> 'w"
  w_send_ready_for_query :: "'w \<Rightarrow> int \<times> 'w"
  w_send_error_response :: "'w \<Rightarrow> string \<Rightarrow> string \<Rightarrow> string \<Rightarrow> int \<times> 'w"
  w_send_query :: "'w \<Rightarrow> string \<Rightarrow> int \<times> 'w"
  w_send_parse :: "'w \<Rightarrow> string \<Rightarrow> string \<Rightarrow> 32 word list \<Rightarrow> nat \<Rightarrow> int \<times> 'w"
  w_send_bind_rewrite_identity ::
    "'w \<Rightarrow> pq_bind \<Rightarrow> string \<Rightarrow> string \<Rightarrow> nat \<Rightarrow> string \<Rightarrow> int \<Rightarrow> int \<times> 'w"
  w_bind_inject_identity :: "pq_bind \<Rightarrow> nat \<Rightarrow> string \<Rightarrow> int \<Rightarrow> int \<times> bind_param list"
  w_send_bind ::
    "'w \<Rightarrow> string \<Rightarrow> string \<Rightarrow> int list \<Rightarrow> int list \<Rightarrow> bytes list \<Rightarrow> int list \<Rightarrow> int \<times> 'w"
  w_send_execute :: "'w \<Rightarrow> string \<Rightarrow> int \<Rightarrow> int \<times> 'w"
  w_send_sync :: "'w \<Rightarrow> int \<times> 'w"
  w_pipeline_feed :: "'w \<Rightarrow> pipeline_status \<Rightarrow> bytes \<Rightarrow> int \<times> 'w \<times> pipeline_status"
  w_filter_type :: "byte \<Rightarrow> bool \<Rightarrow> bool"
  w_msg_peek :: "bytes \<Rightarrow> (byte \<times> nat) option"
  w_param_set_null :: "bind_param \<Rightarrow> bind_param"
  w_param_set_binary :: "bind_param \<Rightarrow> bytes \<Rightarrow> int \<times> bind_param"
  w_param_set_text :: "bind_param \<Rightarrow> bytes \<Rightarrow> int \<times> bind_param"
  w_n_events :: "'w \<Rightarrow> nat"
  w_n_output :: "'w \<Rightarrow> nat"

text \<open>\<open>pqwire_pipeline_status_init\<close>.\<close>

definition pipe_init :: pipeline_status where
  "pipe_init = \<lparr>ps_saw_error = False, ps_complete = False\<rparr>"

text \<open>
  The loops of the program that run until the library has no event, or no output, left take
  their fuel from the number of complete events and of pending bytes that a context holds.
  \<open>wire_finite\<close>: an event or a piece of output that is taken is gone, and an empty context
  yields none; under it the fuel is enough.
\<close>

definition wire_finite :: "'w pqwire \<Rightarrow> bool" where
  "wire_finite pw \<longleftrightarrow>
     (\<forall>w e w'. w_next_event pw w = Some (e, w') \<longrightarrow> w_n_events pw w' < w_n_events pw w) \<and>
     (\<forall>w cap b w'. w_get_output pw w cap = (b, w') \<longrightarrow>
        (if b = [] then w' = w else w_n_output pw w' < w_n_output pw w))"

text \<open>\<open>while (pqwire_get_output(w, dump, cap) > 0) ;\<close>\<close>

fun drop_output :: "'w pqwire \<Rightarrow> nat \<Rightarrow> nat \<Rightarrow> 'w \<Rightarrow> 'w" where
  "drop_output pw cap 0 w = w"
| "drop_output pw cap (Suc k) w =
     (let (b, w') = w_get_output pw w cap in if b = [] then w' else drop_output pw cap k w')"

text \<open>\<open>output_stream pw pending\<close>: the pending output of a context is a sequence of bytes, taken
  from its front.\<close>

definition output_stream :: "'w pqwire \<Rightarrow> ('w \<Rightarrow> bytes) \<Rightarrow> bool" where
  "output_stream pw pending \<longleftrightarrow>
     (\<forall>w. w_n_output pw w = length (pending w)) \<and>
     (\<forall>w cap. fst (w_get_output pw w cap) = take cap (pending w) \<and>
        pending (snd (w_get_output pw w cap)) = drop cap (pending w))"

lemma output_streamD:
  assumes "output_stream pw pending" "w_get_output pw w cap = (b, w')"
  shows "b = take cap (pending w)" "pending w' = drop cap (pending w)" "w_n_output pw w = length (pending w)"
  using assms unfolding output_stream_def by (metis fst_conv snd_conv)+

lemma drop_output_pending:
  "output_stream pw pending \<Longrightarrow> 0 < cap \<Longrightarrow> length (pending w) \<le> k \<Longrightarrow> pending (drop_output pw cap k w) = []"
proof (induction k arbitrary: w)
  case (Suc k)
  obtain b w' where g: "w_get_output pw w cap = (b, w')" by fastforce
  note o = output_streamD [OF Suc.prems(1) g]
  show ?case
  proof (cases "b = []")
    case True
    with o Suc.prems(2) have "pending w = []" by simp
    with o True g show ?thesis by simp
  next
    case False
    have "length (pending w') \<le> k" using o(1,2) False Suc.prems(2,3) by (cases "pending w") auto
    with Suc.IH [OF Suc.prems(1,2), of w'] False g show ?thesis by simp
  qed
qed simp

text \<open>Under \<open>wire_finite\<close> the loop ends with nothing left.\<close>

lemma drop_output_empties:
  "wire_finite pw \<Longrightarrow> w_n_output pw w \<le> k \<Longrightarrow> fst (w_get_output pw (drop_output pw cap k w) cap) = []"
proof (induction k arbitrary: w)
  case 0
  obtain b w' where g: "w_get_output pw w cap = (b, w')" by fastforce
  have "if b = [] then w' = w else w_n_output pw w' < w_n_output pw w"
    using 0(1) g unfolding wire_finite_def by blast
  with 0(2) g show ?case by (auto split: if_splits)
next
  case (Suc k)
  obtain b w' where g: "w_get_output pw w cap = (b, w')" by fastforce
  show ?case
  proof (cases "b = []")
    case True
    with Suc.prems(1) g have "w' = w" by (auto simp: wire_finite_def)
    with True g show ?thesis by simp
  next
    case False
    with Suc.prems g have "w_n_output pw w' \<le> k" by (fastforce simp: wire_finite_def)
    from Suc.IH [OF Suc.prems(1) this] False g show ?thesis by simp
  qed
qed

section \<open>What the program relies on\<close>

text \<open>
  \<open>pqwire_prepared_from_parse\<close>: on success the statement holds the name, the query and
  the parameter types of the Parse message; on failure the destination is as it was; whether
  it succeeds depends on the message only.
\<close>

definition prep_ok :: "'w pqwire \<Rightarrow> bool" where
  "prep_ok pw \<longleftrightarrow>
     (\<forall>p s. fst (w_prepared_from_parse pw p s) = 0 \<longrightarrow>
        (let s' = snd (w_prepared_from_parse pw p s) in
           st_name s' = p_statement p \<and> st_query s' = p_query p \<and>
           st_n_param_types s' = p_n_param_types p \<and>
           st_param_type_oids s' = p_param_type_oids p)) \<and>
     (\<forall>p s. fst (w_prepared_from_parse pw p s) \<noteq> 0 \<longrightarrow> snd (w_prepared_from_parse pw p s) = s) \<and>
     (\<forall>p s s'. fst (w_prepared_from_parse pw p s) = fst (w_prepared_from_parse pw p s'))"

text \<open>
  The messages a client context has queued for its backend, as the library's documentation
  names them. \<open>client_ok pw sent\<close>: with \<open>sent w\<close> the messages queued on \<open>w\<close>,
  each send function either succeeds and queues exactly its message, or fails and queues
  nothing; a Bind that is sent or rewritten carries the parameters it was given, with the
  identity slot replaced by the identity in text format.
\<close>

datatype be_msg =
    BParse string string "32 word list"
  | BBind string string "bind_param list" "int list"
  | BExecute string
  | BSync
  | BQuery string

definition identity_param :: "string \<Rightarrow> int \<Rightarrow> bind_param" where
  "identity_param rid fmt =
     \<lparr>bp_format = fmt, bp_length = int (length rid), bp_data = map (\<lambda>c. of_nat (code_of c)) rid\<rparr>"

definition queues :: "('w \<Rightarrow> be_msg list) \<Rightarrow> 'w \<Rightarrow> be_msg \<Rightarrow> int \<times> 'w \<Rightarrow> bool" where
  "queues sent w m r \<longleftrightarrow> sent (snd r) = sent w @ (if fst r = 0 then [m] else [])"

text \<open>
  \<open>pqwire_param_set_null\<close>, \<open>_set_binary\<close> and \<open>_set_text\<close> make an owned parameter:
  SQL NULL, the bytes in binary format, the bytes of a C string in text format.
\<close>

definition params_ok :: "'w pqwire \<Rightarrow> bool" where
  "params_ok pw \<longleftrightarrow>
     (\<forall>p. bp_length (w_param_set_null pw p) < 0) \<and>
     (\<forall>p d. w_param_set_binary pw p d = (0, \<lparr>bp_format = 1, bp_length = int (length d), bp_data = d\<rparr>)) \<and>
     (\<forall>p d. w_param_set_text pw p d = (0, \<lparr>bp_format = 0, bp_length = int (length d), bp_data = d\<rparr>))"

text \<open>The parameters of a Bind put together from parallel arrays of formats, lengths, values.\<close>

definition zip_params :: "int list \<Rightarrow> int list \<Rightarrow> bytes list \<Rightarrow> bind_param list" where
  "zip_params fs ls vs =
     map (\<lambda>(f, l, v). \<lparr>bp_format = f, bp_length = l, bp_data = v\<rparr>) (zip fs (zip ls vs))"

definition client_ok :: "'w pqwire \<Rightarrow> ('w \<Rightarrow> be_msg list) \<Rightarrow> bool" where
  "client_ok pw sent \<longleftrightarrow>
     (\<forall>w n q oids k. queues sent w (BParse n q (take k oids)) (w_send_parse pw w n q oids k)) \<and>
     (\<forall>w b po st s rid f. queues sent w
         (BBind po st ((take (b_n_params b) (b_params b))[s := identity_param rid f]) (b_result_formats b))
         (w_send_bind_rewrite_identity pw w b po st s rid f)) \<and>
     (\<forall>b s rid f. fst (w_bind_inject_identity pw b s rid f) = 0 \<longrightarrow>
         snd (w_bind_inject_identity pw b s rid f) =
           (take (b_n_params b) (b_params b))[s := identity_param rid f]) \<and>
     (\<forall>w po st fs ls vs rf. queues sent w (BBind po st (zip_params fs ls vs) rf)
         (w_send_bind pw w po st fs ls vs rf)) \<and>
     (\<forall>w po k. queues sent w (BExecute po) (w_send_execute pw w po k)) \<and>
     (\<forall>w. queues sent w BSync (w_send_sync pw w))"

lemma zip_params_map [simp]:
  "zip_params (map bp_format ps) (map bp_length ps) (map bp_data ps) = ps"
  by (induction ps) (simp_all add: zip_params_def)

end
