(* ===== verification/Pqwire_Ref.thy ===== *)
theory Pqwire_Ref
  imports Pqwire
begin

text \<open>
  One concrete instance of the library interface, used only to show that the hypotheses
  about libpqwire can hold together: the witnesses of the development instantiate the
  library parameter with it. It records the messages sent to a backend, writes one byte per
  message to its output buffer, and yields the events it was given. It does not describe how
  libpqwire works.
\<close>

record ref_wire =
  rw_sent :: "be_msg list"
  rw_out :: bytes
  rw_events :: "protocol_event list"

definition ref_wire0 :: ref_wire where
  "ref_wire0 = \<lparr>rw_sent = [], rw_out = [], rw_events = []\<rparr>"

definition ref_put :: "byte \<Rightarrow> ref_wire \<Rightarrow> int \<times> ref_wire" where
  "ref_put b w = (0, w\<lparr>rw_out := rw_out w @ [b]\<rparr>)"

definition ref_send :: "be_msg \<Rightarrow> byte \<Rightarrow> ref_wire \<Rightarrow> int \<times> ref_wire" where
  "ref_send m b w = (0, w\<lparr>rw_sent := rw_sent w @ [m], rw_out := rw_out w @ [b]\<rparr>)"

definition ref_prepare :: "pq_parse \<Rightarrow> prepared_stmt \<Rightarrow> int \<times> prepared_stmt" where
  "ref_prepare p s = (0, s\<lparr>st_name := p_statement p, st_query := p_query p,
     st_n_param_types := p_n_param_types p, st_param_type_oids := p_param_type_oids p\<rparr>)"

definition ref_params :: "pq_bind \<Rightarrow> nat \<Rightarrow> string \<Rightarrow> int \<Rightarrow> bind_param list" where
  "ref_params b s rid f = (take (b_n_params b) (b_params b))[s := identity_param rid f]"

definition ref_feed :: "pipeline_status \<Rightarrow> bytes \<Rightarrow> pipeline_status" where
  "ref_feed st msg = (case msg of [] \<Rightarrow> st | t # _ \<Rightarrow>
     \<lparr>ps_saw_error = (ps_saw_error st \<or> t = 69), ps_complete = (ps_complete st \<or> t = 90)\<rparr>)"

definition ref_peek :: "bytes \<Rightarrow> (byte \<times> nat) option" where
  "ref_peek msg = (case msg of [] \<Rightarrow> None | t # _ \<Rightarrow> Some (t, length msg))"

text \<open>The messages of the witnesses: a Parse, a Bind of its statement, and the event that a chunk of
  input stands for.\<close>

definition demo_parse :: "string \<Rightarrow> string \<Rightarrow> pq_parse" where
  "demo_parse n q = \<lparr>p_statement = n, p_query = q, p_n_param_types = 0, p_param_type_oids = []\<rparr>"

definition ref_bind :: pq_bind where
  "ref_bind = \<lparr>b_portal = '''', b_statement = ''s'', b_n_params = 2,
     b_params = [identity_param ''forged'' 0, identity_param ''v'' 0], b_formats = [], b_result_formats = []\<rparr>"

definition ref_event :: "byte \<Rightarrow> protocol_event list" where
  [simp]: "ref_event t = (if t = 90 then [EvReadyForQuery] else if t = 69 then [EvErrorResponse '''']
     else if t = 80 then [EvParse (demo_parse ''s'' ''SELECT 1'')] else if t = 66 then [EvBind ref_bind]
     else if t = 83 then [EvSync] else [EvOther])"

definition ref_pw :: "ref_wire pqwire" where
  "ref_pw = \<lparr>
     max_stmt_name = 64, max_portal_name = 64, max_query_len = 1024, max_bind_params = 64,
     w_prepared_from_parse = ref_prepare,
     w_create_client = Some ref_wire0,
     w_create_server = Some ref_wire0,
     w_feed_input = (\<lambda>w b. w\<lparr>rw_events := rw_events w @
       (case b of [] \<Rightarrow> [] | t # _ \<Rightarrow>
          ref_event t)\<rparr>),
     w_next_event = (\<lambda>w. case rw_events w of [] \<Rightarrow> None | e # es \<Rightarrow> Some (e, w\<lparr>rw_events := es\<rparr>)),
     w_get_output = (\<lambda>w n. (take n (rw_out w), w\<lparr>rw_out := drop n (rw_out w)\<rparr>)),
     w_send_startup = (\<lambda>w _ _. ref_put 83 w),
     w_send_auth_ok = ref_put 82,
     w_send_parse_complete = ref_put 49,
     w_send_bind_complete = ref_put 50,
     w_send_command_complete = (\<lambda>w _. ref_put 67 w),
     w_send_ready_for_query = ref_put 90,
     w_send_error_response = (\<lambda>w _ _ _. ref_put 69 w),
     w_send_query = (\<lambda>w q. ref_send (BQuery q) 81 w),
     w_send_parse = (\<lambda>w n q oids k. ref_send (BParse n q (take k oids)) 80 w),
     w_send_bind_rewrite_identity =
       (\<lambda>w b po st s rid f. ref_send (BBind po st (ref_params b s rid f) (b_result_formats b)) 66 w),
     w_bind_inject_identity = (\<lambda>b s rid f. (0, ref_params b s rid f)),
     w_send_bind = (\<lambda>w po st fs ls vs rf. ref_send (BBind po st (zip_params fs ls vs) rf) 66 w),
     w_send_execute = (\<lambda>w po _. ref_send (BExecute po) 69 w),
     w_send_sync = ref_send BSync 83,
     w_pipeline_feed = (\<lambda>w st msg. (0, w, ref_feed st msg)),
     w_filter_type = (\<lambda>t skip. t \<in> {82, 83, 75} \<or> (skip \<and> t \<in> {49, 50})),
     w_msg_peek = ref_peek,
     w_param_set_null = (\<lambda>p. p\<lparr>bp_length := - 1, bp_data := []\<rparr>),
     w_param_set_binary = (\<lambda>p d. (0, \<lparr>bp_format = 1, bp_length = int (length d), bp_data = d\<rparr>)),
     w_param_set_text = (\<lambda>p d. (0, \<lparr>bp_format = 0, bp_length = int (length d), bp_data = d\<rparr>)),
     w_n_events = (\<lambda>w. length (rw_events w)),
     w_n_output = (\<lambda>w. length (rw_out w))\<rparr>"

text \<open>The fields of the instance, for evaluating it.\<close>

lemma ref_pw_sel:
  "max_stmt_name ref_pw = 64"
  "max_portal_name ref_pw = 64"
  "max_query_len ref_pw = 1024"
  "max_bind_params ref_pw = 64"
  "w_prepared_from_parse ref_pw = ref_prepare"
  "w_create_client ref_pw = Some ref_wire0"
  "w_create_server ref_pw = Some ref_wire0"
  "w_feed_input ref_pw = (\<lambda>w b. w\<lparr>rw_events := rw_events w @ (case b of [] \<Rightarrow> [] | t # _ \<Rightarrow> ref_event t)\<rparr>)"
  "w_next_event ref_pw = (\<lambda>w. case rw_events w of [] \<Rightarrow> None | e # es \<Rightarrow> Some (e, w\<lparr>rw_events := es\<rparr>))"
  "w_get_output ref_pw = (\<lambda>w n. (take n (rw_out w), w\<lparr>rw_out := drop n (rw_out w)\<rparr>))"
  "w_send_startup ref_pw = (\<lambda>w _ _. ref_put 83 w)"
  "w_send_auth_ok ref_pw = ref_put 82"
  "w_send_parse_complete ref_pw = ref_put 49"
  "w_send_bind_complete ref_pw = ref_put 50"
  "w_send_command_complete ref_pw = (\<lambda>w _. ref_put 67 w)"
  "w_send_ready_for_query ref_pw = ref_put 90"
  "w_send_error_response ref_pw = (\<lambda>w _ _ _. ref_put 69 w)"
  "w_send_query ref_pw = (\<lambda>w q. ref_send (BQuery q) 81 w)"
  "w_send_parse ref_pw = (\<lambda>w n q oids k. ref_send (BParse n q (take k oids)) 80 w)"
  "w_send_bind_rewrite_identity ref_pw = (\<lambda>w b po st s rid f. ref_send (BBind po st (ref_params b s rid f) (b_result_formats b)) 66 w)"
  "w_bind_inject_identity ref_pw = (\<lambda>b s rid f. (0, ref_params b s rid f))"
  "w_send_bind ref_pw = (\<lambda>w po st fs ls vs rf. ref_send (BBind po st (zip_params fs ls vs) rf) 66 w)"
  "w_send_execute ref_pw = (\<lambda>w po _. ref_send (BExecute po) 69 w)"
  "w_send_sync ref_pw = ref_send BSync 83"
  "w_pipeline_feed ref_pw = (\<lambda>w st msg. (0, w, ref_feed st msg))"
  "w_filter_type ref_pw = (\<lambda>t skip. t \<in> {82, 83, 75} \<or> (skip \<and> t \<in> {49, 50}))"
  "w_msg_peek ref_pw = ref_peek"
  "w_param_set_null ref_pw = (\<lambda>p. p\<lparr>bp_length := - 1, bp_data := []\<rparr>)"
  "w_param_set_binary ref_pw = (\<lambda>p d. (0, \<lparr>bp_format = 1, bp_length = int (length d), bp_data = d\<rparr>))"
  "w_param_set_text ref_pw = (\<lambda>p d. (0, \<lparr>bp_format = 0, bp_length = int (length d), bp_data = d\<rparr>))"
  "w_n_events ref_pw = (\<lambda>w. length (rw_events w))"
  "w_n_output ref_pw = (\<lambda>w. length (rw_out w))"
  by (simp_all add: ref_pw_def)

lemma ref_prep_ok: "prep_ok ref_pw"
  by (simp add: prep_ok_def ref_pw_def ref_prepare_def Let_def)

lemma ref_client_ok: "client_ok ref_pw rw_sent"
  by (simp add: client_ok_def queues_def ref_pw_def ref_send_def ref_params_def)

lemma ref_params_ok: "params_ok ref_pw"
  by (simp add: params_ok_def ref_pw_def)

lemma ref_output_stream: "output_stream ref_pw rw_out"
  by (simp add: output_stream_def ref_pw_def)

lemma ref_wire_finite: "wire_finite ref_pw"
  by (auto simp: wire_finite_def ref_pw_def split: list.splits)

end
