(* ===== verification/Stmt_Cache.thy ===== *)
theory Stmt_Cache
  imports Pqwire_Ref Interfaces
begin

text \<open>
  The per-frontend cache of prepared statements (src/rewrite_engine.c): an
  open-addressing hash table of 64 slots with linear probing, FNV-1a hashing and no
  tombstones, so that a removal rebuilds the table. The theory translates its four
  operations, states the table invariant, and shows that they refine lookup, bounded update
  and deletion on a finite map from statement names.
\<close>

unbundle bit_operations_syntax

section \<open>State and operations\<close>

abbreviation (input) MAX_CACHED_STMTS :: nat where "MAX_CACHED_STMTS \<equiv> 64"

record stmt_slot =
  sl_stmt :: prepared_stmt
  sl_in_use :: bool

record stmt_cache =
  c_slots :: "stmt_slot list"
  c_count :: nat

text \<open>FNV-1a on 32 bits.\<close>

definition stmt_name_hash :: "string \<Rightarrow> 32 word" where
  "stmt_name_hash name =
     foldl (\<lambda>h c. (h XOR word_of_nat (code_of c)) * 16777619) 2166136261 name"

text \<open>The all-zero slot and statement that \<open>memset\<close> leaves.\<close>

definition zero_stmt :: prepared_stmt where
  "zero_stmt = \<lparr>st_name = [], st_query = [], st_n_param_types = 0, st_param_type_oids = [],
     st_identity_param_slot = 0\<rparr>"

definition zero_slot :: stmt_slot where
  "zero_slot = \<lparr>sl_stmt = zero_stmt, sl_in_use = False\<rparr>"

definition stmt_cache_init :: stmt_cache where
  "stmt_cache_init = \<lparr>c_slots = replicate MAX_CACHED_STMTS zero_slot, c_count = 0\<rparr>"

text \<open>
  The probe loop that put, get and remove share: from the home position on, at most 64
  slots, stopping at the first slot not in use or at the slot with the name.
\<close>

datatype probe_result = Found nat | Free nat | Exhausted

fun probe :: "stmt_slot list \<Rightarrow> string \<Rightarrow> nat \<Rightarrow> nat \<Rightarrow> nat \<Rightarrow> probe_result" where
  "probe sl name h p 0 = Exhausted"
| "probe sl name h p (Suc k) =
     (let i = (h + p) mod MAX_CACHED_STMTS in
      if \<not> sl_in_use (sl ! i) then Free i
      else if st_name (sl_stmt (sl ! i)) = name then Found i
      else probe sl name h (Suc p) k)"

definition home :: "string \<Rightarrow> nat" where
  "home name = unat (stmt_name_hash name)"

definition cache_probe :: "stmt_cache \<Rightarrow> string \<Rightarrow> probe_result" where
  "cache_probe c name = probe (c_slots c) name (home name) 0 MAX_CACHED_STMTS"

definition stmt_cache_put :: "'w pqwire \<Rightarrow> stmt_cache \<Rightarrow> pq_parse \<Rightarrow> int \<Rightarrow> int \<times> stmt_cache" where
  "stmt_cache_put pw c p identity_slot =
     (case cache_probe c (p_statement p) of
        Found i \<Rightarrow>
          (let s = c_slots c ! i;
               (rc, st) = w_prepared_from_parse pw p (sl_stmt s) in
           if rc \<noteq> 0 then (ERR, c\<lparr>c_slots := (c_slots c)[i := s\<lparr>sl_stmt := st\<rparr>]\<rparr>)
           else (OK, c\<lparr>c_slots :=
             (c_slots c)[i := s\<lparr>sl_stmt := st\<lparr>st_identity_param_slot := identity_slot\<rparr>\<rparr>]\<rparr>))
      | Exhausted \<Rightarrow> (ERR, c)
      | Free i \<Rightarrow>
          if c_count c \<ge> MAX_CACHED_STMTS then (ERR, c)
          else
            (let s = c_slots c ! i;
                 (rc, st) = w_prepared_from_parse pw p (sl_stmt s) in
             if rc \<noteq> 0 then (ERR, c\<lparr>c_slots := (c_slots c)[i := s\<lparr>sl_stmt := st\<rparr>]\<rparr>)
             else (OK, c\<lparr>c_slots := (c_slots c)[i :=
                    \<lparr>sl_stmt = st\<lparr>st_identity_param_slot := identity_slot\<rparr>, sl_in_use = True\<rparr>],
                  c_count := c_count c + 1\<rparr>)))"

definition stmt_cache_get :: "stmt_cache \<Rightarrow> string \<Rightarrow> prepared_stmt option" where
  "stmt_cache_get c name =
     (case cache_probe c name of
        Found i \<Rightarrow> Some (sl_stmt (c_slots c ! i))
      | _ \<Rightarrow> None)"

text \<open>The Parse message that the rebuild makes of a stored statement.\<close>

definition parse_of_stmt :: "'w pqwire \<Rightarrow> prepared_stmt \<Rightarrow> pq_parse" where
  "parse_of_stmt pw s =
     \<lparr>p_statement = strncpy_arr (max_stmt_name pw) (st_name s),
      p_query = strncpy_arr (max_query_len pw) (st_query s),
      p_n_param_types = st_n_param_types s,
      p_param_type_oids = st_param_type_oids s\<rparr>"

fun rehash :: "'w pqwire \<Rightarrow> stmt_slot list \<Rightarrow> stmt_cache \<Rightarrow> int \<times> stmt_cache" where
  "rehash pw [] c = (OK, c)"
| "rehash pw (s # old) c =
     (if sl_in_use s then
        (let (rc, c') = stmt_cache_put pw c (parse_of_stmt pw (sl_stmt s))
                          (st_identity_param_slot (sl_stmt s)) in
         if rc \<noteq> 0 then (ERR, c') else rehash pw old c')
      else rehash pw old c)"

definition stmt_cache_remove :: "'w pqwire \<Rightarrow> stmt_cache \<Rightarrow> string \<Rightarrow> int \<times> stmt_cache" where
  "stmt_cache_remove pw c name =
     (case cache_probe c name of
        Found i \<Rightarrow> rehash pw ((c_slots c)[i := zero_slot]) stmt_cache_init
      | _ \<Rightarrow> (ERR, c))"

section \<open>The map a table stands for, and its invariant\<close>

definition slot_assoc :: "stmt_slot \<Rightarrow> string \<times> prepared_stmt" where
  "slot_assoc s = (st_name (sl_stmt s), sl_stmt s)"

definition cache_map :: "stmt_cache \<Rightarrow> string \<rightharpoonup> prepared_stmt" where
  "cache_map c = map_of (map slot_assoc (filter sl_in_use (c_slots c)))"

definition used :: "stmt_cache \<Rightarrow> nat set" where
  "used c = {i. i < MAX_CACHED_STMTS \<and> sl_in_use (c_slots c ! i)}"

abbreviation name_at :: "stmt_cache \<Rightarrow> nat \<Rightarrow> string" where
  "name_at c i \<equiv> st_name (sl_stmt (c_slots c ! i))"

text \<open>
  A statement is storable when the library accepts it and its name and query fit the
  arrays that the rebuild copies them through.
\<close>

definition storable :: "'w pqwire \<Rightarrow> prepared_stmt \<Rightarrow> bool" where
  "storable pw s \<longleftrightarrow> length (st_name s) < max_stmt_name pw \<and> length (st_query s) < max_query_len pw \<and>
     fst (w_prepared_from_parse pw (parse_of_stmt pw s) zero_stmt) = 0"

text \<open>
  The invariant: 64 slots, the count is the number of slots in use, no two of them hold the
  same name, every slot in use lies on the probe path of its name with no unused slot
  before it, and every statement is storable.
\<close>

definition on_path :: "stmt_cache \<Rightarrow> nat \<Rightarrow> bool" where
  "on_path c i \<longleftrightarrow> (\<exists>p < MAX_CACHED_STMTS. i = (home (name_at c i) + p) mod MAX_CACHED_STMTS \<and>
     (\<forall>q < p. (home (name_at c i) + q) mod MAX_CACHED_STMTS \<in> used c))"

definition cache_inv :: "'w pqwire \<Rightarrow> stmt_cache \<Rightarrow> bool" where
  "cache_inv pw c \<longleftrightarrow> length (c_slots c) = MAX_CACHED_STMTS \<and> c_count c = card (used c) \<and>
     inj_on (name_at c) (used c) \<and> (\<forall>i \<in> used c. on_path c i \<and> storable pw (sl_stmt (c_slots c ! i)))"

lemma cache_invD:
  assumes "cache_inv pw c"
  shows "length (c_slots c) = 64" "c_count c = card (used c)" "inj_on (name_at c) (used c)"
    and "i \<in> used c \<Longrightarrow> on_path c i" "i \<in> used c \<Longrightarrow> storable pw (sl_stmt (c_slots c ! i))"
  using assms by (auto simp: cache_inv_def)

lemma used_finite [simp, intro]: "finite (used c)"
  by (simp add: used_def)

lemma used_bound: "card (used c) \<le> MAX_CACHED_STMTS"
  using card_mono [of "{..<64}" "used c"] by (auto simp: used_def)

lemma usedD: "i \<in> used c \<Longrightarrow> i < MAX_CACHED_STMTS \<and> sl_in_use (c_slots c ! i)"
  by (simp add: used_def)

section \<open>The probe loop\<close>

definition probed :: "stmt_slot list \<Rightarrow> string \<Rightarrow> nat \<Rightarrow> bool" where
  "probed sl name i \<longleftrightarrow> sl_in_use (sl ! i) \<and> st_name (sl_stmt (sl ! i)) \<noteq> name"

lemma probe_Found:
  "probe sl name h p k = Found i \<Longrightarrow>
     i < MAX_CACHED_STMTS \<and> sl_in_use (sl ! i) \<and> st_name (sl_stmt (sl ! i)) = name"
  by (induction k arbitrary: p) (auto simp: Let_def split: if_splits)

lemma probe_Free:
  "probe sl name h p k = Free i \<Longrightarrow>
     \<exists>q. p \<le> q \<and> q < p + k \<and> i = (h + q) mod MAX_CACHED_STMTS \<and> \<not> sl_in_use (sl ! i) \<and>
         (\<forall>r. p \<le> r \<and> r < q \<longrightarrow> probed sl name ((h + r) mod MAX_CACHED_STMTS))"
proof (induction k arbitrary: p)
  case (Suc k)
  show ?case
  proof (cases "sl_in_use (sl ! ((h + p) mod MAX_CACHED_STMTS))")
    case False
    with Suc.prems show ?thesis by (intro exI [of _ p]) (auto simp: Let_def)
  next
    case True
    with Suc.prems have here: "probed sl name ((h + p) mod MAX_CACHED_STMTS)"
      and "probe sl name h (Suc p) k = Free i"
      by (auto simp: Let_def probed_def split: if_splits)
    from Suc.IH [OF this(2)] obtain q where q: "Suc p \<le> q" "q < Suc p + k"
      "i = (h + q) mod MAX_CACHED_STMTS" "\<not> sl_in_use (sl ! i)"
      "\<forall>r. Suc p \<le> r \<and> r < q \<longrightarrow> probed sl name ((h + r) mod MAX_CACHED_STMTS)" by blast
    have "probed sl name ((h + r) mod MAX_CACHED_STMTS)" if "p \<le> r" "r < q" for r
      using that here q(5) by (cases "r = p") auto
    with q show ?thesis by (intro exI [of _ q]) auto
  qed
qed simp

lemma probe_Exhausted:
  "probe sl name h p k = Exhausted \<Longrightarrow> p \<le> r \<Longrightarrow> r < p + k \<Longrightarrow>
     probed sl name ((h + r) mod MAX_CACHED_STMTS)"
proof (induction k arbitrary: p)
  case (Suc k)
  then show ?case
    by (cases "r = p") (auto simp: Let_def probed_def split: if_splits)
qed simp

text \<open>A slot with the name, reached along slots that are all in use and hold other names, is found.\<close>

lemma probe_reaches:
  assumes "sl_in_use (sl ! i)" "st_name (sl_stmt (sl ! i)) = name"
    and "i = (h + q) mod MAX_CACHED_STMTS" "p \<le> q" "q < p + k"
    and "\<And>r. p \<le> r \<Longrightarrow> r < q \<Longrightarrow> probed sl name ((h + r) mod MAX_CACHED_STMTS)"
  shows "probe sl name h p k = Found i"
  using assms(3-)
proof (induction k arbitrary: p)
  case (Suc k)
  show ?case
  proof (cases "p = q")
    case True
    with Suc.prems(1) assms(1,2) show ?thesis by (simp add: Let_def)
  next
    case False
    with Suc.prems have "probe sl name h (Suc p) k = Found i" by (intro Suc.IH) auto
    moreover have "probed sl name ((h + p) mod MAX_CACHED_STMTS)" using Suc.prems False by simp
    ultimately show ?thesis by (simp add: Let_def probed_def)
  qed
qed simp

section \<open>Lookup\<close>

lemma in_used_names_differ:
  assumes "cache_inv pw c" "i \<in> used c" "j \<in> used c" "i \<noteq> j"
  shows "name_at c j \<noteq> name_at c i"
  using assms by (auto simp: cache_inv_def inj_on_def)

text \<open>Along the path to a stored name, only other names are met before it.\<close>

lemma cache_probe_present:
  assumes inv: "cache_inv pw c" and i: "i \<in> used c"
  shows "cache_probe c (name_at c i) = Found i"
proof -
  let ?h = "home (name_at c i)"
  from cache_invD(4) [OF inv i] obtain p where p: "p < MAX_CACHED_STMTS"
    "i = (?h + p) mod MAX_CACHED_STMTS" "\<forall>q < p. (?h + q) mod MAX_CACHED_STMTS \<in> used c"
    by (auto simp: on_path_def)
  have "probed (c_slots c) (name_at c i) ((?h + r) mod MAX_CACHED_STMTS)" if "r < p" for r
  proof -
    have "(?h + r) mod MAX_CACHED_STMTS \<noteq> i"
      using that p ring_index_inj [of r MAX_CACHED_STMTS p ?h] by auto
    moreover have "(?h + r) mod MAX_CACHED_STMTS \<in> used c" using p(3) that by blast
    ultimately show ?thesis
      using in_used_names_differ [OF inv i, of "(?h + r) mod MAX_CACHED_STMTS"]
      by (auto simp: probed_def dest: usedD)
  qed
  with p i show ?thesis
    unfolding cache_probe_def by (intro probe_reaches [where q = p]) (auto simp: used_def)
qed

lemma cache_probe_Found:
  "cache_probe c name = Found i \<Longrightarrow> i \<in> used c \<and> name_at c i = name"
  unfolding cache_probe_def by (drule probe_Found) (simp add: used_def)

lemma cache_probe_absent:
  assumes "\<forall>i \<in> used c. name_at c i \<noteq> name"
  shows "cache_probe c name \<noteq> Found i"
proof
  assume "cache_probe c name = Found i"
  then have "i \<in> used c" "name_at c i = name" using cache_probe_Found by blast+
  with assms show False by blast
qed

lemma filter_used:
  "filter sl_in_use sl = map ((!) sl) (filter (\<lambda>i. sl_in_use (sl ! i)) [0..<length sl])"
proof -
  have "filter sl_in_use (map ((!) sl) [0..<length sl]) =
      map ((!) sl) (filter (\<lambda>i. sl_in_use (sl ! i)) [0..<length sl])"
    by (simp only: filter_map comp_def)
  then show ?thesis by (simp only: map_nth)
qed

lemma cache_map_Some:
  assumes inv: "cache_inv pw c"
  shows "cache_map c name = Some st \<longleftrightarrow> (\<exists>i \<in> used c. name_at c i = name \<and> st = sl_stmt (c_slots c ! i))"
proof -
  let ?xs = "map slot_assoc (filter sl_in_use (c_slots c))"
  let ?is = "filter (\<lambda>i. sl_in_use (c_slots c ! i)) [0..<length (c_slots c)]"
  have xs: "?xs = map (\<lambda>i. (name_at c i, sl_stmt (c_slots c ! i))) ?is"
    by (subst filter_used) (simp add: slot_assoc_def comp_def)
  have set_is: "set ?is = used c" using cache_invD(1) [OF inv] by (auto simp: used_def)
  have dist: "distinct (map fst ?xs)"
    unfolding xs map_map comp_def fst_conv distinct_map
    using cache_invD(3) [OF inv] by (simp only: set_is) simp
  have "cache_map c name = Some st \<longleftrightarrow> (name, st) \<in> set ?xs"
    unfolding cache_map_def by (rule map_of_eq_Some_iff [OF dist])
  also have "set ?xs = (\<lambda>i. (name_at c i, sl_stmt (c_slots c ! i))) ` used c"
    by (simp only: xs set_map set_is)
  finally show ?thesis by auto
qed

lemma cache_map_None:
  assumes inv: "cache_inv pw c"
  shows "cache_map c name = None \<longleftrightarrow> (\<forall>i \<in> used c. name_at c i \<noteq> name)"
proof -
  have "cache_map c name = None \<longleftrightarrow> \<not> (\<exists>st. cache_map c name = Some st)" by auto
  then show ?thesis by (auto simp: cache_map_Some [OF inv])
qed

lemma cache_get_map:
  assumes inv: "cache_inv pw c"
  shows "stmt_cache_get c name = cache_map c name"
proof (cases "cache_map c name")
  case None
  then have "\<forall>i \<in> used c. name_at c i \<noteq> name" by (simp add: cache_map_None [OF inv])
  with None show ?thesis
    using cache_probe_absent [of c name]
    by (cases "cache_probe c name") (auto simp: stmt_cache_get_def)
next
  case (Some st)
  then obtain i where "i \<in> used c" "name_at c i = name" "st = sl_stmt (c_slots c ! i)"
    using cache_map_Some [OF inv] by blast
  with Some cache_probe_present [OF inv] show ?thesis
    by (auto simp: stmt_cache_get_def)
qed

lemma dom_cache_map:
  assumes "cache_inv pw c"
  shows "dom (cache_map c) = name_at c ` used c"
  using cache_map_Some [OF assms] by (auto simp: dom_def)

lemma card_dom_cache_map:
  assumes "cache_inv pw c"
  shows "card (dom (cache_map c)) = c_count c"
  using cache_invD(2,3) [OF assms] by (simp add: dom_cache_map [OF assms] card_image)

section \<open>Insertion and update\<close>

lemma map_eqI: "(\<And>k v. m k = Some v \<longleftrightarrow> m' k = Some v) \<Longrightarrow> m = m'"
  by (rule ext) (metis not_Some_eq)

lemma used_init: "used stmt_cache_init = {}"
  by (auto simp: used_def stmt_cache_init_def zero_slot_def)

lemma cache_inv_init: "cache_inv pw stmt_cache_init"
  unfolding cache_inv_def used_init by (simp add: stmt_cache_init_def)

lemma cache_map_init: "cache_map stmt_cache_init = Map.empty"
  by (simp add: cache_map_def stmt_cache_init_def zero_slot_def)

text \<open>Overwriting the statement of a slot in use, under the same name.\<close>

lemma overwrite_slot:
  assumes inv: "cache_inv pw c" and i: "i \<in> used c" and n: "st_name st = name_at c i"
    and st: "storable pw st"
  defines "c' \<equiv> c\<lparr>c_slots := (c_slots c)[i := (c_slots c ! i)\<lparr>sl_stmt := st\<rparr>]\<rparr>"
  shows "cache_inv pw c'" and "cache_map c' = (cache_map c)(st_name st \<mapsto> st)"
proof -
  have len: "length (c_slots c) = 64" and ib: "i < 64"
    using cache_invD(1) [OF inv] usedD [OF i] by auto
  have slot': "c_slots c' ! j = (if j = i then (c_slots c ! i)\<lparr>sl_stmt := st\<rparr> else c_slots c ! j)" for j
    using len ib by (simp add: c'_def nth_list_update)
  have len': "length (c_slots c') = 64" and count': "c_count c' = c_count c"
    using len by (simp_all add: c'_def)
  have used': "used c' = used c" using i by (auto simp: used_def slot')
  have name': "name_at c' j = name_at c j" for j using n by (simp add: slot')
  have path': "on_path c' j = on_path c j" for j by (simp add: on_path_def name' used')
  show inv': "cache_inv pw c'"
    unfolding cache_inv_def used' path' len' count' inj_on_def name'
    using inv st by (auto simp: cache_inv_def inj_on_def slot')
  show "cache_map c' = (cache_map c)(st_name st \<mapsto> st)"
  proof (rule map_eqI)
    fix k v
    have "(\<exists>j \<in> used c. name_at c j = k \<and> v = sl_stmt (c_slots c' ! j)) \<longleftrightarrow>
        (if k = name_at c i then v = st else \<exists>j \<in> used c. name_at c j = k \<and> v = sl_stmt (c_slots c ! j))"
      using i in_used_names_differ [OF inv i]
      by (cases "k = name_at c i") (auto simp: slot', metis)
    then show "cache_map c' k = Some v \<longleftrightarrow> ((cache_map c)(st_name st \<mapsto> st)) k = Some v"
      unfolding cache_map_Some [OF inv'] used' name' using n by (auto simp: cache_map_Some [OF inv])
  qed
qed

text \<open>Filling an unused slot at the end of the probe path of a new name.\<close>

lemma fill_slot:
  assumes inv: "cache_inv pw c" and st: "storable pw st"
    and q: "q < MAX_CACHED_STMTS" and i: "i = (home (st_name st) + q) mod MAX_CACHED_STMTS"
    and free: "i \<notin> used c"
    and path: "\<forall>r < q. (home (st_name st) + r) mod MAX_CACHED_STMTS \<in> used c"
    and new: "\<forall>j \<in> used c. name_at c j \<noteq> st_name st"
  defines "c' \<equiv> c\<lparr>c_slots := (c_slots c)[i := \<lparr>sl_stmt = st, sl_in_use = True\<rparr>], c_count := c_count c + 1\<rparr>"
  shows "cache_inv pw c'" and "cache_map c' = (cache_map c)(st_name st \<mapsto> st)"
proof -
  have len: "length (c_slots c) = 64" and ib: "i < 64"
    using cache_invD(1) [OF inv] i by auto
  have slot': "c_slots c' ! j = (if j = i then \<lparr>sl_stmt = st, sl_in_use = True\<rparr> else c_slots c ! j)" for j
    using len ib by (simp add: c'_def nth_list_update)
  have len': "length (c_slots c') = 64" and count': "c_count c' = c_count c + 1"
    using len by (simp_all add: c'_def)
  have used': "used c' = insert i (used c)" using ib by (auto simp: used_def slot')
  have name': "name_at c' j = (if j = i then st_name st else name_at c j)" for j by (simp add: slot')
  have "on_path c' i"
    unfolding on_path_def name' used' using q i path by auto
  moreover have "on_path c' j" if "j \<in> used c" for j
    using cache_invD(4) [OF inv that] that free unfolding on_path_def name' used' by auto
  moreover have "inj_on (name_at c') (insert i (used c))"
    using cache_invD(3) [OF inv] new free unfolding inj_on_def name' by auto
  ultimately show inv': "cache_inv pw c'"
    unfolding cache_inv_def used' len' count'
    using inv st free by (auto simp: cache_inv_def slot')
  show "cache_map c' = (cache_map c)(st_name st \<mapsto> st)"
  proof (rule map_eqI)
    fix k v
    show "cache_map c' k = Some v \<longleftrightarrow> ((cache_map c)(st_name st \<mapsto> st)) k = Some v"
      unfolding cache_map_Some [OF inv'] used'
      using new free by (auto simp: cache_map_Some [OF inv] slot')
  qed
qed

text \<open>The statement that a successful put stores.\<close>

definition stored_stmt :: "pq_parse \<Rightarrow> int \<Rightarrow> prepared_stmt" where
  "stored_stmt p slot = \<lparr>st_name = p_statement p, st_query = p_query p,
     st_n_param_types = p_n_param_types p, st_param_type_oids = p_param_type_oids p,
     st_identity_param_slot = slot\<rparr>"

definition parse_fits :: "'w pqwire \<Rightarrow> pq_parse \<Rightarrow> bool" where
  "parse_fits pw p \<longleftrightarrow> length (p_statement p) < max_stmt_name pw \<and> length (p_query p) < max_query_len pw"

definition accepts :: "'w pqwire \<Rightarrow> pq_parse \<Rightarrow> bool" where
  "accepts pw p \<longleftrightarrow> fst (w_prepared_from_parse pw p zero_stmt) = 0"

lemma stored_stmt_eq:
  assumes "prep_ok pw" "accepts pw p"
  shows "snd (w_prepared_from_parse pw p s)\<lparr>st_identity_param_slot := slot\<rparr> = stored_stmt p slot"
proof -
  have "fst (w_prepared_from_parse pw p s) = 0"
    using assms unfolding prep_ok_def accepts_def by metis
  then show ?thesis using assms(1) by (simp add: prep_ok_def Let_def stored_stmt_def)
qed

lemma parse_of_stored_stmt:
  "parse_fits pw p \<Longrightarrow> parse_of_stmt pw (stored_stmt p slot) = p"
  by (simp add: parse_of_stmt_def stored_stmt_def parse_fits_def strncpy_arr_fits)

lemma storable_stored_stmt:
  assumes "accepts pw p" "parse_fits pw p"
  shows "storable pw (stored_stmt p slot)" "st_name (stored_stmt p slot) = p_statement p"
  using assms parse_of_stored_stmt [OF assms(2), of slot]
  by (simp_all add: storable_def accepts_def) (simp_all add: parse_fits_def stored_stmt_def)

lemma accepts_iff:
  assumes "prep_ok pw"
  shows "fst (w_prepared_from_parse pw p s) = 0 \<longleftrightarrow> accepts pw p"
  using assms unfolding prep_ok_def accepts_def by metis

text \<open>A put that fails leaves the table as it was.\<close>

lemma put_failed_unchanged:
  assumes "prep_ok pw" "stmt_cache_put pw c p slot = (rc, c')" "rc \<noteq> 0"
  shows "c' = c"
proof -
  have same: "snd (w_prepared_from_parse pw p s) = s" if "fst (w_prepared_from_parse pw p s) \<noteq> 0" for s
    using assms(1) that by (simp add: prep_ok_def)
  have upd: "c\<lparr>c_slots := (c_slots c)[i := (c_slots c ! i)\<lparr>sl_stmt := snd (w_prepared_from_parse pw p (sl_stmt (c_slots c ! i)))\<rparr>]\<rparr> = c"
    if "fst (w_prepared_from_parse pw p (sl_stmt (c_slots c ! i))) \<noteq> 0" for i
    by (simp add: same [OF that])
  show ?thesis
    using assms(2,3) upd unfolding stmt_cache_put_def
    by (auto simp: Let_def case_prod_beta split: probe_result.splits if_splits)
qed

text \<open>
  The outcome of a put: it succeeds exactly when the library accepts the statement and
  either the name is present or the table is not full, and then stores it under its name.
\<close>

lemma put_present:
  assumes inv: "cache_inv pw c" and pk: "prep_ok pw" and fit: "parse_fits pw p"
    and acc: "accepts pw p" and here: "p_statement p \<in> dom (cache_map c)"
  shows "\<exists>c'. stmt_cache_put pw c p slot = (OK, c') \<and> cache_inv pw c' \<and>
           cache_map c' = (cache_map c)(p_statement p \<mapsto> stored_stmt p slot)"
proof -
  from here obtain i where i: "i \<in> used c" "name_at c i = p_statement p"
    by (auto simp: dom_cache_map [OF inv])
  have probe: "cache_probe c (p_statement p) = Found i"
    using cache_probe_present [OF inv i(1)] i(2) by simp
  let ?c' = "c\<lparr>c_slots := (c_slots c)[i := (c_slots c ! i)\<lparr>sl_stmt := stored_stmt p slot\<rparr>]\<rparr>"
  have "stmt_cache_put pw c p slot = (OK, ?c')"
    using stored_stmt_eq [OF pk acc] accepts_iff [OF pk] acc
    by (simp add: stmt_cache_put_def probe Let_def case_prod_beta)
  moreover have "cache_inv pw ?c'" "cache_map ?c' = (cache_map c)(p_statement p \<mapsto> stored_stmt p slot)"
    using overwrite_slot [OF inv i(1), of "stored_stmt p slot"] storable_stored_stmt [OF acc fit] i(2)
    by simp_all
  ultimately show ?thesis by blast
qed

lemma put_new:
  assumes inv: "cache_inv pw c" and pk: "prep_ok pw" and fit: "parse_fits pw p"
    and acc: "accepts pw p" and new: "p_statement p \<notin> dom (cache_map c)"
    and room: "c_count c < MAX_CACHED_STMTS"
  shows "\<exists>c'. stmt_cache_put pw c p slot = (OK, c') \<and> cache_inv pw c' \<and>
           cache_map c' = (cache_map c)(p_statement p \<mapsto> stored_stmt p slot)"
proof -
  let ?n = "p_statement p" and ?h = "home (p_statement p)"
  have new': "\<forall>j \<in> used c. name_at c j \<noteq> ?n" using new by (simp add: domIff cache_map_None [OF inv])
  have "cache_probe c ?n \<noteq> Exhausted"
  proof
    assume "cache_probe c ?n = Exhausted"
    then have all: "(?h + r) mod MAX_CACHED_STMTS \<in> used c" if "r < 64" for r
      using that probe_Exhausted [of "c_slots c" ?n ?h 0 64 r] by (simp add: cache_probe_def probed_def used_def)
    have "inj_on (\<lambda>r. (?h + r) mod MAX_CACHED_STMTS) {..<64}"
      by (auto simp: inj_on_def dest: ring_index_inj [rotated 2])
    then have "64 = card ((\<lambda>r. (?h + r) mod MAX_CACHED_STMTS) ` {..<64})" by (simp add: card_image)
    also have "\<dots> \<le> card (used c)" using all by (intro card_mono) auto
    finally show False using room cache_invD(2) [OF inv] by simp
  qed
  with cache_probe_absent [OF new'] obtain i where probe: "cache_probe c ?n = Free i"
    by (cases "cache_probe c ?n") auto
  from probe_Free [OF probe [unfolded cache_probe_def]] obtain q where q: "q < MAX_CACHED_STMTS"
    "i = (?h + q) mod MAX_CACHED_STMTS" "\<not> sl_in_use (c_slots c ! i)"
    "\<forall>r < q. probed (c_slots c) ?n ((?h + r) mod MAX_CACHED_STMTS)" by auto
  let ?s = "stored_stmt p slot"
  let ?c' = "c\<lparr>c_slots := (c_slots c)[i := \<lparr>sl_stmt = ?s, sl_in_use = True\<rparr>], c_count := c_count c + 1\<rparr>"
  have "stmt_cache_put pw c p slot = (OK, ?c')"
    using stored_stmt_eq [OF pk acc] accepts_iff [OF pk] acc room
    by (simp add: stmt_cache_put_def probe Let_def case_prod_beta)
  moreover have "cache_inv pw ?c'" "cache_map ?c' = (cache_map c)(?n \<mapsto> ?s)"
    using fill_slot [OF inv, of ?s q i] storable_stored_stmt [OF acc fit] q new'
    by (simp_all add: used_def probed_def)
  ultimately show ?thesis by blast
qed

lemma put_rejected:
  assumes inv: "cache_inv pw c" and pk: "prep_ok pw"
    and "\<not> accepts pw p \<or> p_statement p \<notin> dom (cache_map c) \<and> c_count c = MAX_CACHED_STMTS"
  shows "stmt_cache_put pw c p slot = (ERR, c)"
proof -
  have "cache_probe c (p_statement p) \<noteq> Found i" if "p_statement p \<notin> dom (cache_map c)" for i
    using that by (intro cache_probe_absent) (simp add: domIff cache_map_None [OF inv])
  then have "fst (stmt_cache_put pw c p slot) = ERR"
    using assms(3) accepts_iff [OF pk]
    by (auto simp: stmt_cache_put_def Let_def case_prod_beta split: probe_result.splits)
  then show ?thesis
    using put_failed_unchanged [OF pk, of c p slot "ERR" "snd (stmt_cache_put pw c p slot)"]
    by (metis prod.collapse zero_neq_neg_one)
qed

section \<open>Removal\<close>

text \<open>
  The rebuild puts every statement of the old array into an empty table. Over an array whose
  used slots hold distinct names and storable statements, and as long as they fit into 64
  slots, it succeeds and adds exactly their bindings.
\<close>

definition slots_map :: "stmt_slot list \<Rightarrow> string \<rightharpoonup> prepared_stmt" where
  "slots_map sl = map_of (map slot_assoc (filter sl_in_use sl))"

lemma storable_reput:
  assumes "storable pw st"
  shows "parse_fits pw (parse_of_stmt pw st)" "accepts pw (parse_of_stmt pw st)"
    "stored_stmt (parse_of_stmt pw st) (st_identity_param_slot st) = st"
    "p_statement (parse_of_stmt pw st) = st_name st"
proof -
  show "accepts pw (parse_of_stmt pw st)" using assms by (simp add: storable_def accepts_def)
qed (use assms in \<open>simp_all add: storable_def parse_fits_def stored_stmt_def
      parse_of_stmt_def strncpy_arr_fits\<close>)

lemma rehash_ok:
  assumes pk: "prep_ok pw"
  shows "cache_inv pw c \<Longrightarrow> \<forall>s \<in> set old. sl_in_use s \<longrightarrow> storable pw (sl_stmt s) \<Longrightarrow>
    distinct (map (\<lambda>s. st_name (sl_stmt s)) (filter sl_in_use old)) \<Longrightarrow>
    \<forall>s \<in> set old. sl_in_use s \<longrightarrow> st_name (sl_stmt s) \<notin> dom (cache_map c) \<Longrightarrow>
    c_count c + length (filter sl_in_use old) \<le> MAX_CACHED_STMTS \<Longrightarrow>
    \<exists>c'. rehash pw old c = (OK, c') \<and> cache_inv pw c' \<and> cache_map c' = cache_map c ++ slots_map old"
proof (induction old arbitrary: c)
  case Nil
  then show ?case by (simp add: slots_map_def)
next
  case (Cons s old)
  show ?case
  proof (cases "sl_in_use s")
    case False
    with Cons show ?thesis by (simp add: slots_map_def)
  next
    case True
    let ?st = "sl_stmt s"
    have st: "storable pw ?st" using Cons.prems(2) True by simp
    note sp = storable_reput [OF st]
    have "p_statement (parse_of_stmt pw ?st) \<notin> dom (cache_map c)" "c_count c < MAX_CACHED_STMTS"
      using Cons.prems(4,5) True by (simp_all add: sp)
    from put_new [OF Cons.prems(1) pk sp(1,2) this, of "st_identity_param_slot ?st"] obtain c1 where
      c1: "stmt_cache_put pw c (parse_of_stmt pw ?st) (st_identity_param_slot ?st) = (OK, c1)"
        "cache_inv pw c1" "cache_map c1 = (cache_map c)(st_name ?st \<mapsto> ?st)"
      by (auto simp: sp)
    have fin: "finite (dom (cache_map c))" by (simp add: dom_cache_map [OF Cons.prems(1)])
    have "c_count c1 = Suc (c_count c)"
      using Cons.prems(4) True fin
      by (simp flip: card_dom_cache_map [OF c1(2)] card_dom_cache_map [OF Cons.prems(1)] add: c1(3))
    moreover have other: "st_name (sl_stmt t) \<noteq> st_name ?st" if "t \<in> set old" "sl_in_use t" for t
      using Cons.prems(3) True that by (force simp: image_iff)
    ultimately have "\<exists>c'. rehash pw old c1 = (OK, c') \<and> cache_inv pw c' \<and>
        cache_map c' = cache_map c1 ++ slots_map old"
      using Cons.prems True by (intro Cons.IH [OF c1(2)]) (auto simp: c1(3))
    moreover have "slots_map old (st_name ?st) = None"
      using other by (fastforce simp: slots_map_def map_of_eq_None_iff slot_assoc_def)
    then have "cache_map c1 ++ slots_map old = cache_map c ++ slots_map (s # old)"
      using True by (auto simp: c1(3) slots_map_def slot_assoc_def map_add_def fun_eq_iff split: option.splits)
    ultimately show ?thesis using True by (simp add: c1(1))
  qed
qed

text \<open>The old array with the removed slot zeroed.\<close>

lemma filter_used_zeroed:
  assumes "i < length sl"
  shows "filter sl_in_use (sl[i := zero_slot]) = filter sl_in_use (take i sl) @ filter sl_in_use (drop (Suc i) sl)"
  using assms by (simp add: upd_conv_take_nth_drop zero_slot_def)

lemma filter_used_split:
  assumes "i < length sl" "sl_in_use (sl ! i)"
  shows "filter sl_in_use sl = filter sl_in_use (take i sl) @ sl ! i # filter sl_in_use (drop (Suc i) sl)"
proof -
  have "sl = take i sl @ sl ! i # drop (Suc i) sl" using assms(1) by (simp add: Cons_nth_drop_Suc)
  then show ?thesis using assms(2) by (metis filter.simps(2) filter_append)
qed

lemma distinct_used_names:
  assumes inv: "cache_inv pw c"
  shows "distinct (map (\<lambda>s. st_name (sl_stmt s)) (filter sl_in_use (c_slots c)))"
proof -
  let ?is = "filter (\<lambda>i. sl_in_use (c_slots c ! i)) [0..<length (c_slots c)]"
  have set_is: "set ?is = used c" using cache_invD(1) [OF inv] by (auto simp: used_def)
  show ?thesis
    unfolding filter_used map_map comp_def distinct_map
    using cache_invD(3) [OF inv] by (simp only: set_is) simp
qed

lemma length_filter_used:
  assumes inv: "cache_inv pw c"
  shows "length (filter sl_in_use (c_slots c)) = c_count c"
proof -
  let ?is = "filter (\<lambda>i. sl_in_use (c_slots c ! i)) [0..<length (c_slots c)]"
  have set_is: "set ?is = used c" using cache_invD(1) [OF inv] by (auto simp: used_def)
  have "length ?is = card (set ?is)" by (intro distinct_card [symmetric]) simp
  then show ?thesis
    unfolding filter_used length_map using cache_invD(2) [OF inv] by (simp only: set_is)
qed

lemma remove_present:
  assumes inv: "cache_inv pw c" and pk: "prep_ok pw" and here: "name \<in> dom (cache_map c)"
  shows "\<exists>c'. stmt_cache_remove pw c name = (OK, c') \<and> cache_inv pw c' \<and>
           cache_map c' = (cache_map c)(name := None)"
proof -
  from here obtain i where i: "i \<in> used c" "name_at c i = name"
    by (auto simp: dom_cache_map [OF inv])
  let ?sl = "c_slots c" and ?old = "(c_slots c)[i := zero_slot]"
  have ib: "i < length ?sl" "sl_in_use (?sl ! i)"
    using usedD [OF i(1)] cache_invD(1) [OF inv] by auto
  have probe: "cache_probe c name = Found i" using cache_probe_present [OF inv i(1)] i(2) by simp
  note split = filter_used_split [OF ib] and zeroed = filter_used_zeroed [OF ib(1)]
  have names: "distinct (map (\<lambda>s. st_name (sl_stmt s)) (filter sl_in_use ?old))"
    and gone: "name \<notin> st_name ` sl_stmt ` set (filter sl_in_use ?old)"
    using distinct_used_names [OF inv] i(2) unfolding split zeroed by (auto simp: image_iff)
  have old_set: "set (filter sl_in_use ?old) \<subseteq> set (filter sl_in_use ?sl)"
    unfolding split zeroed by auto
  have stor: "storable pw (sl_stmt s)" if "s \<in> set (filter sl_in_use ?sl)" for s
    using that cache_invD(1,5) [OF inv] by (auto simp: in_set_conv_nth used_def)
  have len: "length (filter sl_in_use ?old) < MAX_CACHED_STMTS"
  proof -
    have "length (filter sl_in_use ?sl) \<le> MAX_CACHED_STMTS"
      using length_filter_le [of sl_in_use ?sl] cache_invD(1) [OF inv] by simp
    then show ?thesis unfolding split zeroed by simp
  qed
  from rehash_ok [OF pk cache_inv_init [of pw], of ?old] obtain c' where
    c': "rehash pw ?old stmt_cache_init = (OK, c')" "cache_inv pw c'" "cache_map c' = slots_map ?old"
    using names old_set stor len
    by (auto simp: cache_map_init stmt_cache_init_def [THEN arg_cong [where f = c_count], simplified] dest: subsetD)
  have "slots_map ?old = (cache_map c)(name := None)"
  proof
    fix k
    have "slots_map ?old name = None"
      using gone by (auto simp: slots_map_def map_of_eq_None_iff slot_assoc_def image_iff)
    moreover have "slots_map ?old k = cache_map c k" if "k \<noteq> name"
      unfolding slots_map_def cache_map_def zeroed split
      using that i(2) by (simp add: map_of_append slot_assoc_def map_add_def split: option.splits)
    ultimately show "slots_map ?old k = ((cache_map c)(name := None)) k" by auto
  qed
  with c' show ?thesis by (simp add: stmt_cache_remove_def probe)
qed

lemma remove_absent:
  assumes inv: "cache_inv pw c" and "name \<notin> dom (cache_map c)"
  shows "stmt_cache_remove pw c name = (ERR, c)"
proof -
  have "cache_probe c name \<noteq> Found i" for i
    using assms(2) by (intro cache_probe_absent) (simp add: domIff cache_map_None [OF inv])
  then show ?thesis by (cases "cache_probe c name") (auto simp: stmt_cache_remove_def)
qed

section \<open>The cache as a bounded map\<close>

text \<open>Put with the identity slot as part of the entry, the shape the contract has.\<close>

definition cache_put_entry :: "'w pqwire \<Rightarrow> stmt_cache \<Rightarrow> pq_parse \<times> int \<Rightarrow> int \<times> stmt_cache" where
  "cache_put_entry pw c e = stmt_cache_put pw c (fst e) (snd e)"

lemma cache_put_entry_spec:
  assumes "prep_ok pw" "cache_inv pw c" "parse_fits pw (fst e)"
  shows "fst (cache_put_entry pw c e) = fst (map_put MAX_CACHED_STMTS (accepts pw \<circ> fst) (p_statement \<circ> fst)
      (\<lambda>e. stored_stmt (fst e) (snd e)) (cache_map c) e) \<and>
    cache_inv pw (snd (cache_put_entry pw c e)) \<and>
    cache_map (snd (cache_put_entry pw c e)) = snd (map_put MAX_CACHED_STMTS (accepts pw \<circ> fst) (p_statement \<circ> fst)
      (\<lambda>e. stored_stmt (fst e) (snd e)) (cache_map c) e)"
proof -
  have count: "c_count c = card (dom (cache_map c))" by (rule card_dom_cache_map [OF assms(2), symmetric])
  consider "accepts pw (fst e)" "p_statement (fst e) \<in> dom (cache_map c)"
    | "accepts pw (fst e)" "p_statement (fst e) \<notin> dom (cache_map c)" "c_count c < MAX_CACHED_STMTS"
    | "\<not> accepts pw (fst e) \<or> p_statement (fst e) \<notin> dom (cache_map c) \<and> c_count c = MAX_CACHED_STMTS"
    using used_bound [of c] cache_invD(2) [OF assms(2)] by linarith
  then show ?thesis
  proof cases
    case 1
    from put_present [OF assms(2,1,3) 1, of "snd e"] 1 show ?thesis
      by (auto simp: cache_put_entry_def map_put_def)
  next
    case 2
    from put_new [OF assms(2,1,3) 2, of "snd e"] 2 count show ?thesis
      by (auto simp: cache_put_entry_def map_put_def)
  next
    case 3
    from put_rejected [OF assms(2,1) 3, of "snd e"] 3 count assms(2) show ?thesis
      by (auto simp: cache_put_entry_def map_put_def)
  qed
qed

lemma cache_remove_spec:
  assumes "prep_ok pw" "cache_inv pw c"
  shows "fst (stmt_cache_remove pw c k) = fst (map_remove (cache_map c) k) \<and>
    cache_inv pw (snd (stmt_cache_remove pw c k)) \<and>
    cache_map (snd (stmt_cache_remove pw c k)) = snd (map_remove (cache_map c) k)"
proof (cases "k \<in> dom (cache_map c)")
  case True
  from remove_present [OF assms(2,1) True] True show ?thesis by (auto simp: map_remove_def)
next
  case False
  with remove_absent [OF assms(2) False] assms(2) show ?thesis by (simp add: map_remove_def)
qed

interpretation stc: bounded_map "prep_ok pw" "cache_inv pw" cache_map MAX_CACHED_STMTS stmt_cache_init
  "cache_put_entry pw" stmt_cache_get "stmt_cache_remove pw" "parse_fits pw \<circ> fst" "accepts pw \<circ> fst"
  "p_statement \<circ> fst" "\<lambda>e. stored_stmt (fst e) (snd e)" for pw :: "'w pqwire"
proof unfold_locales
  fix c k assume inv: "cache_inv pw c"
  show "stmt_cache_get c k = cache_map c k" by (rule cache_get_map [OF inv])
  show "finite (dom (cache_map c))" by (simp add: dom_cache_map [OF inv])
  show "card (dom (cache_map c)) \<le> MAX_CACHED_STMTS"
    using card_dom_cache_map [OF inv] cache_invD(2) [OF inv] used_bound [of c] by simp
qed (simp_all add: cache_inv_init cache_map_init cache_put_entry_spec cache_remove_spec)

section \<open>Properties\<close>

text \<open>C18. The statement cache refines a finite map of at most 64 names: over any sequence of
  puts and removes that starts from the initialised cache, every return code is the one the
  bounded map gives, and afterwards every lookup returns exactly the statement the map holds
  under the name (with the query, the parameter types and the identity slot of the last put).\<close>

theorem stmt_cache_refines_bounded_map:
  assumes "prep_ok pw" and "\<forall>e. SPut e \<in> set ops \<longrightarrow> parse_fits pw (fst e)"
  defines "run \<equiv> store_run (cache_put_entry pw) (stmt_cache_remove pw) ops stmt_cache_init"
    and "spec \<equiv> store_run (map_put 64 (accepts pw \<circ> fst) (p_statement \<circ> fst) (\<lambda>e. stored_stmt (fst e) (snd e)))
      map_remove ops Map.empty"
  shows "fst run = fst spec \<and> (\<forall>name. stmt_cache_get (snd run) name = snd spec name)"
proof -
  have "\<forall>e. SPut e \<in> set ops \<longrightarrow> (parse_fits pw \<circ> fst) e" using assms(2) by simp
  from stc.run_refines [OF assms(1) cache_inv_init this] show ?thesis
    using cache_get_map [of pw "snd run"] unfolding run_def spec_def cache_map_init by simp
qed

theorem stmt_cache_refines_bounded_map_witness:
  "let ops = [SPut (demo_parse ''a'' ''SELECT 1'', 0), SPut (demo_parse ''b'' ''SELECT 2'', 1),
              SRemove ''a'', SRemove ''a'', SPut (demo_parse ''b'' ''SELECT 3'', 2)];
       run = store_run (cache_put_entry ref_pw) (stmt_cache_remove ref_pw) ops stmt_cache_init
   in fst run = [0, 0, 0, -1, 0] \<and> stmt_cache_get (snd run) ''a'' = None \<and>
      map_option st_query (stmt_cache_get (snd run) ''b'') = Some ''SELECT 3''"
proof -
  let ?ops = "[SPut (demo_parse ''a'' ''SELECT 1'', 0), SPut (demo_parse ''b'' ''SELECT 2'', 1),
              SRemove ''a'', SRemove ''a'', SPut (demo_parse ''b'' ''SELECT 3'', 2)]"
  have fits: "\<forall>e. SPut e \<in> set ?ops \<longrightarrow> parse_fits ref_pw (fst e)"
    by (auto simp: parse_fits_def demo_parse_def ref_pw_def)
  have acc: "accepts ref_pw p" for p by (simp add: accepts_def ref_pw_def ref_prepare_def)
  from stmt_cache_refines_bounded_map [OF ref_prep_ok fits] show ?thesis
    by (simp add: map_put_def map_remove_def acc demo_parse_def stored_stmt_def)
qed

text \<open>What a lookup returns after one operation on a well-formed cache. A put that succeeds
  binds its name to the new statement and leaves every other lookup as it was; a remove that
  succeeds unbinds its name and leaves every other lookup as it was (no name is lost by the
  rebuild of the table); an operation that fails leaves the whole cache as it was; and the
  cache stays well-formed in every case.\<close>

theorem stmt_cache_put_remove_get:
  assumes "prep_ok pw" and "cache_inv pw c" and "parse_fits pw p"
  shows "(let (rc, c') = stmt_cache_put pw c p slot in
      cache_inv pw c' \<and> (if rc = 0
        then stmt_cache_get c' n = (if n = p_statement p then Some (stored_stmt p slot) else stmt_cache_get c n)
        else c' = c)) \<and>
    (let (rc, c') = stmt_cache_remove pw c m in
      cache_inv pw c' \<and> (if rc = 0
        then stmt_cache_get c' n = (if n = m then None else stmt_cache_get c n)
        else c' = c \<and> stmt_cache_get c m = None))"
proof -
  obtain rc c' where put: "stmt_cache_put pw c p slot = (rc, c')" by fastforce
  then have entry: "cache_put_entry pw c (p, slot) = (rc, c')" by (simp add: cache_put_entry_def)
  have "cache_inv pw c'" using cache_put_entry_spec [OF assms(1,2), of "(p, slot)"] assms(3) entry by simp
  then have A: "cache_inv pw c' \<and> (if rc = 0
        then stmt_cache_get c' n = (if n = p_statement p then Some (stored_stmt p slot) else stmt_cache_get c n)
        else c' = c)"
    using stc.put_get [OF assms(1,2), of "(p, slot)" c' n] put_failed_unchanged [OF assms(1) put] assms(3) entry
    by auto
  obtain rc2 c2 where rem: "stmt_cache_remove pw c m = (rc2, c2)" by fastforce
  then have "cache_inv pw c2" using cache_remove_spec [OF assms(1,2), of m] by simp
  then have B: "cache_inv pw c2 \<and> (if rc2 = 0
        then stmt_cache_get c2 n = (if n = m then None else stmt_cache_get c n)
        else c2 = c \<and> stmt_cache_get c m = None)"
    using stc.remove_get [OF assms(1,2), of m c2 n] remove_absent [OF assms(2), of m]
      cache_remove_spec [OF assms(1,2), of m] rem cache_get_map [OF assms(2), of m]
    by (cases "m \<in> dom (cache_map c)") (auto simp: map_remove_def)
  from A B put rem show ?thesis by simp
qed

theorem stmt_cache_put_remove_get_witness:
  "stmt_cache_get (snd (stmt_cache_put ref_pw stmt_cache_init (demo_parse ''a'' ''SELECT 1'') 3)) ''a''
     = Some (stored_stmt (demo_parse ''a'' ''SELECT 1'') 3)"
proof -
  let ?p = "demo_parse ''a'' ''SELECT 1''"
  have fits: "parse_fits ref_pw ?p" by (simp add: parse_fits_def demo_parse_def ref_pw_def)
  have acc: "accepts ref_pw ?p" by (simp add: accepts_def ref_pw_def ref_prepare_def)
  have "c_count stmt_cache_init < 64" by (simp add: stmt_cache_init_def)
  then obtain c' where put: "stmt_cache_put ref_pw stmt_cache_init ?p 3 = (0, c')"
    using put_new [OF cache_inv_init ref_prep_ok fits acc, of 3] by (auto simp: cache_map_init)
  from stmt_cache_put_remove_get [OF ref_prep_ok cache_inv_init fits, of 3 "''a''"] put
  show ?thesis by (simp add: demo_parse_def Let_def)
qed

end
