(* ===== verification/Slot_Resolve.thy ===== *)
theory Slot_Resolve
  imports C_Strings
begin

text \<open>
  Resolution of the Bind parameter that carries the identity (src/rewrite_engine.c,
  \<open>pqproxy_resolve_identity_slot\<close>): an index, a \<open>$N\<close>, or the position of a column name in the column list of an
  INSERT. The scan for the column list is a recursion over the query, the walk over the list
  a recursion over the segment between the last opening parenthesis and VALUES; offsets into
  the query stand for the C pointers.
\<close>

section \<open>Scanning helpers\<close>

definition is_ident_char :: "char \<Rightarrow> bool" where
  "is_ident_char c \<longleftrightarrow> is_lower c \<or> is_upper c \<or> is_digit c \<or> c = CHR ''_'' \<or> c = CHR 0x22"

definition name_eq_ci :: "string \<Rightarrow> string \<Rightarrow> bool" where
  "name_eq_ci a b \<longleftrightarrow> length a = length b \<and> (\<forall>(x, y) \<in> set (zip a b). to_lower x = to_lower y)"

text \<open>The keyword VALUES in any case, not followed by an identifier character.\<close>

fun at_values :: "string \<Rightarrow> bool" where
  "at_values (a # b # c # d # e # f # p) \<longleftrightarrow>
     to_lower a = CHR ''v'' \<and> to_lower b = CHR ''a'' \<and> to_lower c = CHR ''l'' \<and>
     to_lower d = CHR ''u'' \<and> to_lower e = CHR ''e'' \<and> to_lower f = CHR ''s'' \<and>
     \<not> (p \<noteq> [] \<and> is_ident_char (hd p))"
| "at_values _ \<longleftrightarrow> False"

text \<open>The first loop: the offset after the last '(' before VALUES, and the offset of VALUES
  or of the end of the query.\<close>

fun find_cols :: "string \<Rightarrow> nat \<Rightarrow> nat option \<Rightarrow> nat option \<times> nat" where
  "find_cols [] i cols = (cols, i)"
| "find_cols (x # xs) i cols =
     (if at_values (x # xs) then (cols, i)
      else find_cols xs (Suc i) (if x = CHR ''('' then Some (Suc i) else cols))"

definition is_ws :: "char \<Rightarrow> bool" where
  "is_ws c \<longleftrightarrow> c = CHR '' '' \<or> code_of c = 9 \<or> code_of c = 10 \<or> code_of c = 13"

abbreviation (input) NAMEBUF :: nat where "NAMEBUF \<equiv> 64"

text \<open>A name is read into a buffer of 64 bytes; what follows it is left for the skip loop.\<close>

definition read_name :: "string \<Rightarrow> string \<times> string" where
  "read_name q =
     (if q \<noteq> [] \<and> hd q = CHR 0x22 then
        (let body = tl q;
             nb = take (NAMEBUF - 1) (takeWhile (\<lambda>c. c \<noteq> CHR 0x22) body);
             rest = drop (length nb) body
         in (nb, if rest \<noteq> [] \<and> hd rest = CHR 0x22 then tl rest else rest))
      else
        (let nb = take (NAMEBUF - 1) (takeWhile (\<lambda>c. is_ident_char c \<and> c \<noteq> CHR 0x22) q)
         in (nb, drop (length nb) q)))"

definition skip_to_sep :: "string \<Rightarrow> string" where
  "skip_to_sep q = dropWhile (\<lambda>c. c \<noteq> CHR '','' \<and> c \<noteq> CHR '')'') q"

lemma length_read_name: "length (snd (read_name q)) \<le> length q"
  by (auto simp: read_name_def Let_def)

lemma length_skip_to_sep: "length (skip_to_sep q) \<le> length q"
  by (simp add: skip_to_sep_def length_dropWhile_le)

text \<open>The second loop: the index of the first column whose name matches.\<close>

function col_index :: "string \<Rightarrow> string \<Rightarrow> nat \<Rightarrow> nat option" where
  "col_index param seg idx =
     (let q = dropWhile is_ws seg in
      if q = [] \<or> hd q = CHR '')'' then None
      else
        (let (nb, q') = read_name q in
         if nb \<noteq> [] \<and> name_eq_ci nb param then Some idx
         else
           (let r = skip_to_sep q' in
            if r \<noteq> [] \<and> hd r = CHR '','' then col_index param (tl r) (Suc idx) else None)))"
  by pat_completeness auto
termination
proof (relation "measure (\<lambda>(param, seg, idx). length seg)", goal_cases)
  case (2 param seg idx q z nb q' r)
  have "length r \<le> length q'" using 2 length_skip_to_sep by simp
  also have "\<dots> \<le> length q" using 2 length_read_name [of q] by (metis snd_conv)
  also have "\<dots> \<le> length seg" using 2 by (simp add: length_dropWhile_le)
  finally have "length r \<le> length seg" .
  moreover have "r \<noteq> []" using 2 by simp
  ultimately show ?case by (cases r) auto
qed simp

declare col_index.simps [simp del]

text \<open>The whole function: \<open>param_name\<close> is \<open>None\<close> for a null pointer. The \<open>int\<close>
  column index is cast to \<open>int16_t\<close>.\<close>

definition resolve_identity_slot :: "string \<Rightarrow> string option \<Rightarrow> int \<Rightarrow> int" where
  "resolve_identity_slot query param_name fallback =
     (case param_name of
        None \<Rightarrow> fallback
      | Some param \<Rightarrow>
          if param = [] then fallback
          else if hd param = CHR ''$'' then to_int16 (to_int16 (atoi (tl param)) - 1)
          else if \<forall>c \<in> set param. is_digit c then to_int16 (atoi param)
          else if query = [] then fallback
          else
            (case find_cols query 0 None of
               (None, _) \<Rightarrow> fallback
             | (Some cols, end) \<Rightarrow>
                 (case col_index param (take (end - cols) (drop cols query)) 0 of
                    Some idx \<Rightarrow> to_int16 (int idx)
                  | None \<Rightarrow> fallback)))"

section \<open>The column list of a well-formed INSERT\<close>

text \<open>A column list as the text of an INSERT has it: blanks and a bare identifier per column,
  separated by commas.\<close>

fun render_cols :: "(string \<times> string) list \<Rightarrow> string" where
  "render_cols [] = []"
| "render_cols [(sp, n)] = sp @ n"
| "render_cols ((sp, n) # cs) = sp @ n @ CHR '','' # render_cols cs"

definition bare_name :: "string \<Rightarrow> bool" where
  "bare_name n \<longleftrightarrow> n \<noteq> [] \<and> length n < NAMEBUF \<and> (\<forall>c \<in> set n. is_ident_char c \<and> c \<noteq> CHR 0x22)"

definition col_ok :: "string \<times> string \<Rightarrow> bool" where
  "col_ok c \<longleftrightarrow> (\<forall>x \<in> set (fst c). is_ws x) \<and> bare_name (snd c)"

text \<open>The specification: the first column that equals the parameter name up to ASCII case.\<close>

fun first_col :: "string \<Rightarrow> string list \<Rightarrow> nat \<Rightarrow> nat option" where
  "first_col param [] i = None"
| "first_col param (n # ns) i = (if name_eq_ci n param then Some i else first_col param ns (Suc i))"

lemma first_col_bound: "first_col param ns i = Some k \<Longrightarrow> k < i + length ns"
  by (induction ns arbitrary: i) (fastforce split: if_splits)+

lemma sep_not_ident: "\<not> is_ident_char (CHR '','')" "\<not> is_ident_char (CHR '')'')"
    "\<not> is_ident_char (CHR ''('')"
  by (simp_all add: is_ident_char_def is_lower_def is_upper_def is_digit_def code_of_def)

lemma ident_not_ws: "is_ident_char c \<Longrightarrow> \<not> is_ws c"
  by (auto simp: is_ident_char_def is_ws_def is_lower_def is_upper_def is_digit_def code_of_def)

lemma bare_name_hd:
  assumes "bare_name n"
  shows "n \<noteq> []" "\<not> is_ws (hd n)" "hd n \<noteq> CHR '')''" "hd n \<noteq> CHR 0x22"
proof -
  from assms obtain x xs where "n = x # xs" "is_ident_char x" "x \<noteq> CHR 0x22"
    by (cases n) (auto simp: bare_name_def)
  then show "n \<noteq> []" "\<not> is_ws (hd n)" "hd n \<noteq> CHR '')''" "hd n \<noteq> CHR 0x22"
    using ident_not_ws sep_not_ident by auto
qed

lemma read_bare_name:
  assumes "bare_name n" and "\<not> is_ident_char x"
  shows "read_name (n @ x # rest) = (n, x # rest)"
proof -
  let ?P = "\<lambda>c. is_ident_char c \<and> c \<noteq> CHR 0x22"
  have "takeWhile ?P (n @ x # rest) = n"
    using assms by (subst takeWhile_append2) (auto simp: bare_name_def)
  moreover have "take (NAMEBUF - 1) n = n" using assms(1) by (simp add: bare_name_def)
  moreover have "hd (n @ x # rest) \<noteq> CHR 0x22" using bare_name_hd [OF assms(1)] by simp
  ultimately show ?thesis by (simp add: read_name_def)
qed

text \<open>One step of the walk, at a column followed by a separator.\<close>

lemma col_index_step:
  assumes "col_ok (sp, n)" and x: "x = CHR '','' \<or> x = CHR '')''"
  shows "col_index param (sp @ n @ x # rest) idx =
    (if name_eq_ci n param then Some idx
     else if x = CHR '','' then col_index param rest (Suc idx) else None)"
proof -
  have n: "bare_name n" and sp: "\<forall>c \<in> set sp. is_ws c" using assms(1) by (auto simp: col_ok_def)
  note hn = bare_name_hd [OF n]
  have "dropWhile is_ws (sp @ n @ x # rest) = dropWhile is_ws (n @ x # rest)"
    using sp by (intro dropWhile_append2) auto
  also have "\<dots> = n @ x # rest" using hn by (cases n) auto
  finally have dw: "dropWhile is_ws (sp @ n @ x # rest) = n @ x # rest" .
  have rd: "read_name (n @ x # rest) = (n, x # rest)"
    using x sep_not_ident by (intro read_bare_name [OF n]) auto
  have "skip_to_sep (x # rest) = x # rest" using x by (auto simp: skip_to_sep_def)
  then show ?thesis
    using hn x by (subst col_index.simps) (simp add: dw rd Let_def)
qed

lemma col_index_render:
  "cols \<noteq> [] \<Longrightarrow> \<forall>c \<in> set cols. col_ok c \<Longrightarrow>
    col_index param (render_cols cols @ CHR '')'' # rest) idx = first_col param (map snd cols) idx"
proof (induction cols arbitrary: idx rule: render_cols.induct)
  case (2 sp n)
  then show ?case by (simp add: col_index_step)
next
  case (3 sp n c cs)
  then have "col_index param (render_cols (c # cs) @ CHR '')'' # rest) (Suc idx) =
      first_col param (map snd (c # cs)) (Suc idx)" by simp
  with 3 show ?case by (simp add: col_index_step)
qed simp

section \<open>Finding the column list\<close>

text \<open>No VALUES keyword starts within the text \<open>a\<close> when \<open>v\<close> follows it.\<close>

fun no_values_in :: "string \<Rightarrow> string \<Rightarrow> bool" where
  "no_values_in [] v \<longleftrightarrow> True"
| "no_values_in (x # a) v \<longleftrightarrow> \<not> at_values (x # a @ v) \<and> no_values_in a v"

lemma find_cols_stop:
  assumes "v = [] \<or> at_values v"
  shows "find_cols v i cols = (cols, i)"
  using assms by (cases v) auto

lemma find_cols_no_paren:
  "no_values_in a v \<Longrightarrow> CHR ''('' \<notin> set a \<Longrightarrow> v = [] \<or> at_values v \<Longrightarrow>
    find_cols (a @ v) i cols = (cols, i + length a)"
  by (induction a arbitrary: i) (auto simp: find_cols_stop)

lemma find_cols_paren:
  "no_values_in (a @ CHR ''('' # b) v \<Longrightarrow> CHR ''('' \<notin> set b \<Longrightarrow> v = [] \<or> at_values v \<Longrightarrow>
    find_cols (a @ CHR ''('' # b @ v) i cols = (Some (Suc (i + length a)), Suc (i + length a + length b))"
proof (induction a arbitrary: i cols)
  case Nil
  then have "\<not> at_values (CHR ''('' # b @ v)" "no_values_in b v" by simp_all
  with Nil.prems show ?case by (simp add: find_cols_no_paren)
qed simp

text \<open>The shape of a parameter name that is neither empty, nor a \<open>$N\<close>, nor a number.\<close>

definition column_param :: "string \<Rightarrow> bool" where
  "column_param p \<longleftrightarrow> p \<noteq> [] \<and> hd p \<noteq> CHR ''$'' \<and> \<not> (\<forall>c \<in> set p. is_digit c)"

section \<open>Properties\<close>

text \<open>C33. Identity slot by column name. For an INSERT whose column list is a comma-separated list
  of bare identifiers, with any text before the list and VALUES after it (and no earlier
  VALUES keyword), the resolved slot is the position of the first column that equals the
  parameter name up to ASCII case, and the fallback when there is none.\<close>

theorem resolve_identity_slot_column:
  assumes "column_param param" and "cols \<noteq> []" and "\<forall>c \<in> set cols. col_ok c"
    and "length cols \<le> 32768" and "CHR ''('' \<notin> set (render_cols cols @ CHR '')'' # gap)"
    and "at_values rest"
    and "no_values_in (pre @ CHR ''('' # render_cols cols @ CHR '')'' # gap) rest"
  shows "resolve_identity_slot (pre @ CHR ''('' # (render_cols cols @ CHR '')'' # gap) @ rest) (Some param) fb
    = (case first_col param (map snd cols) 0 of Some k \<Rightarrow> int k | None \<Rightarrow> fb)"
proof -
  let ?b = "render_cols cols @ CHR '')'' # gap" and ?q = "pre @ CHR ''('' # (render_cols cols @ CHR '')'' # gap) @ rest"
  have fc: "find_cols ?q 0 None = (Some (Suc (length pre)), Suc (length pre + length ?b))"
    using find_cols_paren [OF assms(7,5)] assms(6) by simp
  have seg: "take (Suc (length pre + length ?b) - Suc (length pre)) (drop (Suc (length pre)) ?q) = ?b"
    by simp

  have small: "to_int16 (int k) = int k" if "first_col param (map snd cols) 0 = Some k" for k
    using first_col_bound [OF that] assms(4) by simp
  show ?thesis
    using assms(1) col_index_render [OF assms(2,3), of param gap 0] small
    unfolding resolve_identity_slot_def column_param_def
    by (simp only: fc seg option.case prod.case if_False) (simp split: option.splits)
qed

theorem resolve_identity_slot_column_witness:
  "resolve_identity_slot ''INSERT INTO ev(payload, Router_ID) VALUES ($1, $2)'' (Some ''router_id'') 0 = 1"
proof -
  let ?cols = "[('''', ''payload''), ('' '', ''Router_ID'')]"
  have "resolve_identity_slot (''INSERT INTO ev'' @ CHR ''('' # (render_cols ?cols @ CHR '')'' # '' '') @ ''VALUES ($1, $2)'')
      (Some ''router_id'') 0 = (case first_col ''router_id'' (map snd ?cols) 0 of Some k \<Rightarrow> int k | None \<Rightarrow> 0)"
    by (rule resolve_identity_slot_column; code_simp)
  moreover have "first_col ''router_id'' (map snd ?cols) 0 = Some 1" by code_simp
  ultimately show ?thesis by simp
qed

text \<open>Identity slot by number. A parameter name that is a decimal number up to 32767 is the
  slot itself, and \<open>$N\<close> is the slot \<open>N - 1\<close>, whatever the query is.\<close>

theorem resolve_identity_slot_number:
  assumes "ds \<noteq> []" and "\<forall>c \<in> set ds. is_digit c" and "length ds \<le> 9" and "dec_value 0 ds \<le> 32767"
  shows "resolve_identity_slot q (Some ds) fb = dec_value 0 ds \<and>
    resolve_identity_slot q (Some (CHR ''$'' # ds)) fb = dec_value 0 ds - 1"
proof -
  have nonneg: "0 \<le> dec_value 0 ds" using assms(2) by (intro dec_value_nonneg) auto
  have "hd ds \<noteq> CHR ''$''"
    using assms(1,2) by (cases ds) (auto simp: is_digit_def code_of_def)
  then show ?thesis
    using assms nonneg by (simp add: resolve_identity_slot_def atoi_digits)
qed

theorem resolve_identity_slot_number_witness:
  "resolve_identity_slot ''SELECT 1'' (Some ''12'') 0 = 12 \<and>
   resolve_identity_slot ''SELECT 1'' (Some ''$12'') 0 = 11"
proof -
  have "\<forall>c \<in> set ''12''. is_digit c" by code_simp
  moreover have "dec_value 0 ''12'' = 12" by code_simp
  ultimately show ?thesis using resolve_identity_slot_number [of "''12''" "''SELECT 1''" 0] by simp
qed

text \<open>The keyword search does not look at the character before VALUES: for a table whose name
  ends in "values", the scan stops inside the table name, before the column list, and the
  column name never resolves; the fallback slot is used whatever the column list says.\<close>

theorem resolve_identity_slot_values_suffix:
  assumes "column_param param" and "CHR ''('' \<notin> set a" and "no_values_in a v" and "at_values v"
  shows "resolve_identity_slot (a @ v) (Some param) fb = fb"
proof -
  have "a @ v \<noteq> []" using assms(4) by auto
  then show ?thesis
    using assms(1) find_cols_no_paren [OF assms(3,2), of 0 None] assms(4)
    by (auto simp: resolve_identity_slot_def column_param_def)
qed

theorem resolve_identity_slot_values_suffix_witness:
  "resolve_identity_slot ''INSERT INTO my_values (payload, router_id) VALUES ($1, $2)'' (Some ''router_id'') 0 = 0"
proof -
  have "resolve_identity_slot (''INSERT INTO my_'' @ ''values (payload, router_id) VALUES ($1, $2)'') (Some ''router_id'') 0 = 0"
    by (rule resolve_identity_slot_values_suffix; code_simp)
  then show ?thesis by simp
qed

end
