(* ===== verification/Identity.thy ===== *)
theory Identity
  imports C_Strings
begin

text \<open>
  Extraction of the verified client identity (src/identity.c): the parser of subject strings
  and the reader of X.509 certificates. OpenSSL is a parameter: a record of the accessor
  functions that the code calls. Fixed arrays of 128 and 64 bytes bound the router id and the
  group; a byte block is read back as a C string, up to its first NUL.
\<close>

section \<open>The identity\<close>

abbreviation (input) ROUTER_ID_SZ :: nat where "ROUTER_ID_SZ \<equiv> 128"
abbreviation (input) GROUP_SZ :: nat where "GROUP_SZ \<equiv> 64"

record identity =
  router_id :: string
  group_name :: string
  identity_slot :: int

definition identity_clear :: identity where
  "identity_clear = \<lparr>router_id = [], group_name = [], identity_slot = - 1\<rparr>"

text \<open>\<open>copy_field\<close>: at most \<open>dstsz - 1\<close> of the \<open>n\<close> bytes, then a NUL.\<close>

definition copy_field :: "nat \<Rightarrow> string \<Rightarrow> nat \<Rightarrow> string" where
  "copy_field dstsz src n = cstr (take (if n \<ge> dstsz then dstsz - 1 else n) src)"

section \<open>Subject strings\<close>

text \<open>The value after the '=' of a matched attribute, up to the next slash.\<close>

definition attr_value :: "nat \<Rightarrow> string \<Rightarrow> nat \<Rightarrow> string option" where
  "attr_value dstsz subject at =
     (case strchr_pos CHR ''='' (drop at subject) of
        None \<Rightarrow> None
      | Some e \<Rightarrow>
          (let start = drop (Suc e) (drop at subject) in
           case strchr_pos CHR ''/'' start of
             Some n \<Rightarrow> Some (copy_field dstsz start n)
           | None \<Rightarrow> Some (strncpy_arr dstsz start)))"

definition cn_pos :: "string \<Rightarrow> nat option" where
  "cn_pos subject =
     (case strstr_pos ''/CN='' subject of
        Some i \<Rightarrow> Some i
      | None \<Rightarrow>
          (case strstr_pos ''CN='' subject of
             None \<Rightarrow> None
           | Some j \<Rightarrow> if j = 0 \<or> subject ! (j - 1) = CHR ''/'' then Some j else None))"

definition ou_pos :: "string \<Rightarrow> nat option" where
  "ou_pos subject =
     (case strstr_pos ''/OU='' subject of
        Some i \<Rightarrow> Some i
      | None \<Rightarrow> strstr_pos ''OU='' subject)"

text \<open>The form \<open>router_id:group\<close>: the offset of its colon.\<close>

definition colon_form :: "string \<Rightarrow> nat option" where
  "colon_form subject =
     (case strchr_pos CHR '':'' subject of
        None \<Rightarrow> None
      | Some k \<Rightarrow>
          if 0 < k \<and> Suc k < length subject \<and> hd subject \<noteq> CHR ''/'' \<and>
             (\<forall>c \<in> set (take k subject). c \<noteq> CHR ''/'' \<and> c \<noteq> CHR ''='')
          then Some k else None)"

definition identity_from_cert_subject :: "string \<Rightarrow> identity" where
  "identity_from_cert_subject subject =
     (let out = identity_clear\<lparr>identity_slot := 0\<rparr> in
      case colon_form subject of
        Some k \<Rightarrow> out\<lparr>router_id := copy_field ROUTER_ID_SZ subject k,
                     group_name := strncpy_arr GROUP_SZ (drop (Suc k) subject)\<rparr>
      | None \<Rightarrow>
          (let rid = (case Option.bind (cn_pos subject) (attr_value ROUTER_ID_SZ subject) of
                        None \<Rightarrow> [] | Some v \<Rightarrow> v);
               grp = (case Option.bind (ou_pos subject) (attr_value GROUP_SZ subject) of
                        None \<Rightarrow> [] | Some v \<Rightarrow> v)
           in out\<lparr>router_id := (if rid = [] then strncpy_arr ROUTER_ID_SZ subject else rid),
                  group_name := (if grp = [] then strncpy_arr GROUP_SZ ''default'' else grp)\<rparr>))"

section \<open>Certificates\<close>

text \<open>The OpenSSL accessors, over opaque certificates, names, entries and strings.\<close>

datatype nid = NID_commonName | NID_organizationalUnitName

record ('c, 'n, 'e, 's) x509_api =
  x_subject_name :: "'c \<Rightarrow> 'n option"
  x_index_by_nid :: "'n \<Rightarrow> nid \<Rightarrow> int \<Rightarrow> int"
  x_get_entry :: "'n \<Rightarrow> int \<Rightarrow> 'e option"
  x_entry_data :: "'e \<Rightarrow> 's option"
  x_string_data :: "'s \<Rightarrow> string option"
  x_string_length :: "'s \<Rightarrow> int"
  x_oneline :: "'n \<Rightarrow> string option"

definition dn_get_nid :: "('c, 'n, 'e, 's) x509_api \<Rightarrow> 'n \<Rightarrow> nid \<Rightarrow> nat \<Rightarrow> string option" where
  "dn_get_nid x name nid dstsz =
     (let idx = x_index_by_nid x name nid (- 1) in
      if idx < 0 then None
      else
        (case x_get_entry x name idx of
           None \<Rightarrow> None
         | Some ent \<Rightarrow>
             (case x_entry_data x ent of
                None \<Rightarrow> None
              | Some str \<Rightarrow>
                  (case x_string_data x str of
                     None \<Rightarrow> None
                   | Some data \<Rightarrow>
                       (let len = x_string_length x str in
                        if len \<le> 0 then None else Some (copy_field dstsz data (nat len)))))))"

text \<open>\<open>None\<close> is the failure code; \<open>cn\<close> and \<open>ou\<close> stay empty when the lookup fails.\<close>

definition identity_from_x509 :: "('c, 'n, 'e, 's) x509_api \<Rightarrow> 'c \<Rightarrow> identity option" where
  "identity_from_x509 x cert =
     (case x_subject_name x cert of
        None \<Rightarrow> None
      | Some subj \<Rightarrow>
          (let cn = (case dn_get_nid x subj NID_commonName 128 of None \<Rightarrow> [] | Some v \<Rightarrow> v);
               ou = (case dn_get_nid x subj NID_organizationalUnitName 64 of None \<Rightarrow> [] | Some v \<Rightarrow> v)
           in
           if cn = [] then
             (case x_oneline x subj of
                None \<Rightarrow> None
              | Some line \<Rightarrow> Some (identity_from_cert_subject line))
           else
             Some (identity_clear\<lparr>identity_slot := 0,
               router_id := strncpy_arr ROUTER_ID_SZ cn,
               group_name := strncpy_arr GROUP_SZ (if ou \<noteq> [] then ou else ''default'')\<rparr>)))"

section \<open>Bounds of the copies\<close>

lemma length_copy_field: "0 < sz \<Longrightarrow> length (copy_field sz src n) < sz"
proof -
  assume "0 < sz"
  moreover have "length (copy_field sz src n) \<le> length (take (if n \<ge> sz then sz - 1 else n) src)"
    unfolding copy_field_def cstr_def by (rule length_takeWhile_le)
  ultimately show ?thesis by (auto split: if_splits)
qed

lemma copy_field_whole [cstr_simps]:
  "CHR 0x00 \<notin> set a \<Longrightarrow> copy_field sz (a @ b) (length a) = take (sz - 1) a"
  unfolding copy_field_def by (subst cstr_id) (auto dest: in_set_takeD)

lemma copy_field_nul:
  assumes "CHR 0x00 \<notin> set a" "length a < n" "length a < sz - 1"
  shows "copy_field sz (a @ CHR 0x00 # b) n = a"
  using assms unfolding copy_field_def cstr_def
  by (auto simp: take_Cons' intro!: takeWhile_append2 [THEN trans])

lemma attr_value_length: "0 < sz \<Longrightarrow> attr_value sz s at = Some v \<Longrightarrow> length v < sz"
  by (auto simp: attr_value_def Let_def length_copy_field strncpy_arr_length split: option.splits)

lemma bind_attr_length:
  "0 < sz \<Longrightarrow> Option.bind p (attr_value sz s) = Some v \<Longrightarrow> length v < sz"
  by (cases p) (auto dest: attr_value_length)

text \<open>An attribute followed by a slash, or at the end of the subject.\<close>

lemma attr_value_slash:
  assumes "CHR ''='' \<notin> set k" "CHR ''/'' \<notin> set v" "CHR 0x00 \<notin> set v"
  shows "attr_value sz (pre @ k @ CHR ''='' # v @ CHR ''/'' # post) (length pre) = Some (take (sz - 1) v)"
  using assms by (simp add: attr_value_def strchr_pos_app copy_field_whole)

lemma attr_value_end:
  assumes "CHR ''='' \<notin> set k" "CHR ''/'' \<notin> set v"
  shows "attr_value sz (pre @ k @ CHR ''='' # v) (length pre) = Some (take (sz - 1) v)"
proof -
  have "strchr_pos CHR ''/'' v = None" using assms(2) by (simp add: strchr_pos_None)
  then show ?thesis using assms(1) by (simp add: attr_value_def strchr_pos_app strncpy_arr_def)
qed

text \<open>A pattern that starts with a character absent from the prefix occurs after it.\<close>

lemma strstr_pos_skip:
  assumes "p \<notin> set a"
  shows "strstr_pos (p # ps) (a @ b) = map_option ((+) (length a)) (strstr_pos (p # ps) b)"
  using assms by (induction a) (cases "strstr_pos (p # ps) b"; simp)+

section \<open>Every identity is well-formed\<close>

lemma default_group: "strncpy_arr 64 ''default'' = ''default''"
  by (simp add: strncpy_arr_def)

lemma subject_identity_wf:
  "group_name (identity_from_cert_subject s) \<noteq> [] \<and> length (group_name (identity_from_cert_subject s)) < 64 \<and>
   length (router_id (identity_from_cert_subject s)) < 128 \<and> identity_slot (identity_from_cert_subject s) = 0"
  unfolding identity_from_cert_subject_def Let_def
  by (auto simp: colon_form_def default_group strncpy_arr_length length_copy_field strncpy_arr_Nil_iff strchr_pos_Some
      dest: bind_attr_length [rotated] split: option.splits if_splits)

lemma x509_identity_wf:
  assumes "identity_from_x509 x cert = Some ident"
  shows "group_name ident \<noteq> [] \<and> length (group_name ident) < 64 \<and> length (router_id ident) < 128 \<and> identity_slot ident = 0"
  using assms subject_identity_wf
  by (auto simp: identity_from_x509_def identity_clear_def default_group strncpy_arr_length strncpy_arr_Nil_iff Let_def
      split: option.splits if_splits)

section \<open>Properties\<close>

text \<open>Every identity that the code extracts from a certificate has a group that is not empty
  and fits the 64-byte array, and a router id that fits the 128-byte array; its slot is 0. So the
  group that keys the backend pool is always a proper name.\<close>

theorem identity_from_x509_well_formed:
  assumes "identity_from_x509 x cert = Some ident"
  shows "group_name ident \<noteq> [] \<and> length (group_name ident) < 64 \<and> length (router_id ident) < 128 \<and> identity_slot ident = 0"
  by (rule x509_identity_wf [OF assms])

text \<open>The subject parser on its three documented forms: \<open>router_id:group\<close>; the
  one-line distinguished name \<open>/CN=router_id/OU=group/...\<close>; and a bare name, whose group is
  "default". The parts are read back exactly, cut to the sizes of the arrays.\<close>

theorem identity_from_cert_subject_forms:
  assumes "r \<noteq> []" and "CHR '':'' \<notin> set r" "CHR ''/'' \<notin> set r" "CHR ''='' \<notin> set r" "CHR 0x00 \<notin> set r"
    and "g \<noteq> []" and "CHR ''/'' \<notin> set g" "CHR 0x00 \<notin> set g"
  shows "identity_from_cert_subject (r @ '':'' @ g) =
      \<lparr>router_id = take 127 r, group_name = take 63 g, identity_slot = 0\<rparr>
    \<and> identity_from_cert_subject (''/CN='' @ r @ ''/OU='' @ g @ ''/'' @ post) =
      \<lparr>router_id = take 127 r, group_name = take 63 g, identity_slot = 0\<rparr>
    \<and> identity_from_cert_subject r = \<lparr>router_id = take 127 r, group_name = ''default'', identity_slot = 0\<rparr>"
proof (intro conjI)
  obtain x xs where r: "r = x # xs" using assms(1) by (cases r) auto
  have slot: "colon_form (r @ CHR '':'' # g) = Some (length r)"
    using assms r by (auto simp: colon_form_def strchr_pos_app)
  show "identity_from_cert_subject (r @ '':'' @ g) =
      \<lparr>router_id = take 127 r, group_name = take 63 g, identity_slot = 0\<rparr>"
    using assms(5) by (simp add: identity_from_cert_subject_def slot identity_clear_def copy_field_whole strncpy_arr_def)
  let ?s = "''/CN='' @ r @ ''/OU='' @ g @ ''/'' @ post"
  have nc: "colon_form ?s = None" by (auto simp: colon_form_def split: option.splits)
  have cn: "cn_pos ?s = Some 0" by (simp add: cn_pos_def)
  have ou: "ou_pos ?s = Some (4 + length r)"
    using strstr_pos_skip [OF assms(3), of "''OU=''" "''/OU='' @ g @ ''/'' @ post"]
    by (simp add: ou_pos_def)
  have vcn: "attr_value 128 ?s 0 = Some (take 127 r)"
    using attr_value_slash [of "''/CN''" r 128 "[]" "''OU='' @ g @ ''/'' @ post"] assms by simp
  have vou: "attr_value 64 ?s (4 + length r) = Some (take 63 g)"
    using attr_value_slash [of "''/OU''" g 64 "''/CN='' @ r" post] assms by (simp add: eval_nat_numeral)
  show "identity_from_cert_subject ?s =
      \<lparr>router_id = take 127 r, group_name = take 63 g, identity_slot = 0\<rparr>"
    unfolding identity_from_cert_subject_def nc cn ou
    unfolding Option.bind.bind_lunit vcn vou option.case Let_def using assms(1,6)
    by (simp add: identity_clear_def)
  have "strchr_pos CHR '':'' r = None" using assms(2) by (simp add: strchr_pos_None)
  then have nc': "colon_form r = None" by (simp add: colon_form_def)
  have noeq: "strstr_pos pat r = None" if "CHR ''='' \<in> set pat" for pat
    using that assms(4) set_mono_sublist [of pat r] by (auto simp: strstr_pos_None_sublist)
  have "cn_pos r = None" "ou_pos r = None" by (simp_all add: cn_pos_def ou_pos_def noeq)
  then show "identity_from_cert_subject r = \<lparr>router_id = take 127 r, group_name = ''default'', identity_slot = 0\<rparr>"
    unfolding identity_from_cert_subject_def nc' by (simp add: identity_clear_def strncpy_arr_def)
qed

theorem identity_from_cert_subject_forms_witness:
  "identity_from_cert_subject ''router-9:region_east'' =
      \<lparr>router_id = ''router-9'', group_name = ''region_east'', identity_slot = 0\<rparr> \<and>
   identity_from_cert_subject ''/CN=router-9/OU=region_east/O=x'' =
      \<lparr>router_id = ''router-9'', group_name = ''region_east'', identity_slot = 0\<rparr>"
proof -
  from identity_from_cert_subject_forms [of "''router-9''" "''region_east''" "''O=x''"]
  show ?thesis by simp
qed

text \<open>The first entry of a name under an attribute, as the accessors report it.\<close>

definition entry_bytes :: "('c, 'n, 'e, 's) x509_api \<Rightarrow> 'n \<Rightarrow> nid \<Rightarrow> string \<Rightarrow> bool" where
  "entry_bytes x subj nid data \<longleftrightarrow> 0 \<le> x_index_by_nid x subj nid (- 1) \<and>
     (\<exists>ent str. x_get_entry x subj (x_index_by_nid x subj nid (- 1)) = Some ent \<and>
        x_entry_data x ent = Some str \<and> x_string_data x str = Some data \<and>
        x_string_length x str = int (length data))"

lemma dn_get_nid_entry:
  assumes "entry_bytes x subj nid data" "data \<noteq> []"
  shows "dn_get_nid x subj nid sz = Some (copy_field sz data (length data))"
  using assms by (auto simp: entry_bytes_def dn_get_nid_def Let_def)

text \<open>A certificate with a common name and an organizational unit yields exactly these two as
  router id and group, cut to 127 and 63 bytes, when neither is empty nor holds a NUL byte.\<close>

theorem identity_from_x509_cn_ou:
  assumes "x_subject_name x cert = Some subj"
    and "entry_bytes x subj NID_commonName cn" "cn \<noteq> []" "CHR 0x00 \<notin> set cn"
    and "entry_bytes x subj NID_organizationalUnitName ou" "ou \<noteq> []" "CHR 0x00 \<notin> set ou"
  shows "identity_from_x509 x cert = Some \<lparr>router_id = take 127 cn, group_name = take 63 ou, identity_slot = 0\<rparr>"
  using assms(1,3,4,6,7) dn_get_nid_entry [OF assms(2,3)] dn_get_nid_entry [OF assms(5,6)]
    copy_field_whole [of cn _ "[]"] copy_field_whole [of ou _ "[]"]
  by (simp add: identity_from_x509_def identity_clear_def strncpy_arr_def)

text \<open>A NUL byte in the common name ends the router id: whatever the certificate authority
  signed after it does not take part in the identity, so certificates issued for different common
  names can carry the same router id.\<close>

theorem identity_from_x509_embedded_nul:
  assumes "x_subject_name x cert = Some subj"
    and "entry_bytes x subj NID_commonName (a @ CHR 0x00 # b)"
    and "a \<noteq> []" "CHR 0x00 \<notin> set a" "length a < 127"
  shows "\<exists>ident. identity_from_x509 x cert = Some ident \<and> router_id ident = a"
  using assms(1,3,4,5) dn_get_nid_entry [OF assms(2)] copy_field_nul [of a "length (a @ CHR 0x00 # b)" 128 b]
  by (simp add: identity_from_x509_def identity_clear_def strncpy_arr_def Let_def)

text \<open>A certificate with the two attributes, for the witnesses.\<close>

definition demo_x509 :: "string \<Rightarrow> string \<Rightarrow> (unit, unit, int, string) x509_api" where
  "demo_x509 cn ou = \<lparr>x_subject_name = Some,
     x_index_by_nid = (\<lambda>_ n _. case n of NID_commonName \<Rightarrow> 0 | NID_organizationalUnitName \<Rightarrow> 1),
     x_get_entry = (\<lambda>_ i. Some i), x_entry_data = (\<lambda>i. Some (if i = 0 then cn else ou)),
     x_string_data = Some, x_string_length = (\<lambda>s. int (length s)), x_oneline = (\<lambda>_. Some '''')\<rparr>"

lemma demo_x509_entries:
  "x_subject_name (demo_x509 cn ou) u = Some u"
  "entry_bytes (demo_x509 cn ou) u NID_commonName cn"
  "entry_bytes (demo_x509 cn ou) u NID_organizationalUnitName ou"
  "x_oneline (demo_x509 cn ou) u = Some ''''"
  by (simp_all add: demo_x509_def entry_bytes_def)

theorem identity_from_x509_cn_ou_witness:
  "identity_from_x509 (demo_x509 ''router-9'' ''region_east'') () =
     Some \<lparr>router_id = ''router-9'', group_name = ''region_east'', identity_slot = 0\<rparr>"
  using identity_from_x509_cn_ou [OF demo_x509_entries(1,2) _ _ demo_x509_entries(3)] by simp

theorem identity_from_x509_well_formed_witness:
  "\<exists>ident. identity_from_x509 (demo_x509 ''r'' '''') () = Some ident \<and> group_name ident \<noteq> []"
proof -
  have "identity_from_x509 (demo_x509 ''r'' '''') () \<noteq> None"
    by (simp add: identity_from_x509_def demo_x509_entries(1,4) Let_def split: option.splits)
  then obtain ident where i: "identity_from_x509 (demo_x509 ''r'' '''') () = Some ident" by blast
  show ?thesis using i identity_from_x509_well_formed [OF i] by (intro exI [of _ ident]) simp
qed

theorem identity_from_x509_embedded_nul_witness:
  "\<exists>ident. identity_from_x509 (demo_x509 (''admin'' @ CHR 0x00 # ''.example'') ''ops'') () = Some ident \<and>
     router_id ident = ''admin''"
  by (rule identity_from_x509_embedded_nul [OF demo_x509_entries(1) demo_x509_entries(2)]) simp_all

end
