(* ===== verification/Rewrite.thy ===== *)
theory Rewrite
  imports Stmt_Cache Slot_Resolve Identity
begin

text \<open>
  The rewrite engine proper (src/rewrite_engine.c): caching a Parse message
  and answering it locally, turning a Bind into an unnamed pipeline on the backend with the
  verified identity in the identity slot, and the policy for simple queries. The context of
  the frontend or backend is threaded through the calls of libpqwire; each step stops the
  function at the first failing call.
\<close>

section \<open>Parse\<close>

definition on_parse_ex :: "'w pqwire \<Rightarrow> 'w \<Rightarrow> stmt_cache \<Rightarrow> pq_parse \<Rightarrow> int \<Rightarrow> string option \<Rightarrow>
    int \<times> 'w \<times> stmt_cache" where
  "on_parse_ex pw frontend cache parse islot param_name =
     (let resolved = resolve_identity_slot (p_query parse) param_name islot;
          slot = (if param_name \<noteq> None \<and> param_name \<noteq> Some [] \<and> resolved \<ge> 0
                  then resolved else islot);
          (rc, cache') = stmt_cache_put pw cache parse slot
      in if rc \<noteq> 0 then (ERR, frontend, cache')
         else
           (let (rc2, frontend') = w_send_parse_complete pw frontend
            in (rc2, frontend', cache')))"

definition on_parse :: "'w pqwire \<Rightarrow> 'w \<Rightarrow> stmt_cache \<Rightarrow> pq_parse \<Rightarrow> int \<Rightarrow> int \<times> 'w \<times> stmt_cache" where
  "on_parse pw frontend cache parse islot =
     on_parse_ex pw frontend cache parse islot None"

section \<open>Bind\<close>

text \<open>The slot that the Bind overwrites: the identity's own slot when it has one, else the slot
  of the prepared statement, else 0.\<close>

definition bind_slot :: "identity \<Rightarrow> prepared_stmt \<Rightarrow> int" where
  "bind_slot ident prep =
     (let slot = (if identity_slot ident \<ge> 0 then identity_slot ident else st_identity_param_slot prep)
      in if slot < 0 then 0 else slot)"

text \<open>The fallback when the slice rewrite fails: copy the parameters with the identity injected,
  and send a Bind built from them.\<close>

definition send_bind_owned :: "'w pqwire \<Rightarrow> 'w \<Rightarrow> pq_bind \<Rightarrow> nat \<Rightarrow> string \<Rightarrow> int \<times> 'w" where
  "send_bind_owned pw backend b slot rid =
     (let (rc, params) = w_bind_inject_identity pw b slot rid 0 in
      if rc \<noteq> 0 then (ERR, backend)
      else
        (let ps = take (b_n_params b) params;
             (rc2, backend') = w_send_bind pw backend [] [] (map bp_format ps) (map bp_length ps)
                                 (map bp_data ps) (b_result_formats b)
         in if rc2 \<noteq> 0 then (ERR, backend') else (OK, backend')))"

definition on_bind :: "'w pqwire \<Rightarrow> 'w \<Rightarrow> stmt_cache \<Rightarrow> pq_bind \<Rightarrow> identity \<Rightarrow> int \<times> 'w" where
  "on_bind pw backend cache b ident =
     (case stmt_cache_get cache (b_statement b) of
        None \<Rightarrow> (ERR, backend)
      | Some prep \<Rightarrow>
          (let slot = bind_slot ident prep in
           if b_n_params b = 0 \<or> to_uint16 slot \<ge> b_n_params b then (ERR, backend)
           else
             (let (rc, w1) = w_send_parse pw backend [] (st_query prep)
                               (st_param_type_oids prep) (st_n_param_types prep) in
              if rc \<noteq> 0 then (ERR, w1)
              else
                (let (rc2, w2) = w_send_bind_rewrite_identity pw w1 b [] [] (to_uint16 slot) (router_id ident) 0;
                     (rc3, w3) = (if rc2 = 0 then (OK, w2)
                                  else send_bind_owned pw w2 b (to_uint16 slot) (router_id ident))
                 in if rc3 \<noteq> 0 then (ERR, w3)
                    else
                      (let (rc4, w4) = w_send_execute pw w3 [] 0 in
                       if rc4 \<noteq> 0 then (ERR, w4) else w_send_sync pw w4)))))"

section \<open>Simple query\<close>

definition on_simple_query :: "'w pqwire \<Rightarrow> 'w \<Rightarrow> bool \<Rightarrow> string \<Rightarrow> int \<times> 'w" where
  "on_simple_query pw frontend reject_simple_query sql =
     (let (rc, w1) =
            (if reject_simple_query
             then w_send_error_response pw frontend ''ERROR'' ''0A000''
                    ''simple Query disabled; use extended protocol''
             else w_send_error_response pw frontend ''ERROR'' ''0A000''
                    ''simple Query allowed only with backend forward (not configured here)'')
      in if rc \<noteq> 0 then (ERR, w1) else w_send_ready_for_query pw w1)"

section \<open>Lemmas\<close>

lemma queuesD: "queues sent w m (rc, w') \<Longrightarrow> sent w' = sent w @ (if rc = 0 then [m] else [])"
  by (simp add: queues_def)

lemma client_okD:
  assumes "client_ok pw sent"
  shows "queues sent w (BParse n q (take k oids)) (w_send_parse pw w n q oids k)"
    and "queues sent w (BBind po st ((take (b_n_params b) (b_params b))[s := identity_param rid f])
           (b_result_formats b)) (w_send_bind_rewrite_identity pw w b po st s rid f)"
    and "w_bind_inject_identity pw b s rid f = (0, ps) \<Longrightarrow>
           ps = (take (b_n_params b) (b_params b))[s := identity_param rid f]"
    and "queues sent w (BBind po st (zip_params fs ls vs) rf) (w_send_bind pw w po st fs ls vs rf)"
    and "queues sent w (BExecute po) (w_send_execute pw w po j)"
    and "queues sent w BSync (w_send_sync pw w)"
  using assms unfolding client_ok_def by (simp_all, metis fst_conv snd_conv)

text \<open>The four messages of the unnamed pipeline, with the identity in parameter \<open>s\<close>.\<close>

definition identity_pipeline :: "prepared_stmt \<Rightarrow> pq_bind \<Rightarrow> nat \<Rightarrow> string \<Rightarrow> be_msg list" where
  "identity_pipeline prep b s rid =
     [BParse [] (st_query prep) (take (st_n_param_types prep) (st_param_type_oids prep)),
      BBind [] [] ((take (b_n_params b) (b_params b))[s := identity_param rid 0]) (b_result_formats b),
      BExecute [], BSync]"

lemma send_bind_owned_queues:
  assumes "client_ok pw sent" and "send_bind_owned pw w b s rid = (rc, w')"
  shows "sent w' = sent w @ (if rc = 0 then [identity_pipeline prep b s rid ! 1] else [])"
proof (cases "w_bind_inject_identity pw b s rid 0")
  case (Pair irc ps)
  show ?thesis
  proof (cases "irc = 0")
    case True
    then have ps: "ps = (take (b_n_params b) (b_params b))[s := identity_param rid 0]"
      using client_okD(3) [OF assms(1)] Pair by simp
    then have t: "take (b_n_params b) ps = ps" by simp
    obtain rc2 w2 where snd: "w_send_bind pw w [] [] (map bp_format ps) (map bp_length ps) (map bp_data ps)
        (b_result_formats b) = (rc2, w2)" by fastforce
    have "sent w2 = sent w @ (if rc2 = 0 then [BBind [] [] ps (b_result_formats b)] else [])"
      using client_okD(4) [OF assms(1), of w "[]" "[]" "map bp_format ps" "map bp_length ps"
        "map bp_data ps" "b_result_formats b"] snd by (simp add: queues_def)
    with assms(2) Pair True snd t ps show ?thesis
      by (auto simp: send_bind_owned_def identity_pipeline_def split: if_splits)
  qed (use assms(2) Pair in \<open>simp add: send_bind_owned_def\<close>)
qed

text \<open>Both ways of sending the Bind queue the same message, or report a failure and queue none.\<close>

lemma bind_step_queues:
  assumes "client_ok pw sent"
    and "w_send_bind_rewrite_identity pw w b [] [] s rid 0 = (rc2, w2)"
    and "(if rc2 = 0 then (OK, w2) else send_bind_owned pw w2 b s rid) = (rc, w')"
  shows "sent w' = sent w @ (if rc = 0 then [identity_pipeline prep b s rid ! 1] else [])"
proof -
  have "sent w2 = sent w @ (if rc2 = 0 then [identity_pipeline prep b s rid ! 1] else [])"
    using queuesD [OF client_okD(2) [OF assms(1), of w "[]" "[]" b s rid 0, unfolded assms(2)]]
    by (simp add: identity_pipeline_def)
  then show ?thesis
    using assms(3) send_bind_owned_queues [OF assms(1), of w2 b s rid rc w' prep] by (auto split: if_splits)
qed

text \<open>The body of \<open>on_bind\<close> past its guards.\<close>

lemma on_bind_guarded:
  assumes "stmt_cache_get cache (b_statement b) = Some prep"
    and "to_uint16 (bind_slot ident prep) < b_n_params b"
  shows "on_bind pw w cache b ident =
    (let (rc, w1) = w_send_parse pw w [] (st_query prep) (st_param_type_oids prep) (st_n_param_types prep) in
     if rc \<noteq> 0 then (ERR, w1)
     else
       (let (rc2, w2) = w_send_bind_rewrite_identity pw w1 b [] [] (to_uint16 (bind_slot ident prep)) (router_id ident) 0;
            (rc3, w3) = (if rc2 = 0 then (OK, w2)
                         else send_bind_owned pw w2 b (to_uint16 (bind_slot ident prep)) (router_id ident))
        in if rc3 \<noteq> 0 then (ERR, w3)
           else (let (rc4, w4) = w_send_execute pw w3 [] 0 in
                 if rc4 \<noteq> 0 then (ERR, w4) else w_send_sync pw w4)))"
  using assms by (simp add: on_bind_def Let_def)

lemma on_bind_refused:
  assumes "on_bind pw w cache b ident = (rc, w')"
    and "stmt_cache_get cache (b_statement b) = None \<or>
      (\<exists>prep. stmt_cache_get cache (b_statement b) = Some prep \<and> b_n_params b \<le> to_uint16 (bind_slot ident prep))"
  shows "rc = ERR \<and> w' = w"
  using assms by (auto simp: on_bind_def Let_def)

lemma on_bind_sends_prefix:
  assumes ok: "client_ok pw sent" and run: "on_bind pw w cache b ident = (rc, w')"
    and prep: "stmt_cache_get cache (b_statement b) = Some prep"
    and slot: "to_uint16 (bind_slot ident prep) < b_n_params b"
  shows "\<exists>k. sent w' = sent w @ take k (identity_pipeline prep b (to_uint16 (bind_slot ident prep)) (router_id ident)) \<and>
    (rc = 0 \<longrightarrow> k = 4)"
proof -
  let ?s = "to_uint16 (bind_slot ident prep)" and ?rid = "router_id ident"
  let ?p = "identity_pipeline prep b ?s ?rid"
  obtain rc1 w1 where 1: "w_send_parse pw w [] (st_query prep) (st_param_type_oids prep) (st_n_param_types prep) = (rc1, w1)"
    by fastforce
  obtain rc2 w2 where 2: "w_send_bind_rewrite_identity pw w1 b [] [] ?s ?rid 0 = (rc2, w2)" by fastforce
  obtain rc3 w3 where 3: "(if rc2 = 0 then (OK, w2) else send_bind_owned pw w2 b ?s ?rid) = (rc3, w3)" by fastforce
  obtain rc4 w4 where 4: "w_send_execute pw w3 [] 0 = (rc4, w4)" by fastforce
  obtain rc5 w5 where 5: "w_send_sync pw w4 = (rc5, w5)" by fastforce
  have s1: "sent w1 = sent w @ (if rc1 = 0 then [?p ! 0] else [])"
    using queuesD [OF client_okD(1) [OF ok, of w "[]" "st_query prep" "st_n_param_types prep" "st_param_type_oids prep",
      unfolded 1]] by (simp add: identity_pipeline_def)
  have s3: "sent w3 = sent w1 @ (if rc3 = 0 then [?p ! 1] else [])"
    by (rule bind_step_queues [OF ok 2 3])
  have s4: "sent w4 = sent w3 @ (if rc4 = 0 then [?p ! 2] else [])"
    using queuesD [OF client_okD(5) [OF ok, of w3 "[]" 0, unfolded 4]] by (simp add: identity_pipeline_def)
  have s5: "sent w5 = sent w4 @ (if rc5 = 0 then [?p ! 3] else [])"
    using queuesD [OF client_okD(6) [OF ok, of w4, unfolded 5]] by (simp add: identity_pipeline_def)
  have tk: "take 0 ?p = []" "take 1 ?p = [?p ! 0]" "take 2 ?p = [?p ! 0, ?p ! 1]"
    "take 3 ?p = [?p ! 0, ?p ! 1, ?p ! 2]" "take 4 ?p = [?p ! 0, ?p ! 1, ?p ! 2, ?p ! 3]"
    by (simp_all add: identity_pipeline_def)
  have r: "(rc, w') = (if rc1 \<noteq> 0 then (ERR, w1) else if rc3 \<noteq> 0 then (ERR, w3)
      else if rc4 \<noteq> 0 then (ERR, w4) else (rc5, w5))"
    using run unfolding on_bind_guarded [OF prep slot] 1 Let_def split 2 3 4 5 by simp
  show ?thesis
  proof (cases "rc1 = 0 \<and> rc3 = 0 \<and> rc4 = 0")
    case True
    with r have "rc = rc5" "w' = w5" by simp_all
    then show ?thesis using True s1 s3 s4 s5 tk by (intro exI [of _ "if rc5 = 0 then 4 else 3"]) simp
  next
    case False
    with r have "rc = ERR" by (auto split: if_splits)
    moreover have "\<exists>k. sent w' = sent w @ take k ?p"
      using False r s1 s3 s4 tk by (auto split: if_splits) (metis append_Nil2 take0)+
    ultimately show ?thesis by auto
  qed
qed

section \<open>Properties\<close>

text \<open>C1. A Bind that the proxy forwards with success is sent to the backend as exactly four
  messages: a Parse of the cached query under the unnamed statement, a Bind to the unnamed
  portal whose parameters are the client's with the identity slot replaced by the router id in
  text format, an Execute of the unnamed portal, and a Sync. This holds on the slice-rewrite
  path and on the fallback that copies the parameters. The statement was in the cache and the
  slot within the parameters of the Bind.\<close>

theorem on_bind_forwards_identity:
  assumes "client_ok pw sent" and "on_bind pw w cache b ident = (0, w')"
  shows "\<exists>prep. stmt_cache_get cache (b_statement b) = Some prep \<and>
    (let slot = to_uint16 (bind_slot ident prep) in slot < b_n_params b \<and>
      sent w' = sent w @
        [BParse '''' (st_query prep) (take (st_n_param_types prep) (st_param_type_oids prep)),
         BBind '''' '''' ((take (b_n_params b) (b_params b))[slot := identity_param (router_id ident) 0])
           (b_result_formats b),
         BExecute '''', BSync])"
proof -
  obtain prep where prep: "stmt_cache_get cache (b_statement b) = Some prep"
    and slot: "to_uint16 (bind_slot ident prep) < b_n_params b"
    using on_bind_refused [OF assms(2)] by (cases "stmt_cache_get cache (b_statement b)") (auto simp: not_le [symmetric])
  from on_bind_sends_prefix [OF assms prep slot] have
    "sent w' = sent w @ identity_pipeline prep b (to_uint16 (bind_slot ident prep)) (router_id ident)"
    by (auto simp: identity_pipeline_def)
  with prep slot show ?thesis by (auto simp: identity_pipeline_def Let_def)
qed

text \<open>C2. No spoofed identity leaves the proxy: whatever result code the Bind handler returns and
  wherever it stops, every Bind it has queued for the backend carries the verified router id in
  the identity slot and the client's values, unchanged, in every other slot.\<close>

theorem on_bind_never_forwards_spoofed_identity:
  assumes "client_ok pw sent" and "b_n_params b \<le> length (b_params b)"
    and "on_bind pw w cache b ident = (rc, w')"
    and "stmt_cache_get cache (b_statement b) = Some prep"
  shows "\<exists>new. sent w' = sent w @ new \<and>
    (\<forall>po st ps rf. BBind po st ps rf \<in> set new \<longrightarrow>
      (let slot = to_uint16 (bind_slot ident prep) in
       length ps = b_n_params b \<and> slot < length ps \<and> ps ! slot = identity_param (router_id ident) 0 \<and>
       (\<forall>i < length ps. i \<noteq> slot \<longrightarrow> ps ! i = b_params b ! i)))"
proof (cases "to_uint16 (bind_slot ident prep) < b_n_params b")
  case True
  from on_bind_sends_prefix [OF assms(1,3,4) True] obtain k where
    "sent w' = sent w @ take k (identity_pipeline prep b (to_uint16 (bind_slot ident prep)) (router_id ident))" by blast
  then show ?thesis using True assms(2)
    by (intro exI [of _ "take k (identity_pipeline prep b (to_uint16 (bind_slot ident prep)) (router_id ident))"])
       (auto simp: identity_pipeline_def Let_def dest!: in_set_takeD)
next
  case False
  then have "w' = w" using on_bind_refused [OF assms(3)] assms(4) by auto
  then show ?thesis by simp
qed

text \<open>C32. A statement that was parsed through the proxy is the one a later Bind forwards: after a
  successful Parse into a well-formed cache, a successful Bind on that name sends the query of
  that Parse, and the slot it overwrites is the identity's own or, when the identity has none,
  the one resolved for the statement.\<close>

theorem parse_then_bind_forwards_query:
  assumes "prep_ok pw" and "client_ok pw sent" and "cache_inv pw cache" and "parse_fits pw p"
    and "on_parse_ex pw fe cache p fallback param_name = (0, fe', cache')"
    and "b_statement b = p_statement p" and "on_bind pw w cache' b ident = (0, w')"
  defines "resolved \<equiv> (if param_name = None \<or> param_name = Some '''' \<or>
      resolve_identity_slot (p_query p) param_name fallback < 0 then fallback
      else resolve_identity_slot (p_query p) param_name fallback)"
  defines "slot \<equiv> (if 0 \<le> identity_slot ident then identity_slot ident else max 0 resolved)"
  shows "sent w' = sent w @
    [BParse '''' (p_query p) (take (p_n_param_types p) (p_param_type_oids p)),
     BBind '''' '''' ((take (b_n_params b) (b_params b))[to_uint16 slot := identity_param (router_id ident) 0])
       (b_result_formats b),
     BExecute '''', BSync]"
proof -
  obtain rc c1 where put: "stmt_cache_put pw cache p resolved = (rc, c1)" by fastforce
  have slot_eq: "(if param_name \<noteq> None \<and> param_name \<noteq> Some [] \<and>
      0 \<le> resolve_identity_slot (p_query p) param_name fallback
      then resolve_identity_slot (p_query p) param_name fallback else fallback) = resolved"
    unfolding resolved_def by auto
  have rc: "rc = 0" "cache' = c1"
    using assms(5) put unfolding on_parse_ex_def Let_def slot_eq by (auto split: if_splits prod.splits)
  with put have "cache_put_entry pw cache (p, resolved) = (0, cache')" by (simp add: cache_put_entry_def)
  from stc.put_get [OF assms(1,3) _ this] assms(4,6)
  have get: "stmt_cache_get cache' (b_statement b) = Some (stored_stmt p resolved)" by simp
  have slot: "to_uint16 (bind_slot ident (stored_stmt p resolved)) < b_n_params b"
    using on_bind_refused [OF assms(7)] get by (auto simp: not_le [symmetric])
  have "bind_slot ident (stored_stmt p resolved) = slot"
    unfolding slot_def bind_slot_def by (auto simp: Let_def stored_stmt_def max_def)
  then show ?thesis
    using on_bind_sends_prefix [OF assms(2,7) get slot] by (auto simp: identity_pipeline_def stored_stmt_def)
qed

text \<open>C34. An identity with a slot of its own decides alone: two caches that hold the same
  statement with different resolved slots forward the same Bind. The per-statement slot that
  Parse resolves by column name is therefore never used for a frontend whose identity carries a
  slot, although the configuration describes that slot as the fallback.\<close>

theorem on_bind_ignores_resolved_slot:
  assumes "0 \<le> identity_slot ident"
    and "stmt_cache_get cache1 (b_statement b) = Some prep"
    and "stmt_cache_get cache2 (b_statement b) = Some (prep\<lparr>st_identity_param_slot := other\<rparr>)"
  shows "on_bind pw w cache1 b ident = on_bind pw w cache2 b ident"
proof -
  have "bind_slot ident (prep\<lparr>st_identity_param_slot := other\<rparr>) = bind_slot ident prep"
    using assms(1) by (simp add: bind_slot_def)
  then show ?thesis using assms(2,3) by (simp add: on_bind_def Let_def)
qed

section \<open>Witnesses\<close>

definition demo_ident :: identity where
  "demo_ident = \<lparr>router_id = ''router-9'', group_name = ''east'', identity_slot = 0\<rparr>"

definition demo_text :: "string \<Rightarrow> bind_param" where
  "demo_text s = identity_param s 0"

definition demo_bind :: pq_bind where
  "demo_bind = \<lparr>b_portal = '''', b_statement = ''s'', b_n_params = 2,
     b_params = [demo_text ''forged'', demo_text ''v''], b_formats = [], b_result_formats = []\<rparr>"

definition demo_cache :: "int \<Rightarrow> stmt_cache" where
  "demo_cache slot = snd (stmt_cache_put ref_pw stmt_cache_init (demo_parse ''s'' ''SELECT 1'') slot)"

lemma demo_accepts: "accepts ref_pw p" "parse_fits ref_pw (demo_parse ''s'' ''SELECT 1'')"
  by (simp_all add: accepts_def ref_pw_def ref_prepare_def parse_fits_def demo_parse_def)

lemma demo_put: "stmt_cache_put ref_pw stmt_cache_init (demo_parse ''s'' ''SELECT 1'') slot = (0, demo_cache slot)"
proof -
  have "c_count stmt_cache_init < 64" by (simp add: stmt_cache_init_def)
  then show ?thesis
    using put_new [OF cache_inv_init ref_prep_ok demo_accepts(2,1), of slot]
    by (auto simp: demo_cache_def cache_map_init)
qed

lemma demo_parse_sel [simp]: "p_statement (demo_parse n q) = n" "p_query (demo_parse n q) = q"
  by (simp_all add: demo_parse_def)

lemma demo_get: "stmt_cache_get (demo_cache slot) ''s'' = Some (stored_stmt (demo_parse ''s'' ''SELECT 1'') slot)"
  using stc.put_get [OF ref_prep_ok cache_inv_init, of "(demo_parse ''s'' ''SELECT 1'', slot)" "demo_cache slot" "''s''"]
  by (simp add: cache_put_entry_def demo_put demo_accepts)

lemma demo_on_bind: "\<exists>w'. on_bind ref_pw ref_wire0 (demo_cache slot) demo_bind demo_ident = (0, w')"
  by (simp add: on_bind_def demo_bind_def demo_get bind_slot_def demo_ident_def Let_def ref_pw_def ref_send_def)

theorem on_bind_forwards_identity_witness:
  "\<exists>w'. on_bind ref_pw ref_wire0 (demo_cache 1) demo_bind demo_ident = (0, w') \<and>
     rw_sent w' = [BParse '''' ''SELECT 1'' [], BBind '''' '''' [demo_text ''router-9'', demo_text ''v''] [],
       BExecute '''', BSync]"
proof -
  obtain w' where w': "on_bind ref_pw ref_wire0 (demo_cache 1) demo_bind demo_ident = (0, w')"
    using demo_on_bind by blast
  from on_bind_forwards_identity [OF ref_client_ok this] w' show ?thesis
    by (simp add: demo_get demo_bind_def demo_ident_def bind_slot_def stored_stmt_def demo_parse_def
        demo_text_def ref_wire0_def)
qed

theorem on_bind_never_forwards_spoofed_identity_witness:
  "\<exists>new. rw_sent (snd (on_bind ref_pw ref_wire0 (demo_cache 1) demo_bind demo_ident)) = new \<and>
    (\<forall>po st ps rf. BBind po st ps rf \<in> set new \<longrightarrow> length ps = 2 \<and> ps ! 0 = demo_text ''router-9'')"
proof -
  obtain w' where w': "on_bind ref_pw ref_wire0 (demo_cache 1) demo_bind demo_ident = (0, w')"
    using demo_on_bind by blast
  have "b_n_params demo_bind \<le> length (b_params demo_bind)"
    and get: "stmt_cache_get (demo_cache 1) (b_statement demo_bind) = Some (stored_stmt (demo_parse ''s'' ''SELECT 1'') 1)"
    by (simp_all add: demo_bind_def demo_get)
  from on_bind_never_forwards_spoofed_identity [OF ref_client_ok this(1) w' get] w' show ?thesis
    by (simp add: demo_bind_def demo_ident_def bind_slot_def demo_text_def ref_wire0_def)
qed

theorem parse_then_bind_forwards_query_witness:
  "\<exists>w'. on_bind ref_pw ref_wire0 (demo_cache 0) demo_bind demo_ident = (0, w') \<and>
     take 1 (rw_sent w') = [BParse '''' ''SELECT 1'' []]"
proof -
  obtain w' where w': "on_bind ref_pw ref_wire0 (demo_cache 0) demo_bind demo_ident = (0, w')"
    using demo_on_bind by blast
  obtain fe' where fe: "on_parse_ex ref_pw ref_wire0 stmt_cache_init (demo_parse ''s'' ''SELECT 1'') 0 None
      = (0, fe', demo_cache 0)"
    by (simp add: on_parse_ex_def demo_put Let_def) (simp add: ref_pw_def ref_put_def)
  have "b_statement demo_bind = p_statement (demo_parse ''s'' ''SELECT 1'')"
    by (simp add: demo_bind_def demo_parse_def)
  from parse_then_bind_forwards_query [OF ref_prep_ok ref_client_ok cache_inv_init demo_accepts(2) fe this w'] w'
  show ?thesis by (simp add: ref_wire0_def demo_parse_def)
qed

theorem on_bind_ignores_resolved_slot_witness:
  "on_bind ref_pw ref_wire0 (demo_cache 0) demo_bind demo_ident = on_bind ref_pw ref_wire0 (demo_cache 1) demo_bind demo_ident"
proof -
  have "0 \<le> identity_slot demo_ident" by (simp add: demo_ident_def)
  moreover have "stmt_cache_get (demo_cache 0) (b_statement demo_bind) = Some (stored_stmt (demo_parse ''s'' ''SELECT 1'') 0)"
    by (simp add: demo_bind_def demo_get)
  moreover have "stmt_cache_get (demo_cache 1) (b_statement demo_bind) =
      Some ((stored_stmt (demo_parse ''s'' ''SELECT 1'') 0)\<lparr>st_identity_param_slot := 1\<rparr>)"
    by (simp add: demo_bind_def demo_get stored_stmt_def)
  ultimately show ?thesis by (rule on_bind_ignores_resolved_slot)
qed

end
