(* ===== verification/Scram.thy ===== *)
theory Scram
  imports C_Strings
begin

text \<open>
  The SCRAM-SHA-256 client that authenticates the pool at a backend (src/scram_client.c).
  OpenSSL is a parameter: a record with the base64 block coders, HMAC, PBKDF2 and the digest.
  The random bytes of the client nonce are an argument. A function that fails returns
  \<open>None\<close>: every caller drops the exchange then, so the half-updated state is not kept.
  The properties relate the client to the server side of RFC 5802, which is not program code
  and is written down here as the specification.
\<close>

unbundle bit_operations_syntax

section \<open>The cryptographic library\<close>

text \<open>\<open>cr_decode_block\<close> yields the bytes that \<open>EVP_DecodeBlock\<close> wrote, \<open>None\<close> for a
  negative result; \<open>cr_hmac\<close>, \<open>cr_pbkdf2\<close> and \<open>cr_digest\<close> yield \<open>None\<close> on failure.\<close>

record scram_crypto =
  cr_encode_block :: "bytes \<Rightarrow> string"
  cr_decode_block :: "string \<Rightarrow> bytes option"
  cr_hmac :: "bytes \<Rightarrow> bytes \<Rightarrow> bytes option"
  cr_pbkdf2 :: "string \<Rightarrow> bytes \<Rightarrow> int \<Rightarrow> bytes option"
  cr_digest :: "bytes \<Rightarrow> bytes option"

text \<open>The characters of a C string as bytes.\<close>

definition str_bytes :: "string \<Rightarrow> bytes" where
  "str_bytes s = map (\<lambda>c. word_of_nat (code_of c)) s"

definition b64_encode :: "scram_crypto \<Rightarrow> bytes \<Rightarrow> nat \<Rightarrow> string option" where
  "b64_encode cr inp out_cap =
     (let out = cr_encode_block cr inp in if length out \<ge> out_cap then None else Some out)"

definition b64_decode :: "scram_crypto \<Rightarrow> string \<Rightarrow> nat \<Rightarrow> bytes option" where
  "b64_decode cr inp out_cap =
     (let in_len = length inp; max_out = (in_len div 4) * 3 + 3 in
      if in_len = 0 \<or> in_len mod 4 \<noteq> 0 \<or> max_out > 256 then None
      else
        (case cr_decode_block cr inp of
           None \<Rightarrow> None
         | Some tmp \<Rightarrow>
             (let pad = (if inp ! (in_len - 1) = CHR ''='' then 1 else 0) +
                        (if in_len \<ge> 2 \<and> inp ! (in_len - 2) = CHR ''='' then 1 else 0);
                  n = int (length tmp) - pad
              in if n < 0 \<or> nat n > out_cap then None else Some (take (nat n) tmp))))"

definition hmac_sha256 :: "scram_crypto \<Rightarrow> bytes \<Rightarrow> bytes \<Rightarrow> bytes option" where
  "hmac_sha256 cr key data =
     (case cr_hmac cr key data of
        None \<Rightarrow> None
      | Some out \<Rightarrow> if length out \<noteq> 32 then None else Some out)"

definition pbkdf2_sha256 :: "scram_crypto \<Rightarrow> string \<Rightarrow> bytes \<Rightarrow> nat \<Rightarrow> bytes option" where
  "pbkdf2_sha256 cr password salt iterations =
     cr_pbkdf2 cr password salt (to_int32 (int iterations))"

section \<open>User name and nonce\<close>

definition hex_digits :: string where
  "hex_digits = ''0123456789abcdefghijklmnopqrstuvwxyz''"

text \<open>\<open>raw\<close> is what the random source delivered, \<open>None\<close> when it failed.\<close>

definition nonce_hex :: "bytes option \<Rightarrow> nat \<Rightarrow> string" where
  "nonce_hex raw nchars =
     (let k = (if nchars > 24 then 24 else nchars) in
      case raw of
        None \<Rightarrow> map (\<lambda>i. hex_digits ! (i mod 36)) [0..<k]
      | Some bs \<Rightarrow> map (\<lambda>i. hex_digits ! (unat (bs ! i) mod 36)) [0..<k])"

fun copy_user_loop :: "nat \<Rightarrow> string \<Rightarrow> string \<Rightarrow> string option" where
  "copy_user_loop dstsz dst [] = Some dst"
| "copy_user_loop dstsz dst (c # user) =
     (if \<not> length dst + 1 < dstsz then Some dst
      else if code_of c < 32 \<or> code_of c = 127 then None
      else if c = CHR ''='' then
        (if length dst + 3 \<ge> dstsz then None else copy_user_loop dstsz (dst @ ''=3D'') user)
      else if c = CHR '','' then
        (if length dst + 3 \<ge> dstsz then None else copy_user_loop dstsz (dst @ ''=2C'') user)
      else copy_user_loop dstsz (dst @ [c]) user)"

definition copy_user :: "nat \<Rightarrow> string \<Rightarrow> string option" where
  "copy_user dstsz user = (if user = [] \<or> dstsz = 0 then None else copy_user_loop dstsz [] user)"

section \<open>The exchange\<close>

record scram =
  sc_username :: string
  sc_client_nonce :: string
  sc_server_nonce :: string
  sc_salt :: bytes
  sc_iterations :: nat
  sc_salted_password :: bytes
  sc_client_key :: bytes
  sc_stored_key :: bytes
  sc_server_key :: bytes
  sc_client_first_bare :: string
  sc_auth_message :: string
  sc_step :: nat

definition scram_zero :: scram where
  "scram_zero = \<lparr>sc_username = [], sc_client_nonce = [], sc_server_nonce = [], sc_salt = [],
     sc_iterations = 0, sc_salted_password = replicate 32 0, sc_client_key = replicate 32 0,
     sc_stored_key = replicate 32 0, sc_server_key = replicate 32 0, sc_client_first_bare = [],
     sc_auth_message = [], sc_step = 0\<rparr>"

definition scram_init :: "bytes option \<Rightarrow> string \<Rightarrow> scram option" where
  "scram_init raw username =
     (case copy_user 128 username of
        None \<Rightarrow> None
      | Some u \<Rightarrow> Some (scram_zero\<lparr>sc_username := u, sc_client_nonce := nonce_hex raw 24, sc_step := 0\<rparr>))"

text \<open>\<open>snprintf\<close> into a buffer of \<open>cap\<close> bytes, with the check on its result.\<close>

definition bounded_print :: "nat \<Rightarrow> string \<Rightarrow> string option" where
  "bounded_print cap s = (if s = [] \<or> length s \<ge> cap then None else Some s)"

text \<open>The GS2 form, the bare form and the new state.\<close>

definition scram_client_first :: "scram \<Rightarrow> nat \<Rightarrow> nat \<Rightarrow> (string \<times> string \<times> scram) option" where
  "scram_client_first s gs2_cap bare_cap =
     (case bounded_print bare_cap (''n='' @ sc_username s @ '',r='' @ sc_client_nonce s) of
        None \<Rightarrow> None
      | Some bare \<Rightarrow>
          (let s1 = s\<lparr>sc_client_first_bare := strncpy_arr 256 bare\<rparr> in
           case bounded_print gs2_cap (''n,,'' @ bare) of
             None \<Rightarrow> None
           | Some gs2 \<Rightarrow> Some (gs2, bare, s1\<lparr>sc_step := 1\<rparr>)))"

text \<open>The value after the first occurrence of a two-character key, copied while the predicate
  holds into an array of \<open>sz\<close> bytes.\<close>

definition attr_field :: "string \<Rightarrow> (char \<Rightarrow> bool) \<Rightarrow> nat \<Rightarrow> string \<Rightarrow> string option" where
  "attr_field key keep sz msg =
     (case strstr_pos key msg of
        None \<Rightarrow> None
      | Some k \<Rightarrow> Some (take (sz - 1) (takeWhile keep (drop (k + 2) msg))))"

abbreviation (input) not_comma :: "char \<Rightarrow> bool" where "not_comma \<equiv> \<lambda>c. c \<noteq> CHR '',''"

text \<open>The keys derived from the password, and the message both sides sign.\<close>

definition scram_keys :: "scram_crypto \<Rightarrow> scram \<Rightarrow> string \<Rightarrow> scram option" where
  "scram_keys cr s password =
     (case pbkdf2_sha256 cr password (sc_salt s) (sc_iterations s) of
        None \<Rightarrow> None
      | Some sp \<Rightarrow>
          (case hmac_sha256 cr sp (str_bytes ''Client Key'') of
             None \<Rightarrow> None
           | Some ck \<Rightarrow>
               (case cr_digest cr ck of
                  None \<Rightarrow> None
                | Some sk \<Rightarrow>
                    (case hmac_sha256 cr sp (str_bytes ''Server Key'') of
                       None \<Rightarrow> None
                     | Some vk \<Rightarrow> Some (s\<lparr>sc_salted_password := sp, sc_client_key := ck,
                         sc_stored_key := sk, sc_server_key := vk\<rparr>)))))"

definition scram_auth_message :: "scram \<Rightarrow> string \<Rightarrow> scram option" where
  "scram_auth_message s server_first =
     (case bounded_print 160 (''c=biws,r='' @ sc_server_nonce s) of
        None \<Rightarrow> None
      | Some cwithout \<Rightarrow>
          (case bounded_print 768 (sc_client_first_bare s @ '','' @ server_first @ '','' @ cwithout) of
             None \<Rightarrow> None
           | Some am \<Rightarrow> Some (s\<lparr>sc_auth_message := am\<rparr>)))"

definition scram_handle_server_first :: "scram_crypto \<Rightarrow> scram \<Rightarrow> string \<Rightarrow> string \<Rightarrow> scram option" where
  "scram_handle_server_first cr s server_first password =
     (case attr_field ''r='' not_comma 128 server_first of
        None \<Rightarrow> None
      | Some nonce \<Rightarrow>
          if \<not> prefix (sc_client_nonce s) nonce then None
          else
            (case attr_field ''s='' not_comma 128 server_first of
               None \<Rightarrow> None
             | Some salt_b64 \<Rightarrow>
                 (case b64_decode cr salt_b64 64 of
                    None \<Rightarrow> None
                  | Some salt \<Rightarrow>
                      (case attr_field ''i='' is_digit 16 server_first of
                         None \<Rightarrow> None
                       | Some iter_s \<Rightarrow>
                           (let s1 = s\<lparr>sc_server_nonce := nonce, sc_salt := salt,
                                  sc_iterations := nat (dec_value 0 iter_s) mod 4294967296\<rparr> in
                            case scram_keys cr s1 password of
                              None \<Rightarrow> None
                            | Some s2 \<Rightarrow> scram_auth_message s2 server_first)))))"

definition scram_client_final :: "scram_crypto \<Rightarrow> scram \<Rightarrow> nat \<Rightarrow> (string \<times> scram) option" where
  "scram_client_final cr s out_cap =
     (case hmac_sha256 cr (sc_stored_key s) (str_bytes (sc_auth_message s)) of
        None \<Rightarrow> None
      | Some client_sig \<Rightarrow>
          (let proof = map2 (XOR) (sc_client_key s) client_sig in
           case b64_encode cr proof 64 of
             None \<Rightarrow> None
           | Some proof_b64 \<Rightarrow>
               (case bounded_print out_cap (''c=biws,r='' @ sc_server_nonce s @ '',p='' @ proof_b64) of
                  None \<Rightarrow> None
                | Some out \<Rightarrow> Some (out, s\<lparr>sc_step := 2\<rparr>))))"

definition scram_verify_server_final :: "scram_crypto \<Rightarrow> scram \<Rightarrow> string \<Rightarrow> int" where
  "scram_verify_server_final cr s server_final =
     (case attr_field ''v='' not_comma 128 server_final of
        None \<Rightarrow> ERR
      | Some v_b64 \<Rightarrow>
          (case hmac_sha256 cr (sc_server_key s) (str_bytes (sc_auth_message s)) of
             None \<Rightarrow> ERR
           | Some expected \<Rightarrow>
               (case b64_decode cr v_b64 32 of
                  None \<Rightarrow> ERR
                | Some got \<Rightarrow>
                    if length got \<noteq> 32 then ERR
                    else if foldl (OR) 0 (map2 (XOR) expected got) \<noteq> 0 then ERR
                    else OK)))"

section \<open>The server side of RFC 5802\<close>

text \<open>Escaping of a user name, and its inverse as a server reads it.\<close>

definition scram_escape :: "string \<Rightarrow> string" where
  "scram_escape u = concat (map (\<lambda>c. if c = CHR ''='' then ''=3D''
     else if c = CHR '','' then ''=2C'' else [c]) u)"

fun scram_unescape :: "string \<Rightarrow> string" where
  "scram_unescape [] = []"
| "scram_unescape (c # cs) =
     (if prefix ''=3D'' (c # cs) then CHR ''='' # scram_unescape (drop 2 cs)
      else if prefix ''=2C'' (c # cs) then CHR '','' # scram_unescape (drop 2 cs)
      else c # scram_unescape cs)"

lemma scram_escape_simps [simp]:
  "scram_escape [] = []"
  "scram_escape (c # u) = (if c = CHR ''='' then ''=3D'' else if c = CHR '','' then ''=2C'' else [c]) @ scram_escape u"
  by (simp_all add: scram_escape_def)

lemma scram_unescape_escape: "scram_unescape (scram_escape u) = u"
  by (induction u) auto

lemma scram_escape_no_comma: "CHR '','' \<notin> set (scram_escape u)"
  by (induction u) auto

lemma copy_user_loop_Some:
  "copy_user_loop sz dst u = Some d \<Longrightarrow> length dst < sz \<Longrightarrow>
    length d < sz \<and> (\<exists>v. prefix v u \<and> d = dst @ scram_escape v \<and> (\<forall>c \<in> set v. 32 \<le> code_of c \<and> code_of c \<noteq> 127))"
proof (induction u arbitrary: dst)
  case (Cons c u)
  show ?case
  proof (cases "length dst + 1 < sz")
    case False
    with Cons.prems show ?thesis by (auto intro: exI [of _ "[]"])
  next
    case True
    define e where "e = (if c = CHR ''='' then ''=3D'' else if c = CHR '','' then ''=2C'' else [c])"
    have step: "copy_user_loop sz (dst @ e) u = Some d" "length (dst @ e) < sz" "32 \<le> code_of c \<and> code_of c \<noteq> 127"
      using Cons.prems True unfolding e_def by (auto split: if_splits)
    from Cons.IH [OF step(1,2)] obtain v where "prefix v u" "d = (dst @ e) @ scram_escape v" "length d < sz"
      "\<forall>c \<in> set v. 32 \<le> code_of c \<and> code_of c \<noteq> 127" by blast
    then show ?thesis using step(3) by (intro conjI exI [of _ "c # v"]) (auto simp: e_def)
  qed
qed (auto intro: exI [of _ "[]"])

lemma copy_user_loop_fits:
  "length (dst @ scram_escape u) < sz \<Longrightarrow> \<forall>c \<in> set u. 32 \<le> code_of c \<and> code_of c \<noteq> 127 \<Longrightarrow>
    copy_user_loop sz dst u = Some (dst @ scram_escape u)"
proof (induction u arbitrary: dst)
  case (Cons c u)
  define e where "e = (if c = CHR ''='' then ''=3D'' else if c = CHR '','' then ''=2C'' else [c])"
  have "copy_user_loop sz (dst @ e) u = Some ((dst @ e) @ scram_escape u)"
    using Cons.prems by (intro Cons.IH) (auto simp: e_def)
  then show ?case using Cons.prems by (auto simp: e_def)
qed simp

section \<open>Fields of the messages\<close>

lemma strstr_pos_skip2:
  assumes "a \<notin> set u"
  shows "strstr_pos (a # ps) (u @ v) = map_option ((+) (length u)) (strstr_pos (a # ps) v)"
  using assms by (induction u) (cases "strstr_pos (a # ps) v"; simp)+

text \<open>A two-character key that ends in '=' is not found inside text without '='.\<close>

lemma strstr_pos_skip_eq:
  assumes "CHR ''='' \<notin> set u"
  shows "strstr_pos [k, CHR ''=''] (u @ CHR '','' # v) =
    (if k = CHR '','' then strstr_pos [k, CHR ''=''] (u @ CHR '','' # v)
     else map_option ((+) (length u + 1)) (strstr_pos [k, CHR ''=''] v))"
  using assms
proof (induction u)
  case Nil
  show ?case by (cases "strstr_pos [k, CHR ''=''] v") auto
next
  case (Cons x u)
  then have "\<not> prefix [k, CHR ''=''] ((x # u) @ CHR '','' # v)" by (cases u) auto
  with Cons show ?case by (cases "strstr_pos [k, CHR ''=''] v") auto
qed

lemma takeWhile_stop: "\<forall>c \<in> set u. P c \<Longrightarrow> (v = [] \<or> \<not> P (hd v)) \<Longrightarrow> takeWhile P (u @ v) = u"
  by (induction u) (cases v; auto)+

lemma attr_field_at:
  assumes "strstr_pos key msg = Some (length w)" "msg = w @ key @ u @ v" "length key = 2"
    "\<forall>c \<in> set u. P c" "v = [] \<or> \<not> P (hd v)" "length u < sz"
  shows "attr_field key P sz msg = Some u"
proof -
  have "drop (length w + 2) msg = u @ v" using assms(2,3) by simp
  then show ?thesis using assms(1,6) by (simp add: attr_field_def takeWhile_stop [OF assms(4,5)])
qed

text \<open>The three fields of a well-formed server-first message.\<close>

definition server_first_msg :: "string \<Rightarrow> string \<Rightarrow> string \<Rightarrow> string" where
  "server_first_msg nonce salt_b64 iter = ''r='' @ nonce @ '',s='' @ salt_b64 @ '',i='' @ iter"

definition nonce_text :: "string \<Rightarrow> bool" where
  "nonce_text nonce \<longleftrightarrow> length nonce < 128 \<and> (\<forall>c \<in> set nonce. c \<noteq> CHR ''='' \<and> c \<noteq> CHR '','')"

text \<open>Base64 text, with no letter \<open>i\<close> before its padding (canonical base64 never has one there).\<close>

definition salt_text :: "string \<Rightarrow> bool" where
  "salt_text t \<longleftrightarrow> length t < 128 \<and> CHR '','' \<notin> set t \<and> strstr_pos ''i='' (t @ '','') = None"

lemma strstr_pos_join:
  "strstr_pos [k, CHR ''=''] (t @ [CHR '','']) = None \<Longrightarrow> k \<noteq> CHR '','' \<Longrightarrow>
    strstr_pos [k, CHR ''=''] (t @ CHR '','' # v) = map_option ((+) (length t + 1)) (strstr_pos [k, CHR ''=''] v)"
proof (induction t)
  case Nil
  show ?case using Nil by (cases "strstr_pos [k, CHR ''=''] v") auto
next
  case (Cons x t)
  then have no: "\<not> prefix [k, CHR ''=''] ((x # t) @ CHR '','' # v)"
    by (cases t) (auto split: if_splits)
  with Cons show ?case by (cases "strstr_pos [k, CHR ''=''] v") (auto split: if_splits)
qed

lemma server_first_fields:
  assumes n: "nonce_text nonce" and s: "salt_text salt_b64"
    and i: "\<forall>c \<in> set iter. is_digit c" "length iter < 16"
  defines "msg \<equiv> server_first_msg nonce salt_b64 iter"
  shows "attr_field ''r='' not_comma 128 msg = Some nonce"
    and "attr_field ''s='' not_comma 128 msg = Some salt_b64"
    and "attr_field ''i='' is_digit 16 msg = Some iter"
proof -
  have r: "strstr_pos ''r='' msg = Some 0" by (simp add: msg_def server_first_msg_def)
  show "attr_field ''r='' not_comma 128 msg = Some nonce"
    by (rule attr_field_at [of _ _ "[]" _ "'',s='' @ salt_b64 @ '',i='' @ iter"], simp add: r)
       (use n in \<open>auto simp: msg_def server_first_msg_def nonce_text_def\<close>)
  have msg1: "msg = ''r='' @ (nonce @ CHR '','' # ''s='' @ salt_b64 @ '',i='' @ iter)"
    by (simp add: msg_def server_first_msg_def)
  have neq: "CHR ''='' \<notin> set nonce" using n by (auto simp: nonce_text_def)
  have past_r: "strstr_pos [k, CHR ''=''] (''r='' @ (nonce @ CHR '','' # v)) =
      map_option ((+) (length nonce + 3)) (strstr_pos [k, CHR ''=''] v)"
    if "k \<noteq> CHR ''r''" "k \<noteq> CHR ''=''" "k \<noteq> CHR '',''" for k v
    using that strstr_pos_skip_eq [OF neq, of k v]
    by (cases "strstr_pos [k, CHR ''=''] v") auto
  have sp: "strstr_pos ''s='' msg = Some (length nonce + 3)"
    unfolding msg1 by (subst past_r) auto
  show "attr_field ''s='' not_comma 128 msg = Some salt_b64"
    by (rule attr_field_at [of _ _ "''r='' @ nonce @ '',''" _ "'',i='' @ iter"], simp add: sp)
       (use s in \<open>auto simp: msg_def server_first_msg_def salt_text_def\<close>)
  have "strstr_pos ''i='' (''s='' @ salt_b64 @ '',i='' @ iter) = Some (length salt_b64 + 3)"
    using strstr_pos_join [of "CHR ''i''" salt_b64 "''i='' @ iter"] s by (simp add: salt_text_def)
  then have ip: "strstr_pos ''i='' msg = Some (length nonce + length salt_b64 + 6)"
    unfolding msg1 by (subst past_r) auto
  show "attr_field ''i='' is_digit 16 msg = Some iter"
    by (rule attr_field_at [of _ _ "''r='' @ nonce @ '',s='' @ salt_b64 @ '',''" _ "[]"], simp add: ip)
       (use i in \<open>auto simp: msg_def server_first_msg_def\<close>)
qed

section \<open>Keys and signatures\<close>

text \<open>What a PostgreSQL server stores for a role, and the checks it makes (RFC 5802).\<close>

record verifier =
  vf_stored_key :: bytes
  vf_server_key :: bytes

definition make_verifier :: "scram_crypto \<Rightarrow> string \<Rightarrow> bytes \<Rightarrow> int \<Rightarrow> verifier option" where
  "make_verifier cr password salt iterations =
     (case cr_pbkdf2 cr password salt iterations of
        None \<Rightarrow> None
      | Some sp \<Rightarrow>
          (case (cr_hmac cr sp (str_bytes ''Client Key''), cr_hmac cr sp (str_bytes ''Server Key'')) of
             (Some ck, Some vk) \<Rightarrow>
               map_option (\<lambda>sk. \<lparr>vf_stored_key = sk, vf_server_key = vk\<rparr>) (cr_digest cr ck)
           | _ \<Rightarrow> None))"

text \<open>The server recovers the client key from the proof and compares its digest.\<close>

definition server_accepts :: "scram_crypto \<Rightarrow> verifier \<Rightarrow> string \<Rightarrow> bytes \<Rightarrow> bool" where
  "server_accepts cr vf auth_message proof =
     (case cr_hmac cr (vf_stored_key vf) (str_bytes auth_message) of
        None \<Rightarrow> False
      | Some client_sig \<Rightarrow> cr_digest cr (map2 (XOR) proof client_sig) = Some (vf_stored_key vf))"

text \<open>\<open>b64_inverse cr b\<close>: the documented behaviour of the block coders on \<open>b\<close>.\<close>

definition b64_inverse :: "scram_crypto \<Rightarrow> bytes \<Rightarrow> bool" where
  "b64_inverse cr b \<longleftrightarrow>
     (let e = cr_encode_block cr b; p = (3 - length b mod 3) mod 3 in
      length e = 4 * ((length b + 2) div 3) \<and> CHR '','' \<notin> set e \<and>
      map (\<lambda>c. c = CHR ''='') e = replicate (length e - p) False @ replicate p True \<and>
      cr_decode_block cr e = Some (b @ replicate p 0))"

lemma b64_decode_encode:
  assumes "b64_inverse cr b" "b \<noteq> []" "length b \<le> cap" "length b \<le> 64"
  shows "b64_decode cr (cr_encode_block cr b) cap = Some b"
proof -
  define e p where "e = cr_encode_block cr b" and "p = (3 - length b mod 3) mod 3"
  have e: "length e = 4 * ((length b + 2) div 3)" "cr_decode_block cr e = Some (b @ replicate p 0)"
    and pads: "map (\<lambda>c. c = CHR ''='') e = replicate (length e - p) False @ replicate p True"
    using assms(1) by (simp_all add: b64_inverse_def Let_def e_def p_def)
  have at: "e ! i = CHR ''='' \<longleftrightarrow> length e - p \<le> i" if "i < length e" for i
  proof -
    have "(e ! i = CHR ''='') = map (\<lambda>c. c = CHR ''='') e ! i" using that by simp
    then show ?thesis using that by (simp add: pads nth_append)
  qed
  have "3 \<le> length b + 2" using assms(2) by (cases b) simp_all
  then have "3 div 3 \<le> (length b + 2) div 3" by (rule div_le_mono)
  then have big: "4 \<le> length e" unfolding e(1) by simp
  have small: "length e div 4 * 3 + 3 \<le> 256" using e(1) assms(4) by simp
  have "p \<le> 2" by (simp add: p_def)
  then have pad: "(if e ! (length e - 1) = CHR ''='' then 1 else 0) +
      (if 2 \<le> length e \<and> e ! (length e - 2) = CHR ''='' then 1 else 0) = (int p)"
    using at [of "length e - 1"] at [of "length e - 2"] big by (cases p; cases "p - 1") auto
  show ?thesis
    unfolding b64_decode_def e_def [symmetric] Let_def pad e(2)
    using big small assms(3) e(1) by (auto simp: nat_diff_distrib)
qed

lemma hmac_sha256_Some: "hmac_sha256 cr k d = Some out \<longleftrightarrow> cr_hmac cr k d = Some out \<and> length out = 32"
  by (auto simp: hmac_sha256_def split: option.splits if_splits)

lemma bounded_print_Some: "bounded_print cap s = Some t \<longleftrightarrow> t = s \<and> s \<noteq> [] \<and> length s < cap"
  by (auto simp: bounded_print_def)

lemma xor_twice: "length a = length b \<Longrightarrow> map2 (XOR) (map2 (XOR) a b) b = (a :: bytes)"
  by (induction a b rule: list_induct2) (simp_all add: xor.assoc)

lemma xor_word_zero_iff: "(x XOR y = 0) = (x = (y :: byte))"
proof
  assume "x XOR y = 0"
  then have "(x XOR y) XOR y = 0 XOR y" by simp
  then show "x = y" by (simp add: xor.assoc)
qed simp

lemma or_fold_zero: "foldl (OR) z (map2 (XOR) a b) = (0 :: byte) \<longleftrightarrow> z = 0 \<and> list_all2 (=) (take (length b) a) (take (length a) b)"
proof (induction a arbitrary: z b)
  case (Cons x a)
  have zero: "(z OR w = 0) = (z = 0 \<and> w = (0 :: byte))" for z w by (rule or_eq_0_iff)
  show ?case
  proof (cases b)
    case (Cons y b')
    have "(x XOR y = 0) = (x = y)" by (rule xor_word_zero_iff)
    then show ?thesis using Cons Cons.IH [of "z OR (x XOR y)" b'] by (auto simp: zero)
  qed simp
qed simp

lemma or_fold_xor_eq: "length a = length b \<Longrightarrow> foldl (OR) 0 (map2 (XOR) a b) = (0 :: byte) \<longleftrightarrow> a = b"
  by (simp add: or_fold_zero list_all2_eq [symmetric])

text \<open>What a successful \<open>scram_handle_server_first\<close> has computed.\<close>

lemma handle_server_first_Some:
  assumes "scram_handle_server_first cr s msg password = Some s'"
  obtains nonce salt_b64 salt iter sp ck sk vk where
    "attr_field ''r='' not_comma 128 msg = Some nonce" "prefix (sc_client_nonce s) nonce"
    "attr_field ''s='' not_comma 128 msg = Some salt_b64" "b64_decode cr salt_b64 64 = Some salt"
    "attr_field ''i='' is_digit 16 msg = Some iter"
    "pbkdf2_sha256 cr password salt (nat (dec_value 0 iter) mod 4294967296) = Some sp"
    "hmac_sha256 cr sp (str_bytes ''Client Key'') = Some ck" "cr_digest cr ck = Some sk"
    "hmac_sha256 cr sp (str_bytes ''Server Key'') = Some vk"
    "sc_client_key s' = ck" "sc_stored_key s' = sk" "sc_server_key s' = vk" "sc_server_nonce s' = nonce"
    "sc_auth_message s' = sc_client_first_bare s @ '','' @ msg @ '',c=biws,r='' @ nonce"
  using assms
  by (auto simp: scram_handle_server_first_def scram_keys_def scram_auth_message_def bounded_print_Some Let_def
      split: option.splits if_splits)

lemma client_final_Some:
  assumes "scram_client_final cr s cap = Some (out, s')"
  obtains client_sig where
    "hmac_sha256 cr (sc_stored_key s) (str_bytes (sc_auth_message s)) = Some client_sig"
    "out = ''c=biws,r='' @ sc_server_nonce s @ '',p='' @ cr_encode_block cr (map2 (XOR) (sc_client_key s) client_sig)"
    "s' = s\<lparr>sc_step := 2\<rparr>" "length out < cap"
  using assms
  by (auto simp: scram_client_final_def b64_encode_def bounded_print_Some Let_def split: option.splits if_splits)

lemma verify_server_final_OK:
  "scram_verify_server_final cr s msg = OK \<longleftrightarrow>
    (\<exists>v sig. attr_field ''v='' not_comma 128 msg = Some v \<and> b64_decode cr v 32 = Some sig \<and>
       cr_hmac cr (sc_server_key s) (str_bytes (sc_auth_message s)) = Some sig \<and> length sig = 32)"
  by (auto simp: scram_verify_server_final_def or_fold_xor_eq hmac_sha256_Some split: option.splits if_splits)
    (auto simp: hmac_sha256_def or_fold_xor_eq split: option.splits if_splits)

lemma genuine_signature_verifies:
  assumes "cr_hmac cr (sc_server_key s) (str_bytes (sc_auth_message s)) = Some sig" "length sig = 32" "b64_inverse cr sig"
  shows "scram_verify_server_final cr s (''v='' @ cr_encode_block cr sig) = OK"
proof -
  let ?e = "cr_encode_block cr sig"
  have "CHR '','' \<notin> set ?e" "length ?e = 44" using assms(2,3) by (simp_all add: b64_inverse_def Let_def)
  then have "attr_field ''v='' not_comma 128 (''v='' @ ?e) = Some ?e"
    by (intro attr_field_at [of _ _ "[]" _ "[]"]) auto
  moreover have "b64_decode cr ?e 32 = Some sig"
    using assms by (intro b64_decode_encode) auto
  ultimately show ?thesis using assms by (auto simp: verify_server_final_OK)
qed

section \<open>Properties\<close>

text \<open>The user name that enters the SCRAM exchange is safe: whatever \<open>copy_user\<close> accepts,
  the copy fits its array, has no comma (which would end the attribute), and a server that
  undoes the escapes reads a prefix of the given name without control characters. A name of
  printable characters whose escaped form fits is taken whole.\<close>

theorem copy_user_escapes:
  "(copy_user sz user = Some d \<longrightarrow> length d < sz \<and> CHR '','' \<notin> set d \<and> prefix (scram_unescape d) user \<and>
      d = scram_escape (scram_unescape d) \<and>
      (\<forall>c \<in> set (scram_unescape d). 32 \<le> code_of c \<and> code_of c \<noteq> 127)) \<and>
   (user \<noteq> [] \<and> (\<forall>c \<in> set user. 32 \<le> code_of c \<and> code_of c \<noteq> 127) \<and> length (scram_escape user) < sz \<longrightarrow>
      copy_user sz user = Some (scram_escape user))"
  using copy_user_loop_Some [of sz "[]" user d] copy_user_loop_fits [of "[]" user sz]
  by (auto simp: copy_user_def scram_unescape_escape scram_escape_no_comma)

text \<open>The first client message never overflows: for every user name that \<open>scram_init\<close>
  accepts, the messages fit the buffers of the pool (320 and 288 bytes), the bare form is stored
  untruncated, and both have the form of RFC 5802 with a nonce of 24 characters.\<close>

theorem client_first_fits:
  assumes "scram_init raw user = Some s"
  shows "\<exists>s'. scram_client_first s 320 288 =
      Some (''n,,n='' @ sc_username s @ '',r='' @ sc_client_nonce s, ''n='' @ sc_username s @ '',r='' @ sc_client_nonce s, s') \<and>
    sc_client_first_bare s' = ''n='' @ sc_username s @ '',r='' @ sc_client_nonce s \<and>
    length (sc_client_nonce s) = 24 \<and> set (sc_client_nonce s) \<subseteq> set hex_digits"
proof -
  from assms obtain u where u: "copy_user 128 user = Some u"
    and s: "s = scram_zero\<lparr>sc_username := u, sc_client_nonce := nonce_hex raw 24, sc_step := 0\<rparr>"
    by (auto simp: scram_init_def split: option.splits)
  from u have len: "length u < 128"
    using copy_user_loop_Some [of 128 "[]" user u] by (auto simp: copy_user_def split: if_splits)
  have "hex_digits ! (k mod 36) \<in> set hex_digits" for k
    by (rule nth_mem) (simp add: hex_digits_def)
  then have n: "length (nonce_hex raw 24) = 24" "set (nonce_hex raw 24) \<subseteq> set hex_digits"
    by (auto simp: nonce_hex_def simp del: mod_less split: option.splits)
  show ?thesis
    using len n by (simp add: s scram_client_first_def bounded_print_def strncpy_arr_def)
qed

text \<open>C16. Mutual authentication succeeds against a server of RFC 5802 that stores the verifier of
  the same password: the proof in the client-final message is one the server accepts, over the
  authentication message both sides build from the three messages, and the client accepts the
  signature that this server sends back.\<close>

theorem scram_mutual_authentication:
  assumes server: "make_verifier cr password salt iterations = Some vf"
    and msg: "msg = server_first_msg nonce (cr_encode_block cr salt) iter"
    and wf: "nonce_text nonce" "salt_text (cr_encode_block cr salt)" "iter \<noteq> '''' \<and> (\<forall>c \<in> set iter. is_digit c) \<and> length iter < 16"
    and iters: "dec_value 0 iter = iterations" "iterations < 2147483648"
    and salt: "salt \<noteq> []" "length salt \<le> 64" "b64_inverse cr salt"
    and first: "scram_handle_server_first cr s msg password = Some s1"
    and final: "scram_client_final cr s1 cap = Some (out, s2)"
  shows "\<exists>proof. prefix (sc_client_nonce s) nonce \<and>
    out = ''c=biws,r='' @ nonce @ '',p='' @ cr_encode_block cr proof \<and>
    sc_auth_message s1 = sc_client_first_bare s @ '','' @ msg @ '',c=biws,r='' @ nonce \<and>
    server_accepts cr vf (sc_auth_message s1) proof \<and>
    (\<forall>sig. cr_hmac cr (vf_server_key vf) (str_bytes (sc_auth_message s1)) = Some sig \<and> length sig = 32 \<and>
      b64_inverse cr sig \<longrightarrow> scram_verify_server_final cr s2 (''v='' @ cr_encode_block cr sig) = OK)"
proof -
  note fields = server_first_fields [OF wf(1,2), of iter, folded msg]
  obtain n b sa it sp ck sk vk where h:
    "attr_field ''r='' not_comma 128 msg = Some n" "prefix (sc_client_nonce s) n"
    "attr_field ''s='' not_comma 128 msg = Some b" "b64_decode cr b 64 = Some sa"
    "attr_field ''i='' is_digit 16 msg = Some it"
    "pbkdf2_sha256 cr password sa (nat (dec_value 0 it) mod 4294967296) = Some sp"
    "hmac_sha256 cr sp (str_bytes ''Client Key'') = Some ck" "cr_digest cr ck = Some sk"
    "hmac_sha256 cr sp (str_bytes ''Server Key'') = Some vk"
    and st: "sc_client_key s1 = ck" "sc_stored_key s1 = sk" "sc_server_key s1 = vk" "sc_server_nonce s1 = n"
    "sc_auth_message s1 = sc_client_first_bare s @ '','' @ msg @ '',c=biws,r='' @ n"
    by (rule handle_server_first_Some [OF first])
  have eqs: "n = nonce" "b = cr_encode_block cr salt" "it = iter" using h(1,3,5) fields wf(3) by simp_all
  then have "sa = salt" using h(4) b64_decode_encode [OF salt(3,1,2,2)] by simp
  then have keys: "pbkdf2_sha256 cr password salt (nat (dec_value 0 iter) mod 4294967296) = Some sp"
      "cr_hmac cr sp (str_bytes ''Client Key'') = Some ck" "length ck = 32" "cr_digest cr ck = Some sk"
      "cr_hmac cr sp (str_bytes ''Server Key'') = Some vk"
    and pre: "prefix (sc_client_nonce s) nonce"
    using h eqs by (simp_all add: hmac_sha256_Some)
  note st = st [unfolded eqs(1)]
  from client_final_Some [OF final] obtain csig where csig:
    "cr_hmac cr sk (str_bytes (sc_auth_message s1)) = Some csig" "length csig = 32"
    "out = ''c=biws,r='' @ nonce @ '',p='' @ cr_encode_block cr (map2 (XOR) ck csig)" "s2 = s1\<lparr>sc_step := 2\<rparr>"
    using st by (auto simp: hmac_sha256_Some)
  have "0 \<le> iterations" using dec_value_nonneg [of 0 iter] wf(3) iters(1) by simp
  then have "to_int32 (int (nat (dec_value 0 iter) mod 4294967296)) = iterations"
    using iters by (simp add: nat_mod_distrib [symmetric])
  then have vf: "vf = \<lparr>vf_stored_key = sk, vf_server_key = vk\<rparr>"
    using server keys by (simp add: make_verifier_def pbkdf2_sha256_def)
  have acc: "server_accepts cr vf (sc_auth_message s1) (map2 (XOR) ck csig)"
    using csig(1,2) keys(3,4) by (simp add: server_accepts_def vf xor_twice)
  have ver: "scram_verify_server_final cr s2 (''v='' @ cr_encode_block cr sig) = OK"
    if "cr_hmac cr vk (str_bytes (sc_auth_message s1)) = Some sig" "length sig = 32" "b64_inverse cr sig" for sig
    using that st csig(4) by (intro genuine_signature_verifies) simp_all
  show ?thesis using pre csig(3) st(5) acc ver by (intro exI [of _ "map2 (XOR) ck csig"]) (auto simp: vf)
qed

text \<open>C17. The client accepts a server-final message exactly when the decoded signature is the
  32-byte HMAC of the authentication message under the server key derived from the password: the
  byte-wise comparison without early exit decides equality.\<close>

theorem verify_server_final_sound:
  "scram_verify_server_final cr s msg = OK \<longleftrightarrow>
    (\<exists>v sig. attr_field ''v='' not_comma 128 msg = Some v \<and> b64_decode cr v 32 = Some sig \<and>
       cr_hmac cr (sc_server_key s) (str_bytes (sc_auth_message s)) = Some sig \<and> length sig = 32)"
  by (rule verify_server_final_OK)

section \<open>Witnesses\<close>

theorem copy_user_escapes_witness:
  "copy_user 128 ''a=b,c'' = Some ''a=3Db=2Cc'' \<and> copy_user 4 ''abcdef'' = Some ''abc'' \<and> scram_unescape ''abc'' = ''abc''"
proof -
  have "copy_user 128 ''a=b,c'' = Some (scram_escape ''a=b,c'')"
    using copy_user_escapes [of 128 "''a=b,c''"] by (simp add: code_of_def)
  moreover have "copy_user 4 ''abcdef'' = Some ''abc''" by (simp add: copy_user_def code_of_def)
  moreover have "scram_unescape ''abc'' = ''abc''" by simp
  ultimately show ?thesis by simp
qed

theorem client_first_fits_witness:
  "\<exists>s s'. scram_init None ''alice'' = Some s \<and> scram_client_first s 320 288 =
     Some (''n,,n=alice,r=0123456789abcdefghijklmn'', ''n=alice,r=0123456789abcdefghijklmn'', s')"
proof -
  have n: "nonce_hex None 24 = ''0123456789abcdefghijklmn''" by code_simp
  have u: "copy_user 128 ''alice'' = Some ''alice''" by (simp add: copy_user_def code_of_def)
  obtain s where s: "scram_init None ''alice'' = Some s" "sc_username s = ''alice''"
      "sc_client_nonce s = ''0123456789abcdefghijklmn''"
    by (simp add: scram_init_def u n)
  from client_first_fits [OF s(1)] s show ?thesis by fastforce
qed

text \<open>Base64 over the natural numbers, and a stand-in for the keyed functions.\<close>

definition demo_b64 :: string where
  "demo_b64 = ''ABCDEFGHIJKLMNOPQRSTUVWXYZabcdefghijklmnopqrstuvwxyz0123456789+/''"

fun demo_encode :: "bytes \<Rightarrow> string" where
  "demo_encode [] = []"
| "demo_encode [a] = (let n = unat a * 16 in [demo_b64 ! (n div 64), demo_b64 ! (n mod 64), CHR ''='', CHR ''=''])"
| "demo_encode [a, b] = (let n = (unat a * 256 + unat b) * 4 in
     [demo_b64 ! (n div 4096), demo_b64 ! (n div 64 mod 64), demo_b64 ! (n mod 64), CHR ''=''])"
| "demo_encode (a # b # c # r) = (let n = unat a * 65536 + unat b * 256 + unat c in
     [demo_b64 ! (n div 262144), demo_b64 ! (n div 4096 mod 64), demo_b64 ! (n div 64 mod 64), demo_b64 ! (n mod 64)]
       @ demo_encode r)"

definition demo_value :: "char \<Rightarrow> nat" where
  "demo_value c = (if c = CHR ''='' then 0 else length (takeWhile (\<lambda>d. d \<noteq> c) demo_b64))"

fun demo_decode :: "string \<Rightarrow> bytes" where
  "demo_decode (a # b # c # d # r) =
     (let n = demo_value a * 262144 + demo_value b * 4096 + demo_value c * 64 + demo_value d in
      [word_of_nat (n div 65536), word_of_nat (n div 256 mod 256), word_of_nat (n mod 256)] @ demo_decode r)"
| "demo_decode _ = []"

definition demo_crypto :: scram_crypto where
  "demo_crypto = \<lparr>cr_encode_block = demo_encode, cr_decode_block = (\<lambda>s. Some (demo_decode s)),
     cr_hmac = (\<lambda>k d. Some (replicate 32 (word_of_nat (length k + length d)))),
     cr_pbkdf2 = (\<lambda>p s i. Some (replicate 32 (word_of_nat (length p + length s)))),
     cr_digest = (\<lambda>d. Some d)\<rparr>"

definition demo_scram :: scram where
  "demo_scram = scram_zero\<lparr>sc_username := ''alice'', sc_client_nonce := ''abc'',
     sc_client_first_bare := ''n=alice,r=abc'', sc_step := 1\<rparr>"

definition demo_first :: string where
  "demo_first = server_first_msg ''abcXYZ'' (demo_encode [1, 2, 3, 4]) ''4096''"

lemma length_demo_encode: "length (demo_encode b) = 4 * ((length b + 2) div 3)"
proof (induction b rule: demo_encode.induct)
  case (4 a b c r)
  have "(length (a # b # c # r) + 2) div 3 = Suc ((length r + 2) div 3)" by simp
  with 4 show ?case by (simp add: Let_def del: div_add1_eq)
qed (simp_all add: Let_def)

lemma demo_salt: "demo_encode [1, 2, 3, 4] = ''AQIDBA==''" "demo_decode ''AQIDBA=='' = [1, 2, 3, 4, 0, 0]"
  by (simp_all add: Let_def demo_b64_def demo_value_def)

lemma demo_side:
  "nonce_text ''abcXYZ''" "salt_text (cr_encode_block demo_crypto [1, 2, 3, 4])"
  "b64_inverse demo_crypto [1, 2, 3, 4]" "dec_value 0 ''4096'' = 4096" "\<forall>c \<in> set ''4096''. is_digit c"
  "make_verifier demo_crypto ''pw'' [1, 2, 3, 4] 4096 =
     Some \<lparr>vf_stored_key = replicate 32 42, vf_server_key = replicate 32 42\<rparr>"
proof -
  show "nonce_text ''abcXYZ''" by (simp add: nonce_text_def)
  show "salt_text (cr_encode_block demo_crypto [1, 2, 3, 4])"
    unfolding demo_crypto_def scram_crypto.simps demo_salt by (simp add: salt_text_def)
  have rep: "replicate 6 False = [False, False, False, False, False, False]" "replicate 2 x = [x, x]" for x :: 'a
    by (simp_all add: numeral_eq_Suc)
  show "b64_inverse demo_crypto [1, 2, 3, 4]"
    unfolding b64_inverse_def demo_crypto_def scram_crypto.simps demo_salt Let_def
    by (simp add: demo_salt rep)
  show "dec_value 0 ''4096'' = 4096" "\<forall>c \<in> set ''4096''. is_digit c"
    by (simp_all add: digit_val_def code_of_def is_digit_def)
  show "make_verifier demo_crypto ''pw'' [1, 2, 3, 4] 4096 =
     Some \<lparr>vf_stored_key = replicate 32 42, vf_server_key = replicate 32 42\<rparr>"
    by (simp add: make_verifier_def demo_crypto_def str_bytes_def)
qed

lemma demo_run:
  "case scram_handle_server_first demo_crypto demo_scram demo_first ''pw'' of
     None \<Rightarrow> False
   | Some s1 \<Rightarrow> scram_client_final demo_crypto s1 512 \<noteq> None"
proof -
  have f: "demo_first = server_first_msg ''abcXYZ'' ''AQIDBA=='' ''4096''"
    unfolding demo_first_def demo_salt ..
  have "salt_text ''AQIDBA==''" using demo_side(2) unfolding demo_crypto_def scram_crypto.simps demo_salt .
  note fields = server_first_fields [OF demo_side(1) this demo_side(5), folded f]
  have "b64_decode demo_crypto ''AQIDBA=='' 64 = Some [1, 2, 3, 4]"
    unfolding b64_decode_def demo_crypto_def scram_crypto.simps demo_salt Let_def by simp
  moreover have "length demo_first < 40" by (simp add: f server_first_msg_def)
  ultimately show ?thesis
    using fields
    by (simp add: scram_handle_server_first_def demo_side(4) demo_scram_def scram_zero_def scram_keys_def
        pbkdf2_sha256_def hmac_sha256_def demo_crypto_def scram_auth_message_def bounded_print_def
        scram_client_final_def b64_encode_def length_demo_encode Let_def)
qed

theorem scram_mutual_authentication_witness:
  "\<exists>s1 out s2. scram_handle_server_first demo_crypto demo_scram demo_first ''pw'' = Some s1 \<and>
    scram_client_final demo_crypto s1 512 = Some (out, s2) \<and>
    (\<exists>proof. out = ''c=biws,r=abcXYZ,p='' @ demo_encode proof \<and>
      server_accepts demo_crypto \<lparr>vf_stored_key = replicate 32 42, vf_server_key = replicate 32 42\<rparr>
        (sc_auth_message s1) proof)"
proof -
  from demo_run obtain s1 out s2 where
    r: "scram_handle_server_first demo_crypto demo_scram demo_first ''pw'' = Some s1"
    "scram_client_final demo_crypto s1 512 = Some (out, s2)"
    by (auto split: option.splits)
  have enc: "cr_encode_block demo_crypto = demo_encode" by (simp add: demo_crypto_def)
  have m: "demo_first = server_first_msg ''abcXYZ'' (cr_encode_block demo_crypto [1, 2, 3, 4]) ''4096''"
    by (simp add: demo_first_def enc)
  from scram_mutual_authentication [OF demo_side(6) m demo_side(1,2) _ demo_side(4) _ _ _ demo_side(3) r]
    demo_side(5) r show ?thesis by (fastforce simp: enc)
qed

end
