(* ===== verification/Metrics.thy ===== *)
theory Metrics
  imports C_Strings
begin

text \<open>
  The process-wide counters (src/metrics.c) and the /metrics responder (src/metrics_http.c).
  Counters are 64-bit words and wrap. The text formats are built as strings; \<open>snprintf\<close>
  into a buffer of \<open>n\<close> bytes keeps the first \<open>n - 1\<close> characters. Here is the answer of the
  HTTP thread to one request; its loop is in \<open>Metrics_Http\<close>.
\<close>

section \<open>Counters\<close>

type_synonym u64 = "64 word"

record metrics =
  m_accepts :: u64
  m_frontend_closes :: u64
  m_backend_pipelines_ok :: u64
  m_backend_pipelines_fail :: u64
  m_fe_queue_enqueued :: u64
  m_fe_queue_full :: u64
  m_fe_queue_high_water :: u64
  m_reconnects :: u64
  m_maintain_ticks :: u64
  m_maintain_rewarmed :: u64
  m_backend_wait_ns_total :: u64
  m_backend_wait_samples :: u64
  m_backend_wait_ns_max :: u64
  m_fair_waits :: u64
  m_fair_schedules :: u64
  m_live_backends :: u64
  m_active_frontends :: u64
  m_pool_waiters :: u64

definition metrics_zero :: metrics where
  "metrics_zero = \<lparr>m_accepts = 0, m_frontend_closes = 0, m_backend_pipelines_ok = 0,
     m_backend_pipelines_fail = 0, m_fe_queue_enqueued = 0, m_fe_queue_full = 0,
     m_fe_queue_high_water = 0, m_reconnects = 0, m_maintain_ticks = 0, m_maintain_rewarmed = 0,
     m_backend_wait_ns_total = 0, m_backend_wait_samples = 0, m_backend_wait_ns_max = 0,
     m_fair_waits = 0, m_fair_schedules = 0, m_live_backends = 0, m_active_frontends = 0,
     m_pool_waiters = 0\<rparr>"

definition metrics_inc_accepts :: "metrics \<Rightarrow> metrics" where
  "metrics_inc_accepts m = m\<lparr>m_accepts := m_accepts m + 1\<rparr>"

definition metrics_inc_closes :: "metrics \<Rightarrow> metrics" where
  "metrics_inc_closes m = m\<lparr>m_frontend_closes := m_frontend_closes m + 1\<rparr>"

definition metrics_inc_be_ok :: "metrics \<Rightarrow> metrics" where
  "metrics_inc_be_ok m = m\<lparr>m_backend_pipelines_ok := m_backend_pipelines_ok m + 1\<rparr>"

definition metrics_inc_be_fail :: "metrics \<Rightarrow> metrics" where
  "metrics_inc_be_fail m = m\<lparr>m_backend_pipelines_fail := m_backend_pipelines_fail m + 1\<rparr>"

definition metrics_inc_fe_q_enq :: "metrics \<Rightarrow> metrics" where
  "metrics_inc_fe_q_enq m = m\<lparr>m_fe_queue_enqueued := m_fe_queue_enqueued m + 1\<rparr>"

definition metrics_inc_fe_q_full :: "metrics \<Rightarrow> metrics" where
  "metrics_inc_fe_q_full m = m\<lparr>m_fe_queue_full := m_fe_queue_full m + 1\<rparr>"

definition metrics_note_fe_q_depth :: "nat \<Rightarrow> metrics \<Rightarrow> metrics" where
  "metrics_note_fe_q_depth depth m =
     (if (word_of_nat depth :: u64) > m_fe_queue_high_water m
      then m\<lparr>m_fe_queue_high_water := word_of_nat depth\<rparr> else m)"

definition metrics_inc_reconnects :: "nat \<Rightarrow> metrics \<Rightarrow> metrics" where
  "metrics_inc_reconnects n m = m\<lparr>m_reconnects := m_reconnects m + word_of_nat n\<rparr>"

definition metrics_inc_maintain :: "nat \<Rightarrow> metrics \<Rightarrow> metrics" where
  "metrics_inc_maintain rewarmed m =
     m\<lparr>m_maintain_ticks := m_maintain_ticks m + 1,
       m_maintain_rewarmed := m_maintain_rewarmed m + word_of_nat rewarmed\<rparr>"

definition metrics_note_backend_wait_ns :: "u64 \<Rightarrow> metrics \<Rightarrow> metrics" where
  "metrics_note_backend_wait_ns ns m =
     (let m1 = m\<lparr>m_backend_wait_ns_total := m_backend_wait_ns_total m + ns,
                 m_backend_wait_samples := m_backend_wait_samples m + 1\<rparr>
      in if ns > m_backend_wait_ns_max m1 then m1\<lparr>m_backend_wait_ns_max := ns\<rparr> else m1)"

definition metrics_inc_fair_waits :: "metrics \<Rightarrow> metrics" where
  "metrics_inc_fair_waits m = m\<lparr>m_fair_waits := m_fair_waits m + 1\<rparr>"

definition metrics_inc_fair_schedules :: "metrics \<Rightarrow> metrics" where
  "metrics_inc_fair_schedules m = m\<lparr>m_fair_schedules := m_fair_schedules m + 1\<rparr>"

definition metrics_set_gauges :: "nat \<Rightarrow> nat \<Rightarrow> metrics \<Rightarrow> metrics" where
  "metrics_set_gauges live_be active_fe m =
     m\<lparr>m_live_backends := word_of_nat live_be, m_active_frontends := word_of_nat active_fe\<rparr>"

definition metrics_set_pool_waiters :: "nat \<Rightarrow> metrics \<Rightarrow> metrics" where
  "metrics_set_pool_waiters n m = m\<lparr>m_pool_waiters := word_of_nat n\<rparr>"

section \<open>Formats\<close>

definition digit_char :: "nat \<Rightarrow> char" where
  "digit_char d = char_of (48 + d)"

fun show_nat :: "nat \<Rightarrow> string" where
  "show_nat n = (if n < 10 then [digit_char n] else show_nat (n div 10) @ [digit_char (n mod 10)])"

declare show_nat.simps [simp del]

abbreviation (input) show_u64 :: "u64 \<Rightarrow> string" where
  "show_u64 w \<equiv> show_nat (unat w)"

definition snprintf :: "nat \<Rightarrow> string \<Rightarrow> string" where
  "snprintf out_len s = take (out_len - 1) s"

definition avg_us :: "metrics \<Rightarrow> u64" where
  "avg_us m = (if m_backend_wait_samples m > 0
     then (m_backend_wait_ns_total m div m_backend_wait_samples m) div 1000 else 0)"

definition metrics_line :: "metrics \<Rightarrow> string" where
  "metrics_line m =
     ''pqproxy_metrics accepts='' @ show_u64 (m_accepts m) @ '' closes='' @ show_u64 (m_frontend_closes m) @
     '' be_ok='' @ show_u64 (m_backend_pipelines_ok m) @ '' be_fail='' @ show_u64 (m_backend_pipelines_fail m) @
     '' be_wait_us_avg='' @ show_u64 (avg_us m) @ '' be_wait_us_max='' @ show_u64 (m_backend_wait_ns_max m div 1000) @
     '' fe_q_enq='' @ show_u64 (m_fe_queue_enqueued m) @ '' fe_q_full='' @ show_u64 (m_fe_queue_full m) @
     '' fe_q_hwm='' @ show_u64 (m_fe_queue_high_water m) @
     '' reconnects='' @ show_u64 (m_reconnects m) @ '' maintain_ticks='' @ show_u64 (m_maintain_ticks m) @
     '' rewarmed='' @ show_u64 (m_maintain_rewarmed m) @
     '' fair_waits='' @ show_u64 (m_fair_waits m) @ '' fair_sched='' @ show_u64 (m_fair_schedules m) @
     '' pool_waiters='' @ show_u64 (m_pool_waiters m) @
     '' live_be='' @ show_u64 (m_live_backends m) @ '' active_fe='' @ show_u64 (m_active_frontends m)"

definition metrics_format :: "metrics \<Rightarrow> nat \<Rightarrow> string" where
  "metrics_format m out_len = snprintf out_len (metrics_line m)"

definition json_field :: "string \<Rightarrow> u64 \<Rightarrow> string" where
  "json_field key v = CHR 0x22 # key @ CHR 0x22 # CHR '':'' # show_u64 v"

definition metrics_json :: "metrics \<Rightarrow> string" where
  "metrics_json m =
     CHR ''{'' # CHR 0x22 # ''event'' @ CHR 0x22 # CHR '':'' # CHR 0x22 # ''metrics'' @ CHR 0x22 # '','' @
     json_field ''accepts'' (m_accepts m) @ '','' @ json_field ''closes'' (m_frontend_closes m) @ '','' @
     json_field ''be_ok'' (m_backend_pipelines_ok m) @ '','' @ json_field ''be_fail'' (m_backend_pipelines_fail m) @ '','' @
     json_field ''be_wait_us_avg'' (avg_us m) @ '','' @ json_field ''be_wait_us_max'' (m_backend_wait_ns_max m div 1000) @ '','' @
     json_field ''fe_q_enq'' (m_fe_queue_enqueued m) @ '','' @ json_field ''fe_q_full'' (m_fe_queue_full m) @ '','' @
     json_field ''fe_q_hwm'' (m_fe_queue_high_water m) @ '','' @
     json_field ''reconnects'' (m_reconnects m) @ '','' @ json_field ''maintain_ticks'' (m_maintain_ticks m) @ '','' @
     json_field ''rewarmed'' (m_maintain_rewarmed m) @ '','' @
     json_field ''fair_waits'' (m_fair_waits m) @ '','' @ json_field ''fair_sched'' (m_fair_schedules m) @ '','' @
     json_field ''pool_waiters'' (m_pool_waiters m) @ '','' @ json_field ''live_be'' (m_live_backends m) @ '','' @
     json_field ''active_fe'' (m_active_frontends m) @ ''}''"

definition metrics_format_json :: "metrics \<Rightarrow> nat \<Rightarrow> string" where
  "metrics_format_json m out_len = snprintf out_len (metrics_json m)"

section \<open>The Prometheus text and the HTTP answer\<close>

abbreviation (input) NL :: string where "NL \<equiv> [CHR 0x0A]"
abbreviation (input) CRLF :: string where "CRLF \<equiv> [CHR 0x0D, CHR 0x0A]"

text \<open>The three lines of one metric.\<close>

definition prom_metric :: "string \<Rightarrow> string \<Rightarrow> string \<Rightarrow> u64 \<Rightarrow> string" where
  "prom_metric name help kind v =
     ''# HELP pqproxy_'' @ name @ '' '' @ help @ NL @
     ''# TYPE pqproxy_'' @ name @ '' '' @ kind @ NL @
     ''pqproxy_'' @ name @ '' '' @ show_u64 v @ NL"

definition prometheus_text :: "metrics \<Rightarrow> string" where
  "prometheus_text m =
     prom_metric ''accepts_total'' ''Frontend connections accepted'' ''counter'' (m_accepts m) @
     prom_metric ''frontend_closes_total'' ''Frontend connections closed'' ''counter'' (m_frontend_closes m) @
     prom_metric ''backend_pipelines_ok_total'' ''Successful backend pipelines'' ''counter'' (m_backend_pipelines_ok m) @
     prom_metric ''backend_pipelines_fail_total'' ''Failed backend pipelines'' ''counter'' (m_backend_pipelines_fail m) @
     prom_metric ''backend_wait_microseconds_avg'' ''Average backend pipeline wait'' ''gauge'' (avg_us m) @
     prom_metric ''backend_wait_microseconds_max'' ''Max backend pipeline wait'' ''gauge'' (m_backend_wait_ns_max m div 1000) @
     prom_metric ''fe_queue_enqueued_total'' ''Frontend queue enqueues'' ''counter'' (m_fe_queue_enqueued m) @
     prom_metric ''fe_queue_full_total'' ''Frontend queue full events'' ''counter'' (m_fe_queue_full m) @
     prom_metric ''fe_queue_high_water'' ''Max observed frontend queue depth'' ''gauge'' (m_fe_queue_high_water m) @
     prom_metric ''reconnects_total'' ''Successful backend reconnects'' ''counter'' (m_reconnects m) @
     prom_metric ''maintain_ticks_total'' ''Pool maintain ticks'' ''counter'' (m_maintain_ticks m) @
     prom_metric ''maintain_rewarmed_total'' ''Backends re-warmed by maintain'' ''counter'' (m_maintain_rewarmed m) @
     prom_metric ''fair_waits_total'' ''Frontends parked waiting for backend'' ''counter'' (m_fair_waits m) @
     prom_metric ''fair_schedules_total'' ''Waiters granted a backend (RR)'' ''counter'' (m_fair_schedules m) @
     prom_metric ''pool_waiters'' ''Frontends currently waiting for a backend'' ''gauge'' (m_pool_waiters m) @
     prom_metric ''live_backends'' ''Live backend connections'' ''gauge'' (m_live_backends m) @
     prom_metric ''active_frontends'' ''Active frontend connections'' ''gauge'' (m_active_frontends m)"

text \<open>The number of bytes and the buffer; \<open>None\<close> for -1.\<close>

definition prometheus_format :: "metrics \<Rightarrow> nat \<Rightarrow> string option" where
  "prometheus_format m out_len =
     (if out_len < 64 then None
      else
        (let s = prometheus_text m in if length s \<ge> out_len then None else Some s))"

definition http_ok_header :: "nat \<Rightarrow> string" where
  "http_ok_header blen =
     ''HTTP/1.1 200 OK'' @ CRLF @ ''Content-Type: text/plain; version=0.0.4; charset=utf-8'' @ CRLF @
     ''Content-Length: '' @ show_nat blen @ CRLF @ ''Connection: close'' @ CRLF @ CRLF"

text \<open>What the thread writes for the bytes it read: a NUL ends the request text.\<close>

definition metrics_http_respond :: "metrics \<Rightarrow> string \<Rightarrow> string" where
  "metrics_http_respond m req_bytes =
     (let req = cstr req_bytes in
      if prefix ''GET /metrics'' req \<or> prefix ''GET /metrics '' req then
        (case prometheus_format m 6144 of
           None \<Rightarrow> ''HTTP/1.1 500 Internal Server Error'' @ CRLF @ ''Connection: close'' @ CRLF @ CRLF
         | Some body \<Rightarrow>
             (let h = snprintf 6656 (http_ok_header (length body)); hn = length (http_ok_header (length body)) in
              if hn > 0 \<and> hn + length body < 6656 then h @ body else []))
      else if prefix ''GET /health'' req \<or> prefix ''GET /healthz'' req then
        ''HTTP/1.1 200 OK'' @ CRLF @ ''Content-Type: text/plain'' @ CRLF @
        ''Content-Length: 3'' @ CRLF @ ''Connection: close'' @ CRLF @ CRLF @ ''ok'' @ NL
      else
        ''HTTP/1.1 404 Not Found'' @ CRLF @ ''Content-Length: 10'' @ CRLF @
        ''Connection: close'' @ CRLF @ CRLF @ ''not found'' @ NL)"

section \<open>Lemmas\<close>

lemma show_nat_digits: "\<forall>c \<in> set (show_nat n). is_digit c"
proof (induction n rule: show_nat.induct)
  case (1 n)
  have "is_digit (digit_char d)" if "d < 10" for d
    using that by (simp add: is_digit_def digit_char_def code_of_def)
  with 1 show ?case by (subst show_nat.simps) auto
qed

lemma dec_value_snoc: "dec_value acc (ds @ [d]) = dec_value acc ds * 10 + digit_val d"
  by (induction ds arbitrary: acc) auto

lemma dec_value_show_nat: "dec_value 0 (show_nat n) = int n"
proof (induction n rule: show_nat.induct)
  case (1 n)
  have d: "digit_val (digit_char d) = int d" if "d < 10" for d
    using that by (simp add: digit_val_def digit_char_def code_of_def)
  show ?case
  proof (cases "n < 10")
    case True
    then show ?thesis by (subst show_nat.simps) (simp add: d)
  next
    case False
    have "int (n div 10) * 10 + int (n mod 10) = int n"
      by (metis div_mult_mod_eq of_nat_add of_nat_mult of_nat_numeral)
    with False 1 show ?thesis by (subst show_nat.simps) (simp add: dec_value_snoc d)
  qed
qed

lemma length_show_nat: "n < 10 ^ k \<Longrightarrow> 0 < k \<Longrightarrow> length (show_nat n) \<le> k"
proof (induction n arbitrary: k rule: show_nat.induct)
  case (1 n)
  show ?case
  proof (cases "n < 10")
    case True
    with 1(3) show ?thesis by (subst show_nat.simps) simp
  next
    case False
    with 1(2) have k1: "k \<noteq> 1" by auto
    obtain j where j: "k = Suc j" using 1(3) by (cases k) auto
    with k1 have "0 < j" by simp
    note j = j this
    with 1(2) have "n div 10 < 10 ^ j" by (simp add: less_mult_imp_div_less mult.commute)
    with 1(1) [OF False, of j] j False show ?thesis by (subst show_nat.simps) simp
  qed
qed

lemma length_show_u64: "length (show_u64 w) \<le> 20"
proof (rule length_show_nat)
  have "unat w < 2 ^ 64" by (rule order_less_le_trans [OF unsigned_less]) simp
  then show "unat w < 10 ^ 20" by simp
qed simp

lemma show_nat_nonempty [simp]: "show_nat n \<noteq> []"
  by (subst show_nat.simps) simp

lemmas length_counters =
  length_show_u64 [of "m_accepts m" for m] length_show_u64 [of "m_frontend_closes m" for m]
  length_show_u64 [of "m_backend_pipelines_ok m" for m] length_show_u64 [of "m_backend_pipelines_fail m" for m]
  length_show_u64 [of "avg_us m" for m] length_show_u64 [of "m_backend_wait_ns_max m div 1000" for m]
  length_show_u64 [of "m_fe_queue_enqueued m" for m] length_show_u64 [of "m_fe_queue_full m" for m]
  length_show_u64 [of "m_fe_queue_high_water m" for m] length_show_u64 [of "m_reconnects m" for m]
  length_show_u64 [of "m_maintain_ticks m" for m] length_show_u64 [of "m_maintain_rewarmed m" for m]
  length_show_u64 [of "m_fair_waits m" for m] length_show_u64 [of "m_fair_schedules m" for m]
  length_show_u64 [of "m_pool_waiters m" for m] length_show_u64 [of "m_live_backends m" for m]
  length_show_u64 [of "m_active_frontends m" for m]

lemma length_prom_metric:
  "length (prom_metric name help kind v) = 44 + 3 * length name + length help + length kind + length (show_u64 v)"
  by (simp add: prom_metric_def)

lemma length_prometheus_text: "length (prometheus_text m) < 4000"
  using length_counters [of m] unfolding prometheus_text_def length_append length_prom_metric by simp

section \<open>Properties\<close>

text \<open>Every counter line fits its buffer: whatever the 64-bit values are, the one-line and the
  JSON formats are shorter than the 768 bytes of the event loop's buffer, so a log line is never
  cut, and the Prometheus text is shorter than the 6144 bytes of the HTTP thread's buffer.\<close>

theorem metrics_formats_fit:
  "metrics_format m 768 = metrics_line m \<and> metrics_format_json m 768 = metrics_json m \<and>
   prometheus_format m 6144 = Some (prometheus_text m)"
proof -
  have "length (metrics_line m) \<le> 767"
    using length_counters [of m] unfolding metrics_line_def by simp
  moreover have "length (metrics_json m) \<le> 767"
    using length_counters [of m] unfolding metrics_json_def json_field_def by simp
  ultimately show ?thesis
    using length_prometheus_text [of m]
    by (simp add: metrics_format_def metrics_format_json_def snprintf_def prometheus_format_def Let_def)
qed

text \<open>The HTTP responder always answers a metrics request with status 200 and the whole text,
  and the decimal number in its Content-Length header is the length of the body that follows the
  empty line.\<close>

theorem metrics_request_answered:
  assumes "prefix ''GET /metrics'' (cstr req)"
  shows "\<exists>len. metrics_http_respond m req =
      ''HTTP/1.1 200 OK'' @ CRLF @ ''Content-Type: text/plain; version=0.0.4; charset=utf-8'' @ CRLF @
      ''Content-Length: '' @ len @ CRLF @ ''Connection: close'' @ CRLF @ CRLF @ prometheus_text m \<and>
    dec_value 0 len = int (length (prometheus_text m))"
proof -
  let ?n = "length (prometheus_text m)"
  have n: "?n < 4000" by (rule length_prometheus_text)
  then have "?n < 10 ^ 4" by simp
  then have "length (show_nat ?n) \<le> 4" by (rule length_show_nat) simp
  then have h: "length (http_ok_header ?n) < 200" by (simp add: http_ok_header_def)
  have "prometheus_format m 6144 = Some (prometheus_text m)"
    using n by (simp add: prometheus_format_def Let_def)
  then have "metrics_http_respond m req = http_ok_header ?n @ prometheus_text m"
    using assms h n by (simp add: metrics_http_respond_def snprintf_def Let_def) (simp add: http_ok_header_def)
  then show ?thesis
    by (intro exI [of _ "show_nat ?n"]) (simp add: http_ok_header_def dec_value_show_nat)
qed

text \<open>The wait statistics after a sequence of samples.\<close>

lemma note_waits:
  fixes ns :: "u64 list"
  assumes "sum_list (map unat ns) < 2 ^ 64" "length ns < 2 ^ 64"
  defines "m \<equiv> foldl (\<lambda>m n. metrics_note_backend_wait_ns n m) metrics_zero ns"
  shows "unat (m_backend_wait_ns_total m) = sum_list (map unat ns) \<and>
    unat (m_backend_wait_samples m) = length ns \<and> (\<forall>n \<in> set ns. n \<le> m_backend_wait_ns_max m) \<and>
    (ns \<noteq> [] \<longrightarrow> m_backend_wait_ns_max m \<in> set ns)"
  using assms(1,2) unfolding m_def
proof (induction ns rule: rev_induct)
  case (snoc n ns)
  let ?m = "foldl (\<lambda>m n. metrics_note_backend_wait_ns n m) metrics_zero ns"
  have ih: "unat (m_backend_wait_ns_total ?m) = sum_list (map unat ns)" "unat (m_backend_wait_samples ?m) = length ns"
    "\<forall>n \<in> set ns. n \<le> m_backend_wait_ns_max ?m" "ns \<noteq> [] \<longrightarrow> m_backend_wait_ns_max ?m \<in> set ns"
    using snoc by auto
  have z: "ns = [] \<longrightarrow> m_backend_wait_ns_max ?m = 0" by (simp add: metrics_zero_def)
  have t: "unat (m_backend_wait_ns_total ?m + n) = sum_list (map unat ns) + unat n"
    using snoc.prems ih(1) by (subst unat_add_lem [THEN iffD1]) (simp_all add: ih)
  have s: "unat (m_backend_wait_samples ?m + 1) = Suc (length ns)"
    using snoc.prems ih(2) by (subst unat_add_lem [THEN iffD1]) (simp_all add: ih)
  show ?case
    using t s ih(3,4) z
    by (auto simp: metrics_note_backend_wait_ns_def Let_def not_less word_le_0_iff intro: order.trans less_imp_le)
qed (simp add: metrics_zero_def)

text \<open>The wait statistics are what their names say as long as the sum of the samples stays below
  64 bits: after any sequence of samples the maximum is the largest of them and the reported
  average, in microseconds, is the rounded-down mean, which is at most the reported maximum.\<close>

theorem wait_statistics:
  fixes ns :: "u64 list"
  assumes "sum_list (map unat ns) < 2 ^ 64" "length ns < 2 ^ 64" "ns \<noteq> []"
  defines "m \<equiv> foldl (\<lambda>m n. metrics_note_backend_wait_ns n m) metrics_zero ns"
  shows "unat (m_backend_wait_ns_max m) = Max (unat ` set ns) \<and>
    unat (avg_us m) = sum_list (map unat ns) div length ns div 1000 \<and>
    avg_us m \<le> m_backend_wait_ns_max m div 1000"
proof -
  note nw = note_waits [OF assms(1,2), folded m_def]
  have mx: "unat (m_backend_wait_ns_max m) = Max (unat ` set ns)"
    using nw assms(3) by (intro Max_eqI [symmetric]) (auto simp: word_le_nat_alt)
  have pos: "0 < m_backend_wait_samples m" using nw assms(3) by (simp add: word_less_nat_alt)
  have avg: "unat (avg_us m) = sum_list (map unat ns) div length ns div 1000"
    using nw pos by (simp add: avg_us_def unat_div)
  have "sum_list (map unat ns) \<le> length ns * unat (m_backend_wait_ns_max m)"
    using nw sum_list_mono [of ns unat "\<lambda>_. unat (m_backend_wait_ns_max m)"]
    by (simp add: word_le_nat_alt sum_list_triv)
  then have "sum_list (map unat ns) div length ns \<le> unat (m_backend_wait_ns_max m)"
    using assms(3) by (metis div_le_mono length_greater_0_conv nonzero_mult_div_cancel_left not_gr0)
  then have "unat (avg_us m) \<le> unat (m_backend_wait_ns_max m div 1000)"
    unfolding avg unat_div by (simp add: div_le_mono)
  then show ?thesis using mx avg by (simp add: word_le_nat_alt)
qed

theorem metrics_request_answered_witness:
  "take 15 (metrics_http_respond metrics_zero ''GET /metrics HTTP/1.1'') = ''HTTP/1.1 200 OK''"
proof -
  have "prefix ''GET /metrics'' (cstr ''GET /metrics HTTP/1.1'')" by (simp add: cstr_def)
  from metrics_request_answered [OF this, of metrics_zero] show ?thesis by auto
qed

theorem wait_statistics_witness:
  "let m = foldl (\<lambda>m n. metrics_note_backend_wait_ns n m) metrics_zero [3000, 9000]
   in unat (avg_us m) = 6 \<and> unat (m_backend_wait_ns_max m) = 9000"
proof -
  have "length [3000, 9000 :: u64] = 2" "Max {3000, 9000 :: nat} = 9000" "(12000 :: nat) div 2 div 1000 = 6" by simp_all
  then show ?thesis
    using wait_statistics [of "[3000, 9000]"] by (simp add: Let_def del: list.size length_Cons)
qed

end
