(* ===== verification/Metrics_Http.thy ===== *)
theory Metrics_Http
  imports Metrics "HOL-Library.Multiset"
begin

text \<open>
  The life of the /metrics endpoint (src/metrics_http.c): its start and stop, which the main thread
  calls, and the accept loop of the thread that answers. The two run side by side and share the run flag and
  the listening descriptor. The thread is a state machine between its blocking calls; the
  stop is two steps, because the thread can run between the flag and the close. The state counts the
  descriptors that the component holds open, so that a leak or a double close is visible.
\<close>

section \<open>State\<close>

text \<open>Where a thread stands: at the test of the run flag, in \<open>accept\<close>, in \<open>read\<close> on a client, about to answer the
  request it has read, returned.\<close>

datatype http_pc = AtTest | AtAccept | AtRead int | AtReply int string | Returned

record http_state =
  ht_run :: bool
  ht_fd :: int
  ht_addr :: "(string option \<times> nat) option"
  ht_open :: "int list"
  ht_threads :: "http_pc list"
  ht_sent :: "(int \<times> string) list"
  ht_stopping :: bool

definition http_init :: http_state where
  "http_init = \<lparr>ht_run = False, ht_fd = - 1, ht_addr = None, ht_open = [], ht_threads = [], ht_sent = [], ht_stopping = False\<rparr>"

definition close_fd :: "int \<Rightarrow> http_state \<Rightarrow> http_state" where
  "close_fd fd st = st\<lparr>ht_open := remove1 fd (ht_open st)\<rparr>"

section \<open>Start and stop\<close>

text \<open>What the system answers: the new socket, whether a host is an address, whether \<open>bind\<close>, \<open>listen\<close> and
  \<open>pthread_create\<close> succeed.\<close>

record http_env =
  he_socket :: int
  he_pton :: "string \<Rightarrow> bool"
  he_bind :: bool
  he_listen :: bool
  he_thread :: bool

text \<open>The address to bind: \<open>None\<close> is any address.\<close>

definition bind_host :: "string option \<Rightarrow> string option" where
  "bind_host host = (case host of None \<Rightarrow> None | Some h \<Rightarrow> if h = [] \<or> h = ''0.0.0.0'' then None else Some h)"

definition give_up :: "http_state \<Rightarrow> int \<times> http_state" where
  "give_up st = (- 1, (close_fd (ht_fd st) st)\<lparr>ht_fd := - 1\<rparr>)"

definition metrics_http_start :: "http_env \<Rightarrow> string option \<Rightarrow> nat \<Rightarrow> http_state \<Rightarrow> int \<times> http_state" where
  "metrics_http_start en host port st =
     (if port = 0 then (0, st)
      else if ht_run st then (0, st)
      else if he_socket en < 0 then (- 1, st\<lparr>ht_fd := he_socket en\<rparr>)
      else
        (let st1 = st\<lparr>ht_fd := he_socket en, ht_open := he_socket en # ht_open st\<rparr>; addr = bind_host host in
         if addr \<noteq> None \<and> \<not> he_pton en (the addr) then give_up st1
         else if \<not> he_bind en then give_up st1
         else if \<not> he_listen en then give_up st1
         else if \<not> he_thread en then give_up st1
         else (0, st1\<lparr>ht_run := True, ht_addr := Some (addr, port), ht_threads := ht_threads st1 @ [AtTest]\<rparr>)))"

definition http_stop_flag :: "http_state \<Rightarrow> http_state" where
  "http_stop_flag st = st\<lparr>ht_run := False\<rparr>"

definition http_stop_close :: "http_state \<Rightarrow> http_state" where
  "http_stop_close st = (if ht_fd st \<ge> 0 then (close_fd (ht_fd st) st)\<lparr>ht_fd := - 1\<rparr> else st)"

definition metrics_http_stop :: "http_state \<Rightarrow> http_state" where
  "metrics_http_stop st = http_stop_close (http_stop_flag st)"

section \<open>The thread\<close>

text \<open>What the call that a thread is in gives: the descriptor of a client or a failure; the bytes of a
  request (none for an error or the end of the stream); the counters when it formats its answer.\<close>

record http_event =
  hv_client :: int
  hv_bytes :: string
  hv_metrics :: metrics

definition set_thread :: "nat \<Rightarrow> http_pc \<Rightarrow> http_state \<Rightarrow> http_state" where
  "set_thread j pc st = st\<lparr>ht_threads := (ht_threads st)[j := pc]\<rparr>"

definition http_thread_step :: "http_event \<Rightarrow> nat \<Rightarrow> http_state \<Rightarrow> http_state" where
  "http_thread_step ev j st =
     (case ht_threads st ! j of
        AtTest \<Rightarrow> set_thread j (if ht_run st then AtAccept else Returned) st
      | AtAccept \<Rightarrow>
          if hv_client ev < 0 then set_thread j (if ht_run st then AtTest else Returned) st
          else set_thread j (AtRead (hv_client ev)) (st\<lparr>ht_open := hv_client ev # ht_open st\<rparr>)
      | AtRead cfd \<Rightarrow>
          if hv_bytes ev = [] then set_thread j AtTest (close_fd cfd st)
          else set_thread j (AtReply cfd (take 1023 (hv_bytes ev))) st
      | AtReply cfd req \<Rightarrow>
          set_thread j AtTest (close_fd cfd (st\<lparr>ht_sent := ht_sent st @ [(cfd, metrics_http_respond (hv_metrics ev) req)]\<rparr>))
      | Returned \<Rightarrow> st)"

text \<open>The system hands out descriptors that are not open.\<close>

definition fresh_fd :: "http_state \<Rightarrow> int \<Rightarrow> bool" where
  "fresh_fd st fd \<longleftrightarrow> fd < 0 \<or> fd \<notin> set (ht_open st)"

inductive http_step :: "http_state \<Rightarrow> http_state \<Rightarrow> bool" where
  starts: "\<not> ht_stopping st \<Longrightarrow> fresh_fd st (he_socket en) \<Longrightarrow> http_step st (snd (metrics_http_start en host port st))"
| flags: "\<not> ht_stopping st \<Longrightarrow> http_step st ((http_stop_flag st)\<lparr>ht_stopping := True\<rparr>)"
| closes: "ht_stopping st \<Longrightarrow> http_step st ((http_stop_close st)\<lparr>ht_stopping := False\<rparr>)"
| runs: "j < length (ht_threads st) \<Longrightarrow> fresh_fd st (hv_client ev) \<Longrightarrow> http_step st (http_thread_step ev j st)"

inductive http_reachable :: "http_state \<Rightarrow> bool" where
  init: "http_reachable http_init"
| step: "http_reachable st \<Longrightarrow> http_step st st' \<Longrightarrow> http_reachable st'"

section \<open>The descriptors\<close>

text \<open>The descriptors that the state accounts for: the listening one and the clients of the threads.\<close>

primrec client_of :: "http_pc \<Rightarrow> int list" where
  "client_of AtTest = []"
| "client_of AtAccept = []"
| "client_of (AtRead cfd) = [cfd]"
| "client_of (AtReply cfd req) = [cfd]"
| "client_of Returned = []"

definition owned :: "http_state \<Rightarrow> int list" where
  "owned st = (if ht_fd st \<ge> 0 then [ht_fd st] else []) @ concat (map client_of (ht_threads st))"

definition http_inv :: "http_state \<Rightarrow> bool" where
  "http_inv st \<longleftrightarrow> distinct (ht_open st) \<and> mset (ht_open st) = mset (owned st) \<and>
     (ht_run st \<longrightarrow> ht_fd st \<ge> 0 \<and> \<not> ht_stopping st) \<and> (\<not> ht_run st \<and> \<not> ht_stopping st \<longrightarrow> ht_fd st < 0)"

lemma mset_concat_update:
  "j < length xs \<Longrightarrow> mset (concat (map f (xs[j := x]))) + mset (f (xs ! j)) = mset (concat (map f xs)) + mset (f x)"
proof (induction xs arbitrary: j)
  case (Cons y ys)
  then show ?case by (cases j) (auto simp: ac_simps)
qed simp

lemma http_inv_start:
  assumes inv: "http_inv st" and "\<not> ht_stopping st" and fd: "fresh_fd st (he_socket en)"
  shows "http_inv (snd (metrics_http_start en host port st))"
  using assms unfolding http_inv_def
  by (auto simp: metrics_http_start_def give_up_def close_fd_def owned_def fresh_fd_def Let_def)

lemma http_inv_close:
  assumes inv: "http_inv st" and "ht_stopping st"
  shows "http_inv ((http_stop_close st)\<lparr>ht_stopping := False\<rparr>)"
  using assms unfolding http_inv_def
  by (auto simp: http_stop_close_def close_fd_def owned_def mset_remove1 distinct_remove1)

text \<open>A thread that gives its client back, and one that takes one.\<close>

lemma http_inv_thread:
  assumes inv: "http_inv st" and j: "j < length (ht_threads st)" and fd: "fresh_fd st (hv_client ev)"
  shows "http_inv (http_thread_step ev j st)"
proof -
  note upd = mset_concat_update [OF j, of client_of]
  show ?thesis
  proof (cases "ht_threads st ! j")
    case AtAccept
    with upd [of AtTest] upd [of Returned] upd [of "AtRead (hv_client ev)"] inv fd show ?thesis
      by (auto simp: http_thread_step_def set_thread_def http_inv_def owned_def fresh_fd_def)
  next
    case (AtRead cfd)
    have "mset (concat (map client_of (ht_threads st))) = add_mset cfd (mset (concat (map client_of ((ht_threads st)[j := AtTest]))))"
      using upd [of AtTest] AtRead by simp
    with AtRead upd [of "AtReply cfd req" for req] inv show ?thesis
      by (auto simp: http_thread_step_def set_thread_def http_inv_def owned_def close_fd_def)
  next
    case (AtReply cfd req)
    have "mset (concat (map client_of (ht_threads st))) = add_mset cfd (mset (concat (map client_of ((ht_threads st)[j := AtTest]))))"
      using upd [of AtTest] AtReply by simp
    with AtReply inv show ?thesis
      by (auto simp: http_thread_step_def set_thread_def http_inv_def owned_def close_fd_def)
  qed (use upd [of AtAccept] upd [of Returned] inv in
    \<open>auto simp: http_thread_step_def set_thread_def http_inv_def owned_def\<close>)
qed

lemma http_reachable_inv: "http_reachable st \<Longrightarrow> http_inv st"
proof (induction rule: http_reachable.induct)
  case init
  show ?case by (simp add: http_inv_def http_init_def owned_def)
next
  case (step st st')
  from step.hyps(2) step.IH show ?case
  proof cases
    case flags
    with step.IH show ?thesis by (auto simp: http_inv_def http_stop_flag_def owned_def)
  qed (auto intro: http_inv_start http_inv_close http_inv_thread)
qed

section \<open>Properties\<close>


text \<open>A start that fails leaves nothing behind: the result is -1, no descriptor, no thread; one that
  succeeds leaves the endpoint running with one more thread, unless it was off or ran already.\<close>

theorem metrics_http_start_result:
  "let (rc, st') = metrics_http_start en host port st; addr = bind_host host in
    if port = 0 \<or> ht_run st then rc = 0 \<and> st' = st
    else if 0 \<le> he_socket en \<and> (addr = None \<or> he_pton en (the addr)) \<and> he_bind en \<and> he_listen en \<and> he_thread en
    then rc = 0 \<and> ht_run st' \<and> ht_addr st' = Some (addr, port) \<and> ht_fd st' = he_socket en \<and>
      ht_open st' = he_socket en # ht_open st \<and> ht_threads st' = ht_threads st @ [AtTest]
    else rc = - 1 \<and> \<not> ht_run st' \<and> ht_fd st' < 0 \<and> ht_open st' = ht_open st \<and> ht_threads st' = ht_threads st"
  by (auto simp: metrics_http_start_def give_up_def close_fd_def Let_def)

text \<open>How many of its own steps a thread has before it returns, once the endpoint is stopped.\<close>

primrec http_rank :: "http_pc \<Rightarrow> nat" where
  "http_rank AtTest = 1"
| "http_rank AtAccept = 4"
| "http_rank (AtRead cfd) = 3"
| "http_rank (AtReply cfd req) = 2"
| "http_rank Returned = 0"

definition http_runs :: "(nat \<times> http_event) list \<Rightarrow> http_state \<Rightarrow> http_state" where
  "http_runs sched st = foldl (\<lambda>st (j, ev). http_thread_step ev j st) st sched"

lemma http_step_others: "i \<noteq> j \<Longrightarrow> ht_threads (http_thread_step ev i st) ! j = ht_threads st ! j"
  "length (ht_threads (http_thread_step ev i st)) = length (ht_threads st)" "ht_run (http_thread_step ev i st) = ht_run st"
  by (auto simp: http_thread_step_def set_thread_def close_fd_def split: http_pc.splits)

lemma http_step_rank:
  "\<not> ht_run st \<Longrightarrow> j < length (ht_threads st) \<Longrightarrow>
    http_rank (ht_threads (http_thread_step ev j st) ! j) \<le> http_rank (ht_threads st ! j) - 1"
  by (cases "ht_threads st ! j") (auto simp: http_thread_step_def set_thread_def close_fd_def)

lemma http_runs_rank:
  "\<not> ht_run st \<Longrightarrow> j < length (ht_threads st) \<Longrightarrow>
    http_rank (ht_threads (http_runs sched st) ! j) \<le> http_rank (ht_threads st ! j) - length (filter (\<lambda>(i, ev). i = j) sched)"
proof (induction sched arbitrary: st)
  case (Cons x sched)
  obtain i ev where x: "x = (i, ev)" by fastforce
  let ?s = "http_thread_step ev i st"
  have "http_rank (ht_threads (http_runs sched ?s) ! j) \<le> http_rank (ht_threads ?s ! j) - length (filter (\<lambda>(i, ev). i = j) sched)"
    by (rule Cons.IH) (use Cons.prems in \<open>simp_all add: http_step_others\<close>)
  moreover have "http_rank (ht_threads ?s ! j) \<le> http_rank (ht_threads st ! j) - (if i = j then 1 else 0)"
    using http_step_rank [OF Cons.prems, of ev] http_step_others(1) [of i j ev st] by auto
  ultimately show ?case by (auto simp: http_runs_def x split: if_splits)
qed (simp add: http_runs_def)

text \<open>Stopping ends the threads: once the endpoint is stopped and not started again, every thread returns
  after at most four of its own steps, whatever the others do in between and whatever the calls
  it is in give.\<close>

theorem http_threads_end:
  assumes "\<not> ht_run st" and "j < length (ht_threads st)" and "4 \<le> length (filter (\<lambda>(i, ev). i = j) sched)"
  shows "ht_threads (http_runs sched st) ! j = Returned"
proof -
  have "http_rank (ht_threads st ! j) \<le> 4" by (cases "ht_threads st ! j") simp_all
  then have "http_rank (ht_threads (http_runs sched st) ! j) = 0" using http_runs_rank [OF assms(1,2), of sched] assms(3) by linarith
  then show ?thesis by (cases "ht_threads (http_runs sched st) ! j") simp_all
qed

section \<open>Stopping and starting again\<close>

text \<open>The thread is detached and nobody waits for it, and the run flag and the descriptor are those of the
  next start: a start right after a stop finds the old thread still in its loop, and both threads
  go on.\<close>

definition demo_http_env :: http_env where
  "demo_http_env = \<lparr>he_socket = 3, he_pton = (\<lambda>_. True), he_bind = True, he_listen = True, he_thread = True\<rparr>"

definition demo_http_up :: http_state where
  "demo_http_up = http_init\<lparr>ht_run := True, ht_fd := 3, ht_addr := Some (Some ''127.0.0.1'', 9108), ht_open := [3], ht_threads := [AtTest]\<rparr>"

lemma demo_http_started: "metrics_http_start demo_http_env (Some ''127.0.0.1'') 9108 http_init = (0, demo_http_up)"
  by (simp add: metrics_http_start_def demo_http_env_def http_init_def demo_http_up_def bind_host_def Let_def)

lemma demo_http_reach: "http_reachable demo_http_up"
  using http_reachable.step [OF http_reachable.init http_step.starts [of http_init demo_http_env "Some ''127.0.0.1''" 9108]]
  by (simp add: demo_http_started) (simp add: http_init_def fresh_fd_def)

theorem http_restart_keeps_the_old_thread:
  "\<exists>st. http_reachable st \<and> ht_run st \<and> ht_threads st = [AtAccept, AtTest]"
proof -
  let ?ev = "\<lparr>hv_client = - 1, hv_bytes = [], hv_metrics = metrics_zero\<rparr>"
  let ?s1 = "http_thread_step ?ev 0 demo_http_up"
  let ?s2 = "(http_stop_flag ?s1)\<lparr>ht_stopping := True\<rparr>"
  let ?s3 = "(http_stop_close ?s2)\<lparr>ht_stopping := False\<rparr>"
  let ?s4 = "snd (metrics_http_start demo_http_env (Some ''127.0.0.1'') 9108 ?s3)"
  note d = demo_http_up_def http_init_def http_thread_step_def set_thread_def http_stop_flag_def http_stop_close_def close_fd_def fresh_fd_def
  have 1: "http_reachable ?s1" by (rule http_reachable.step [OF demo_http_reach http_step.runs]) (simp_all add: d)
  have 2: "http_reachable ?s2" by (rule http_reachable.step [OF 1 http_step.flags]) (simp add: d)
  have 3: "http_reachable ?s3" by (rule http_reachable.step [OF 2 http_step.closes]) simp
  have "http_reachable ?s4" by (rule http_reachable.step [OF 3 http_step.starts]) (simp_all add: d)
  moreover have "ht_run ?s4 \<and> ht_threads ?s4 = [AtAccept, AtTest]"
    by (simp add: d metrics_http_start_def demo_http_env_def bind_host_def Let_def)
  ultimately show ?thesis by blast
qed

section \<open>Witnesses\<close>


theorem http_threads_end_witness:
  "ht_threads (http_runs (replicate 4 (0, \<lparr>hv_client = 7, hv_bytes = ''GET /health'', hv_metrics = metrics_zero\<rparr>))
     (http_stop_flag (demo_http_up\<lparr>ht_threads := [AtAccept]\<rparr>))) ! 0 = Returned"
  by (rule http_threads_end) (simp_all add: demo_http_up_def http_init_def http_stop_flag_def)

end
