(* ===== verification/Backend_Io.thy ===== *)
theory Backend_Io
  imports Metrics
begin

text \<open>
  Blocking I/O of the backend pool (src/backend_pool.c): the write and read
  loops with their handling of short counts, EINTR and end of file, the framing of typed
  messages, and the SASL messages. The outside is a script: the outcomes that the system calls
  of the process will deliver, in order. A script that is used up stands for calls that time
  out, which is what the socket timeouts of the pool turn an endless wait into. A segment of
  data stays at the head of the script until it has been read off completely, so segments do
  not have to match the sizes that the program asks for.
\<close>

unbundle bit_operations_syntax

section \<open>The outside world\<close>

text \<open>\<open>Ret n\<close>: the call returns \<open>n\<close> (bytes written, a descriptor, 0); \<open>Seg d\<close>: data to
  read, empty at end of file; \<open>Intr\<close>: -1 with EINTR; \<open>Fail\<close>: -1 with another error.\<close>

datatype io = Ret nat | Seg bytes | Intr | Fail

text \<open>The log lists what was written, per descriptor. The counters of the process are global
  variables, so they are part of the world.\<close>

record world =
  w_io :: "io list"
  w_log :: "(int \<times> bytes) list"
  w_metrics :: metrics

definition io_size :: "io list \<Rightarrow> nat" where
  "io_size = sum_list \<circ> map (\<lambda>e. case e of Seg d \<Rightarrow> Suc (length d) | _ \<Rightarrow> 1)"

lemma io_size_simps [simp]:
  "io_size [] = 0"
  "io_size (e # s) = (case e of Seg d \<Rightarrow> Suc (length d) | _ \<Rightarrow> 1) + io_size s"
  by (simp_all add: io_size_def)

text \<open>The next outcome, for a call that is not retried.\<close>

definition next_io :: "world \<Rightarrow> io \<times> world" where
  "next_io w = (case w_io w of [] \<Rightarrow> (Fail, w) | e # s \<Rightarrow> (e, w\<lparr>w_io := s\<rparr>))"

section \<open>Write and read loops\<close>

function write_all :: "int \<Rightarrow> bytes \<Rightarrow> world \<Rightarrow> int \<times> world" where
  "write_all fd buf w =
     (if buf = [] then (OK, w)
      else
        (case w_io w of
           [] \<Rightarrow> (ERR, w)
         | Intr # s \<Rightarrow> write_all fd buf (w\<lparr>w_io := s\<rparr>)
         | Ret n # s \<Rightarrow>
             (if n = 0 then (ERR, w\<lparr>w_io := s\<rparr>)
              else
                (let k = min n (length buf) in
                 write_all fd (drop k buf) (w\<lparr>w_io := s, w_log := w_log w @ [(fd, take k buf)]\<rparr>)))
         | e # s \<Rightarrow> (ERR, w\<lparr>w_io := s\<rparr>)))"
  by pat_completeness auto
termination by (relation "measure (\<lambda>(fd, buf, w). length (w_io w))") auto

text \<open>Both read loops of \<open>read_msg\<close>: read until \<open>need\<close> bytes are in the buffer.\<close>

function read_until :: "nat \<Rightarrow> bytes \<Rightarrow> world \<Rightarrow> int \<times> bytes \<times> world" where
  "read_until need acc w =
     (if length acc \<ge> need then (OK, acc, w)
      else
        (case w_io w of
           [] \<Rightarrow> (ERR, acc, w)
         | Intr # s \<Rightarrow> read_until need acc (w\<lparr>w_io := s\<rparr>)
         | Seg d # s \<Rightarrow>
             (if d = [] then (ERR, acc, w\<lparr>w_io := s\<rparr>)
              else
                (let k = min (need - length acc) (length d); rest = drop k d in
                 read_until need (acc @ take k d) (w\<lparr>w_io := (if rest = [] then s else Seg rest # s)\<rparr>)))
         | e # s \<Rightarrow> (ERR, acc, w\<lparr>w_io := s\<rparr>)))"
  by pat_completeness auto
termination
  by (relation "measure (\<lambda>(need, acc, w). io_size (w_io w))") (auto simp: Let_def min_def split: if_splits)

declare write_all.simps [simp del] read_until.simps [simp del]

section \<open>Message framing\<close>

definition put_be32 :: "32 word \<Rightarrow> bytes" where
  "put_be32 v = [ucast (drop_bit 24 v AND 0xFF), ucast (drop_bit 16 v AND 0xFF),
                 ucast (drop_bit 8 v AND 0xFF), ucast (v AND 0xFF)]"

text \<open>The big-endian 32-bit value at an offset.\<close>

definition be32_at :: "bytes \<Rightarrow> nat \<Rightarrow> 32 word" where
  "be32_at b i = push_bit 24 (ucast (b ! i)) OR push_bit 16 (ucast (b ! (i + 1))) OR
                 push_bit 8 (ucast (b ! (i + 2))) OR ucast (b ! (i + 3))"

abbreviation (input) MAX_MSG :: nat where "MAX_MSG \<equiv> 16777216"

definition read_msg :: "nat \<Rightarrow> world \<Rightarrow> int \<times> bytes \<times> world" where
  "read_msg cap w =
     (let (rc, hdr, w1) = read_until 5 [] w in
      if rc \<noteq> 0 then (ERR, [], w1)
      else
        (let mlen = unat (be32_at hdr 1) in
         if mlen < 4 \<or> mlen > MAX_MSG then (ERR, [], w1)
         else
           (let need = 1 + mlen in
            if need > cap then (ERR, [], w1)
            else
              (let (rc2, buf, w2) = read_until need hdr w1 in
               if rc2 \<noteq> 0 then (ERR, [], w2) else (OK, buf, w2)))))"

section \<open>SASL messages\<close>

definition str8 :: "string \<Rightarrow> bytes" where
  "str8 s = map (\<lambda>c. word_of_nat (code_of c)) s"

definition sasl_initial_msg :: "string \<Rightarrow> string \<Rightarrow> bytes" where
  "sasl_initial_msg mech data =
     (let body = (length mech + 1) + 4 + length data in
      [112] @ put_be32 (word_of_nat (4 + body)) @ str8 mech @ [0] @
      put_be32 (word_of_nat (length data)) @ str8 data)"

definition send_sasl_initial :: "int \<Rightarrow> string \<Rightarrow> string \<Rightarrow> world \<Rightarrow> int \<times> world" where
  "send_sasl_initial fd mech data w = write_all fd (sasl_initial_msg mech data) w"

definition sasl_response_msg :: "string \<Rightarrow> bytes" where
  "sasl_response_msg data = [112] @ put_be32 (word_of_nat (4 + length data)) @ str8 data"

definition send_sasl_response :: "int \<Rightarrow> string \<Rightarrow> world \<Rightarrow> int \<times> world" where
  "send_sasl_response fd data w = write_all fd (sasl_response_msg data) w"

section \<open>Connecting\<close>

text \<open>The loop over the addresses that \<open>getaddrinfo\<close> found: a socket, then a connection; the
  socket options are set without looking at their result.\<close>

fun connect_loop :: "nat \<Rightarrow> world \<Rightarrow> int \<times> world" where
  "connect_loop 0 w = (- 1, w)"
| "connect_loop (Suc k) w =
     (case next_io w of
        (Ret fd, w1) \<Rightarrow>
          (case next_io w1 of
             (Ret _, w2) \<Rightarrow> (int fd, w2)
           | (_, w2) \<Rightarrow> connect_loop k w2)
      | (_, w1) \<Rightarrow> connect_loop k w1)"

definition tcp_connect :: "string \<Rightarrow> nat \<Rightarrow> world \<Rightarrow> int \<times> world" where
  "tcp_connect host port w =
     (case next_io w of
        (Ret n, w1) \<Rightarrow> connect_loop n w1
      | (_, w1) \<Rightarrow> (- 1, w1))"

section \<open>Lemmas\<close>

text \<open>A script in which every read delivers data or is interrupted, and the stream it carries.\<close>

definition reads_ok :: "io list \<Rightarrow> bool" where
  "reads_ok s \<longleftrightarrow> (\<forall>e \<in> set s. e = Intr \<or> (\<exists>d. e = Seg d \<and> d \<noteq> []))"

definition stream_of :: "io list \<Rightarrow> bytes" where
  "stream_of s = concat (map (\<lambda>e. case e of Seg d \<Rightarrow> d | _ \<Rightarrow> []) s)"

lemma reads_simps [simp]:
  "reads_ok []" "reads_ok (e # s) \<longleftrightarrow> (e = Intr \<or> (\<exists>d. e = Seg d \<and> d \<noteq> [])) \<and> reads_ok s"
  "stream_of [] = []" "stream_of (e # s) = (case e of Seg d \<Rightarrow> d | _ \<Rightarrow> []) @ stream_of s"
  by (auto simp: reads_ok_def stream_of_def)

lemma read_until_stream:
  "reads_ok (w_io w) \<Longrightarrow> length acc \<le> need \<Longrightarrow> need \<le> length acc + length (stream_of (w_io w)) \<Longrightarrow>
    \<exists>s'. read_until need acc w = (OK, acc @ take (need - length acc) (stream_of (w_io w)), w\<lparr>w_io := s'\<rparr>) \<and>
      reads_ok s' \<and> stream_of s' = drop (need - length acc) (stream_of (w_io w))"
proof (induction need acc w rule: read_until.induct)
  case (1 need acc w)
  show ?case
  proof (cases "need \<le> length acc")
    case True
    then show ?thesis using 1(3,4) by (intro exI [of _ "w_io w"]) (subst read_until.simps, simp)
  next
    case False
    then obtain e s where io: "w_io w = e # s" using 1(5) by (cases "w_io w") auto
    show ?thesis
    proof (cases e)
      case Intr
      have "\<exists>s'. read_until need acc (w\<lparr>w_io := s\<rparr>) =
          (OK, acc @ take (need - length acc) (stream_of s), (w\<lparr>w_io := s\<rparr>)\<lparr>w_io := s'\<rparr>) \<and>
          reads_ok s' \<and> stream_of s' = drop (need - length acc) (stream_of s)"
        using 1(2) [OF False io Intr] 1(3-5) io Intr by simp
      then show ?thesis using False io Intr by (subst read_until.simps) simp
    next
      case (Seg d)
      then have d: "d \<noteq> []" "reads_ok s" using 1(3) io by auto
      define k where "k = min (need - length acc) (length d)"
      define rest where "rest = drop k d"
      define io' where "io' = (if rest = [] then s else Seg rest # s)"
      have io': "reads_ok io'" "stream_of io' = drop k d @ stream_of s"
        using d by (auto simp: io'_def rest_def)
      have step: "read_until need acc w = read_until need (acc @ take k d) (w\<lparr>w_io := io'\<rparr>)"
        using False io Seg d(1) by (subst read_until.simps) (simp add: Let_def k_def rest_def io'_def)
      have "reads_ok (w_io (w\<lparr>w_io := io'\<rparr>))" "length (acc @ take k d) \<le> need"
        "need \<le> length (acc @ take k d) + length (stream_of (w_io (w\<lparr>w_io := io'\<rparr>)))"
        using io' 1(5) False by (simp_all add: io Seg k_def)
      from 1(1) [OF False io Seg d(1) k_def rest_def, folded io'_def, OF this]
      obtain s' where s': "read_until need acc w =
          (OK, acc @ (take k d @ take (need - length (acc @ take k d)) (drop k d @ stream_of s)), w\<lparr>w_io := s'\<rparr>)"
          "reads_ok s'" "stream_of s' = drop (need - length (acc @ take k d)) (drop k d @ stream_of s)"
        unfolding step by (auto simp: io'(2))
      have "take k d @ take (need - length (acc @ take k d)) (drop k d @ stream_of s) = take (need - length acc) (d @ stream_of s)"
        "drop (need - length (acc @ take k d)) (drop k d @ stream_of s) = drop (need - length acc) (d @ stream_of s)"
        using False by (cases "length d \<le> need - length acc"; simp add: k_def)+
      then show ?thesis using s' by (intro exI [of _ s']) (simp add: io Seg)
    qed (use 1(3) io in auto)
  qed
qed

section \<open>Properties of the framing\<close>

lemma low_byte: "(ucast ((x :: 32 word) AND 0xFF) :: byte) = ucast x"
proof -
  have m: "(0xFF :: 32 word) = mask 8" by (simp add: mask_eq_exp_minus_1)
  show ?thesis unfolding m by (rule bit_word_eqI) (auto simp: bit_simps)
qed

lemma be32_put_be32: "be32_at (put_be32 v @ r) 0 = v"
proof -
  have e: "be32_at (put_be32 v @ r) 0 =
      push_bit 24 (ucast (ucast (drop_bit 24 v) :: byte)) OR push_bit 16 (ucast (ucast (drop_bit 16 v) :: byte)) OR
      push_bit 8 (ucast (ucast (drop_bit 8 v) :: byte)) OR ucast (ucast v :: byte)"
    by (simp add: be32_at_def put_be32_def low_byte numeral_eq_Suc)
  show ?thesis unfolding e
  proof (rule bit_word_eqI)
    fix n assume "n < LENGTH(32)"
    then consider "n < 8" | "8 \<le> n" "n < 16" | "16 \<le> n" "n < 24" | "24 \<le> n" "n < 32" by fastforce
    then show "bit (push_bit 24 (ucast (ucast (drop_bit 24 v) :: byte)) OR push_bit 16 (ucast (ucast (drop_bit 16 v) :: byte)) OR
      push_bit 8 (ucast (ucast (drop_bit 8 v) :: byte)) OR ucast (ucast v :: byte) :: 32 word) n = bit v n"
      by cases (auto simp: bit_simps)
  qed
qed

lemma be32_at_append: "be32_at (a @ b) (length a + i) = be32_at b i"
  by (simp add: be32_at_def nth_append)

text \<open>A framed message: a type byte, then its length as it counts itself.\<close>

definition framed :: "bytes \<Rightarrow> bool" where
  "framed m \<longleftrightarrow> 5 \<le> length m \<and> length m = 1 + unat (be32_at m 1)"

lemma be32_at_take: "i + 3 < n \<Longrightarrow> be32_at (take n b) i = be32_at b i"
  by (simp add: be32_at_def)

lemma unat_word32: "n < 4294967296 \<Longrightarrow> unat (word_of_nat n :: 32 word) = n"
  by (simp add: unat_of_nat)

lemma framed_be32:
  assumes "length body < 4294967292"
  shows "framed (t # put_be32 (word_of_nat (4 + length body)) @ body)"
proof -
  have "be32_at (t # put_be32 (word_of_nat (4 + length body)) @ body) 1 = word_of_nat (4 + length body)"
    using be32_at_append [of "[t]" "put_be32 (word_of_nat (4 + length body)) @ body" 0] by (simp add: be32_put_be32)
  moreover have "unat (word_of_nat (4 + length body) :: 32 word) = 4 + length body"
    using assms by (intro unat_word32) simp
  ultimately show ?thesis by (simp add: framed_def put_be32_def)
qed

lemma length_put_be32 [simp]: "length (put_be32 v) = 4"
  by (simp add: put_be32_def)

lemma length_str8 [simp]: "length (str8 s) = length s"
  by (simp add: str8_def)

lemma strict_prefix_app: "strict_prefix (a @ x) (a @ y) = strict_prefix x y"
  by (simp add: strict_prefix_def)

lemma drop_header: "drop 5 (t # put_be32 v @ b) = b"
  by (simp add: put_be32_def)

text \<open>What \<open>write_all\<close> did: the pieces it wrote, in order.\<close>

lemma write_all_pieces:
  "write_all fd buf w = (rc, w') \<Longrightarrow>
    \<exists>ps. w_log w' = w_log w @ map (Pair fd) ps \<and> (rc = OK \<or> rc = ERR) \<and>
      (if rc = OK then concat ps = buf else strict_prefix (concat ps) buf)"
proof (induction fd buf w rule: write_all.induct)
  case (1 fd buf w)
  consider "buf = []" | "buf \<noteq> []" "w_io w = []" | e s where "buf \<noteq> []" "w_io w = e # s"
    by (cases "w_io w") auto
  then show ?case
  proof cases
    case 3
    show ?thesis
    proof (cases e)
      case Intr
      then show ?thesis using 1(2) [OF 3 Intr] 1(3) 3 by (simp add: write_all.simps [of fd buf w])
    next
      case (Ret n)
      show ?thesis
      proof (cases "n = 0")
        case True
        then show ?thesis using 1(3) 3 Ret by (auto simp: write_all.simps [of fd buf w] strict_prefix_def)
      next
        case False
        define k where "k = min n (length buf)"
        have "write_all fd (drop k buf) (w\<lparr>w_io := s, w_log := w_log w @ [(fd, take k buf)]\<rparr>) = (rc, w')"
          using 1(3) 3 Ret False by (simp add: write_all.simps [of fd buf w] Let_def k_def)
        from 1(1) [OF 3 Ret False k_def this] obtain ps where
          "w_log w' = w_log w @ map (Pair fd) (take k buf # ps)" "rc = OK \<or> rc = ERR"
          "if rc = OK then concat ps = drop k buf else strict_prefix (concat ps) (drop k buf)" by auto
        moreover have "strict_prefix (take k buf @ x) buf = strict_prefix x (drop k buf)" for x
          using strict_prefix_app [of "take k buf" x "drop k buf"] by simp
        ultimately show ?thesis by (intro exI [of _ "take k buf # ps"]) (simp split: if_splits)
      qed
    qed (use 1(3) 3 in \<open>auto simp: write_all.simps [of fd buf w] strict_prefix_def\<close>)
  qed (use 1(3) in \<open>auto simp: write_all.simps [of fd buf w] write_all.simps [of fd "[]" w] strict_prefix_def
        intro!: exI [of _ "[]"]\<close>)
qed

text \<open>One framed message off the stream.\<close>

lemma read_msg_stream:
  assumes "reads_ok (w_io w)" "stream_of (w_io w) = m @ later"
    and "framed m" "length m \<le> cap" "length m \<le> 1 + 16777216"
  shows "\<exists>s'. read_msg cap w = (0, m, w\<lparr>w_io := s'\<rparr>) \<and> reads_ok s' \<and> stream_of s' = later"
proof -
  have m: "5 \<le> length m" "length m = 1 + unat (be32_at m 1)" using assms(3) by (simp_all add: framed_def)
  from read_until_stream [of w "[]" 5] assms(1,2) m(1) obtain s1 where
    1: "read_until 5 [] w = (OK, take 5 m, w\<lparr>w_io := s1\<rparr>)" "reads_ok s1" "stream_of s1 = drop 5 m @ later"
    by auto
  have len: "be32_at (take 5 m) 1 = be32_at m 1" by (rule be32_at_take) simp
  from read_until_stream [of "w\<lparr>w_io := s1\<rparr>" "take 5 m" "length m"] 1(2,3) m(1) obtain s2 where
    2: "read_until (length m) (take 5 m) (w\<lparr>w_io := s1\<rparr>) = (OK, m, w\<lparr>w_io := s2\<rparr>)" "reads_ok s2" "stream_of s2 = later"
    by auto
  have l: "Suc (unat (be32_at m 1)) = length m" using m(2) by simp
  show ?thesis
    using m assms(4,5) 2 unfolding read_msg_def 1(1) Let_def split len by (intro exI [of _ s2]) (simp add: l [symmetric])
qed

text \<open>\<open>write_all\<close> sends the whole buffer or reports a failure: over any sequence of short
  writes, interruptions and errors, the pieces written are in order and together a prefix of the
  buffer; they are the whole buffer when it returns 0, and a proper prefix when it returns -1.\<close>

theorem write_all_complete_or_error:
  "\<exists>rc pieces w'. write_all fd buf w = (rc, w') \<and> w_log w' = w_log w @ map (Pair fd) pieces \<and>
    (rc = 0 \<and> concat pieces = buf \<or> rc = -1 \<and> strict_prefix (concat pieces) buf)"
proof -
  obtain rc w' where "write_all fd buf w = (rc, w')" by fastforce
  with write_all_pieces [OF this] show ?thesis by (auto split: if_splits)
qed

text \<open>C39. \<open>read_msg\<close> does not depend on how the stream arrives: when the bytes to come start with a
  framed message that fits the buffer and the limit of 16 MiB, it returns exactly that message,
  however the segments cut the stream (short reads, a header split over segments, several
  messages in one segment) and wherever calls are interrupted, and it leaves the rest of the
  stream to be read.\<close>

theorem read_msg_any_segmentation:
  assumes "reads_ok (w_io w)" "stream_of (w_io w) = m @ later"
    and "framed m" "length m \<le> cap" "length m \<le> 1 + 16777216"
  shows "\<exists>s'. read_msg cap w = (0, m, w\<lparr>w_io := s'\<rparr>) \<and> reads_ok s' \<and> stream_of s' = later"
  using assms by (rule read_msg_stream)

text \<open>The SASL messages are framed: a server that reads with the same framing sees the length
  the message has, and the initial response carries the mechanism, its NUL, the length of the
  data and the data.\<close>

theorem sasl_messages_framed:
  assumes "length mech + length data < 4294967200"
  shows "framed (sasl_initial_msg mech data) \<and> framed (sasl_response_msg data) \<and>
    drop 5 (sasl_initial_msg mech data) = str8 mech @ [0] @ put_be32 (word_of_nat (length data)) @ str8 data \<and>
    unat (be32_at (sasl_initial_msg mech data) (6 + length mech)) = length data"
proof -
  let ?body = "str8 mech @ [0] @ put_be32 (word_of_nat (length data)) @ str8 data"
  have i: "sasl_initial_msg mech data = 112 # put_be32 (word_of_nat (4 + length ?body)) @ ?body"
    by (simp add: sasl_initial_msg_def Let_def ac_simps)
  have r: "sasl_response_msg data = 112 # put_be32 (word_of_nat (4 + length (str8 data))) @ str8 data"
    by (simp add: sasl_response_msg_def)
  have "be32_at (sasl_initial_msg mech data) (6 + length mech) = word_of_nat (length data)"
    unfolding i using be32_at_append [of "112 # put_be32 (word_of_nat (4 + length ?body)) @ str8 mech @ [0]"
      "put_be32 (word_of_nat (length data)) @ str8 data" 0] by (simp add: be32_put_be32)
  moreover have "unat (word_of_nat (length data) :: 32 word) = length data"
    using assms by (intro unat_word32) simp
  ultimately show ?thesis
    using framed_be32 [of ?body 112] framed_be32 [of "str8 data" 112] assms
    unfolding i r drop_header by simp
qed

section \<open>Witnesses\<close>

theorem read_msg_any_segmentation_witness:
  "\<exists>w'. read_msg 16384 \<lparr>w_io = [Intr, Seg [90, 0], Seg [0, 0, 5, 73, 69]], w_log = [], w_metrics = metrics_zero\<rparr> =
     (0, [90, 0, 0, 0, 5, 73], w') \<and> stream_of (w_io w') = [69]"
proof -
  let ?w = "\<lparr>w_io = [Intr, Seg [90, 0], Seg [0, 0, 5, 73, 69]], w_log = [], w_metrics = metrics_zero\<rparr>"
  have f: "framed [90, 0, 0, 0, 5, 73]" by (simp add: framed_def be32_at_def)
  have "reads_ok (w_io ?w)" "stream_of (w_io ?w) = [90, 0, 0, 0, 5, 73] @ [69]" by simp_all
  from read_msg_any_segmentation [OF this f, of 16384] show ?thesis by auto
qed

theorem sasl_messages_framed_witness:
  "framed (sasl_initial_msg ''SCRAM-SHA-256'' ''n,,n=a,r=b'') \<and> framed (sasl_response_msg ''c=biws'')"
  using sasl_messages_framed [of "''SCRAM-SHA-256''" "''n,,n=a,r=b''"]
    sasl_messages_framed [of "''SCRAM-SHA-256''" "''c=biws''"] by simp

end
