(* ===== verification/Backend_Conn.thy ===== *)
theory Backend_Conn
  imports Pqwire_Ref Scram Backend_Io
begin

text \<open>
  One connection of the backend pool (src/backend_pool.c): authentication
  (\<open>backend_authenticate\<close>), teardown, warm-up and reconnection (\<open>warm_one\<close>,
  \<open>pqproxy_backend_reconnect\<close>), the blocking pipeline round trip
  (\<open>pqproxy_backend_flush_pipeline_ex\<close>) and the health check. A connection is a record; the calls on its sockets act on the
  world of \<open>Backend_Io\<close>, the calls of libpqwire on its wire context.
\<close>

section \<open>State\<close>

text \<open>\<open>be_send\<close> and \<open>be_recv_acc\<close> are the filled parts of the two buffers of
  \<open>BE_SEND_CAP\<close> and \<open>BE_RECV_CAP\<close> bytes: their lengths are the C length fields.\<close>

abbreviation (input) BE_SEND_CAP :: nat where "BE_SEND_CAP \<equiv> 32768"
abbreviation (input) BE_RECV_CAP :: nat where "BE_RECV_CAP \<equiv> 16384"

record 'w be_conn =
  be_fd :: int
  be_wire :: "'w option"
  be_login_user :: string
  be_busy :: bool
  be_alive :: bool
  be_slot :: nat
  be_send :: bytes
  be_send_off :: nat
  be_recv_acc :: bytes
  be_skip_parse_bind :: bool
  be_pipe :: pipeline_status

text \<open>The zeroed connection of a fresh pool, in slot \<open>i\<close>.\<close>

definition conn_init :: "nat \<Rightarrow> 'w be_conn" where
  "conn_init i = \<lparr>be_fd = - 1, be_wire = None, be_login_user = [], be_busy = False, be_alive = False,
     be_slot = i, be_send = [], be_send_off = 0, be_recv_acc = [], be_skip_parse_bind = False,
     be_pipe = pipe_init\<rparr>"

record be_config =
  cf_host :: string
  cf_port :: nat
  cf_user :: string
  cf_password :: string
  cf_database :: string
  cf_use_group_as_user :: bool
  cf_groups :: string
  cf_lazy_group_connect :: bool
  cf_pool_size :: nat
  cf_quiet :: bool
  cf_auto_reconnect :: bool
  cf_health_check :: bool

definition backend_config_defaults :: be_config where
  "backend_config_defaults = \<lparr>cf_host = ''127.0.0.1'', cf_port = 5432, cf_user = ''postgres'',
     cf_password = '''', cf_database = ''postgres'', cf_use_group_as_user = False, cf_groups = '''',
     cf_lazy_group_connect = True, cf_pool_size = 4, cf_quiet = False, cf_auto_reconnect = True,
     cf_health_check = False\<rparr>"

section \<open>Authentication\<close>

definition text8 :: "bytes \<Rightarrow> string" where
  "text8 b = map (\<lambda>x. char_of (unat x)) b"

text \<open>\<open>RAND_bytes\<close>: the next outcome of the world, if it delivers enough.\<close>

definition draw_nonce :: "world \<Rightarrow> bytes option \<times> world" where
  "draw_nonce w = (case next_io w of
     (Seg r, w1) \<Rightarrow> (if length r \<ge> 24 then Some r else None, w1)
   | (_, w1) \<Rightarrow> (None, w1))"

text \<open>The password message of the cleartext method.\<close>

definition send_password :: "int \<Rightarrow> string \<Rightarrow> world \<Rightarrow> int \<times> world" where
  "send_password fd password w =
     (let pwlen = length password + 1 in
      if 5 + pwlen > 512 then (ERR, w)
      else write_all fd ([112] @ put_be32 (word_of_nat (4 + pwlen)) @ str8 password @ [0]) w)"

text \<open>The answers to the SASL messages; the exchange is \<open>None\<close> until it is active.\<close>

definition auth_sasl_start :: "int \<Rightarrow> string \<Rightarrow> bytes \<Rightarrow> world \<Rightarrow> int \<times> scram option \<times> world" where
  "auth_sasl_start fd user payload w =
     (if strstr_pos ''SCRAM-SHA-256'' (text8 payload) = None \<or> copy_user 128 user = None then (ERR, None, w)
      else
        (let (raw, w1) = draw_nonce w in
         case scram_init raw user of
           None \<Rightarrow> (ERR, None, w1)
         | Some s \<Rightarrow>
             (case scram_client_first s 320 288 of
                None \<Rightarrow> (ERR, None, w1)
              | Some (gs2, bare, s1) \<Rightarrow>
                  (let (rc, w2) = send_sasl_initial fd ''SCRAM-SHA-256'' gs2 w1 in
                   if rc \<noteq> 0 then (ERR, None, w2) else (OK, Some s1, w2)))))"

definition auth_sasl_continue :: "scram_crypto \<Rightarrow> int \<Rightarrow> string \<Rightarrow> scram \<Rightarrow> bytes \<Rightarrow> world \<Rightarrow>
    int \<times> scram option \<times> world" where
  "auth_sasl_continue cr fd password s payload w =
     (if length payload \<ge> 512 then (ERR, Some s, w)
      else
        (case scram_handle_server_first cr s (cstr (text8 payload)) password of
           None \<Rightarrow> (ERR, Some s, w)
         | Some s1 \<Rightarrow>
             (case scram_client_final cr s1 512 of
                None \<Rightarrow> (ERR, Some s1, w)
              | Some (final_msg, s2) \<Rightarrow>
                  (let (rc, w1) = send_sasl_response fd final_msg w in
                   if rc \<noteq> 0 then (ERR, Some s2, w1) else (OK, Some s2, w1)))))"

definition auth_sasl_final :: "scram_crypto \<Rightarrow> scram \<Rightarrow> bytes \<Rightarrow> int" where
  "auth_sasl_final cr s payload =
     (if length payload \<ge> 512 then ERR
      else if scram_verify_server_final cr s (cstr (text8 payload)) \<noteq> 0 then ERR else OK)"

text \<open>One backend message: only an Authentication message ('R') of nine bytes or more is answered.\<close>

definition auth_step :: "scram_crypto \<Rightarrow> int \<Rightarrow> string \<Rightarrow> string \<Rightarrow> scram option \<Rightarrow> bytes \<Rightarrow> world \<Rightarrow>
    int \<times> scram option \<times> world" where
  "auth_step cr fd user password sc msg w =
     (if length msg \<ge> 9 \<and> msg ! 0 = 82 then
        (let atype = unat (be32_at msg 5); payload = drop 9 msg in
         if atype = 0 then (OK, sc, w)
         else if atype = 3 then (let (rc, w1) = send_password fd password w in (rc, sc, w1))
         else if atype = 10 then auth_sasl_start fd user payload w
         else if atype = 11 \<and> sc \<noteq> None then auth_sasl_continue cr fd password (the sc) payload w
         else if atype = 12 \<and> sc \<noteq> None then (auth_sasl_final cr (the sc) payload, sc, w)
         else (OK, sc, w))
      else (OK, sc, w))"

text \<open>The events of the library after a message: \<open>None\<close> after an ErrorResponse, else whether
  ReadyForQuery was among them.\<close>

fun auth_events :: "'w pqwire \<Rightarrow> nat \<Rightarrow> bool \<Rightarrow> 'w \<Rightarrow> bool option \<times> 'w" where
  "auth_events pw 0 saw wire = (Some saw, wire)"
| "auth_events pw (Suc k) saw wire =
     (case w_next_event pw wire of
        None \<Rightarrow> (Some saw, wire)
      | Some (ev, wire') \<Rightarrow>
          (case ev of
             EvReadyForQuery \<Rightarrow> auth_events pw k True wire'
           | EvErrorResponse msg \<Rightarrow> (None, wire')
           | _ \<Rightarrow> auth_events pw k saw wire'))"

fun auth_loop :: "'w pqwire \<Rightarrow> scram_crypto \<Rightarrow> int \<Rightarrow> string \<Rightarrow> string \<Rightarrow> nat \<Rightarrow> scram option \<Rightarrow> 'w \<Rightarrow> world \<Rightarrow>
    int \<times> 'w \<times> world" where
  "auth_loop pw cr fd user password 0 sc wire w = (ERR, wire, w)"
| "auth_loop pw cr fd user password (Suc rounds) sc wire w =
     (let (rc, msg, w1) = read_msg 8192 w in
      if rc \<noteq> 0 then (ERR, wire, w1)
      else
        (let wire1 = w_feed_input pw wire msg;
             (rc2, sc', w2) = auth_step cr fd user password sc msg w1 in
         if rc2 \<noteq> 0 then (ERR, wire1, w2)
         else
           (case auth_events pw (w_n_events pw wire1) False wire1 of
              (None, wire2) \<Rightarrow> (ERR, wire2, w2)
            | (Some saw_rfq, wire2) \<Rightarrow>
                if saw_rfq then (OK, wire2, w2)
                else auth_loop pw cr fd user password rounds sc' wire2 w2)))"

definition backend_authenticate :: "'w pqwire \<Rightarrow> scram_crypto \<Rightarrow> int \<Rightarrow> 'w \<Rightarrow> string \<Rightarrow> string \<Rightarrow> string \<Rightarrow> world \<Rightarrow>
    int \<times> 'w \<times> world" where
  "backend_authenticate pw cr fd wire user password database w =
     (let (rc, wire1) = w_send_startup pw wire user database in
      if rc \<noteq> 0 then (ERR, wire1, w)
      else
        (let (b, wire2) = w_get_output pw wire1 8192 in
         if b = [] then (ERR, wire2, w)
         else
           (let (rc2, w1) = write_all fd b w in
            if rc2 \<noteq> 0 then (ERR, wire2, w1)
            else auth_loop pw cr fd user password 64 None wire2 w1)))"

section \<open>Teardown, warm-up, reconnection\<close>

definition conn_teardown_io :: "'w be_conn \<Rightarrow> 'w be_conn" where
  "conn_teardown_io c = c\<lparr>be_wire := None, be_fd := - 1, be_alive := False,
     be_send := [], be_send_off := 0, be_recv_acc := []\<rparr>"

text \<open>What the pool gives a connection to log in with: host, port, password, database.\<close>

record login =
  lo_host :: string
  lo_port :: nat
  lo_password :: string
  lo_database :: string

definition warm_one :: "'w pqwire \<Rightarrow> scram_crypto \<Rightarrow> login \<Rightarrow> 'w be_conn \<Rightarrow> string \<Rightarrow> world \<Rightarrow>
    int \<times> 'w be_conn \<times> world" where
  "warm_one pw cr lo c login_user w =
     (let c0 = conn_teardown_io c;
          (fd, w1) = tcp_connect (lo_host lo) (lo_port lo) w in
      if fd < 0 then (ERR, c0\<lparr>be_fd := fd\<rparr>, w1)
      else
        (case w_create_client pw of
           None \<Rightarrow> (ERR, c0\<lparr>be_fd := - 1\<rparr>, w1)
         | Some wire \<Rightarrow>
             (let c1 = c0\<lparr>be_fd := fd, be_login_user := strncpy_arr 128 login_user\<rparr>;
                  (rc, wire', w2) = backend_authenticate pw cr fd wire login_user
                                      (lo_password lo) (lo_database lo) w1 in
              if rc \<noteq> 0 then (ERR, conn_teardown_io (c1\<lparr>be_wire := Some wire'\<rparr>), w2)
              else (OK, c1\<lparr>be_wire := Some wire', be_alive := True, be_busy := False\<rparr>, w2))))"

definition backend_mark_dead :: "'w be_conn \<Rightarrow> 'w be_conn" where
  "backend_mark_dead c = conn_teardown_io c"

definition conn_reconnect :: "'w pqwire \<Rightarrow> scram_crypto \<Rightarrow> login \<Rightarrow> string \<Rightarrow> 'w be_conn \<Rightarrow> world \<Rightarrow>
    int \<times> 'w be_conn \<times> world" where
  "conn_reconnect pw cr lo pool_user c w =
     (let was_busy = be_busy c;
          user = strncpy_arr 128 (if be_login_user c \<noteq> [] then be_login_user c else pool_user);
          (rc, c', w') = warm_one pw cr lo c user w in
      if rc \<noteq> 0 then (ERR, c', w') else (OK, c'\<lparr>be_busy := was_busy\<rparr>, w'))"

section \<open>The blocking round trip\<close>

fun send_wire :: "'w pqwire \<Rightarrow> int \<Rightarrow> nat \<Rightarrow> 'w \<Rightarrow> world \<Rightarrow> int \<times> 'w \<times> world" where
  "send_wire pw fd 0 wire w = (OK, wire, w)"
| "send_wire pw fd (Suc k) wire w =
     (let (b, wire') = w_get_output pw wire 16384 in
      if b = [] then (OK, wire', w)
      else
        (let (rc, w') = write_all fd b w in
         if rc \<noteq> 0 then (ERR, wire', w') else send_wire pw fd k wire' w'))"

text \<open>How the read loop ends: the round trip is over (or 256 rounds are), the connection failed, or
  the answer does not fit the caller's buffer; with the bytes that are in that buffer.\<close>

datatype 'w flush_end =
    FlushDone 'w pipeline_status bytes
  | FlushDead 'w bytes
  | FlushFull 'w bytes

fun flush_loop :: "'w pqwire \<Rightarrow> nat \<Rightarrow> nat \<Rightarrow> bool \<Rightarrow> 'w \<Rightarrow> pipeline_status \<Rightarrow> bytes \<Rightarrow> world \<Rightarrow>
    'w flush_end \<times> world" where
  "flush_loop pw 0 out_cap skip wire st out w = (FlushDone wire st out, w)"
| "flush_loop pw (Suc rounds) out_cap skip wire st out w =
     (if ps_complete st then (FlushDone wire st out, w)
      else
        (let (rc, msg, w1) = read_msg 16384 w in
         if rc \<noteq> 0 then (FlushDead wire out, w1)
         else
           (let (rc2, wire1, st1) = w_pipeline_feed pw wire st msg in
            if rc2 \<noteq> 0 then (FlushDead wire1 out, w1)
            else if w_filter_type pw (msg ! 0) skip then flush_loop pw rounds out_cap skip wire1 st1 out w1
            else if length out + length msg > out_cap then (FlushFull wire1 out, w1)
            else flush_loop pw rounds out_cap skip wire1 st1 (out @ msg) w1)))"

text \<open>The result code, the bytes put into the caller's buffer (the answer, when the code is 0), the
  connection, the reported status.\<close>

definition flush_pipeline_ex :: "'w pqwire \<Rightarrow> 'w be_conn \<Rightarrow> nat \<Rightarrow> bool \<Rightarrow> world \<Rightarrow>
    int \<times> bytes \<times> 'w be_conn \<times> pipeline_status option \<times> world" where
  "flush_pipeline_ex pw c out_cap skip w =
     (case be_wire c of
        None \<Rightarrow> (ERR, [], c, None, w)
      | Some wire \<Rightarrow>
          if \<not> be_alive c then (ERR, [], c, None, w)
          else
            (let c0 = c\<lparr>be_pipe := pipe_init\<rparr>;
                 (rc, wire1, w1) = send_wire pw (be_fd c) (w_n_output pw wire) wire w in
             if rc \<noteq> 0 then (ERR, [], c0\<lparr>be_wire := Some wire1, be_alive := False\<rparr>, None, w1)
             else
               (case flush_loop pw 256 out_cap skip wire1 pipe_init [] w1 of
                  (FlushDead wire2 out, w2) \<Rightarrow> (ERR, out, c0\<lparr>be_wire := Some wire2, be_alive := False\<rparr>, None, w2)
                | (FlushFull wire2 out, w2) \<Rightarrow> (ERR, out, c0\<lparr>be_wire := Some wire2\<rparr>, None, w2)
                | (FlushDone wire2 st out, w2) \<Rightarrow>
                    (if ps_complete st then OK else ERR, out,
                     c0\<lparr>be_wire := Some wire2, be_pipe := st\<rparr>, Some st, w2))))"

definition conn_health_check :: "'w pqwire \<Rightarrow> 'w be_conn \<Rightarrow> world \<Rightarrow> int \<times> 'w be_conn \<times> world" where
  "conn_health_check pw c w =
     (case be_wire c of
        None \<Rightarrow> (ERR, c, w)
      | Some wire \<Rightarrow>
          if \<not> be_alive c then (ERR, c, w)
          else
            (let wire0 = drop_output pw 256 (w_n_output pw wire) wire;
                 (rc, wire1) = w_send_query pw wire0 ''SELECT 1'' in
             if rc \<noteq> 0 then (ERR, conn_teardown_io c, w)
             else
               (let (rc2, out, c2, st, w2) = flush_pipeline_ex pw (c\<lparr>be_wire := Some wire1\<rparr>) 2048 False w in
                if rc2 \<noteq> 0 then (ERR, conn_teardown_io c2, w2) else (OK, c2, w2))))"

section \<open>Lemmas\<close>

text \<open>A connection is well-formed: a live one has a descriptor and a context, the login fits.\<close>

definition conn_ok :: "'w be_conn \<Rightarrow> bool" where
  "conn_ok c \<longleftrightarrow> (be_alive c \<longrightarrow> 0 \<le> be_fd c \<and> be_wire c \<noteq> None) \<and> length (be_login_user c) < 128"

lemma conn_teardown_sel [simp, pool_simps]:
  "be_alive (conn_teardown_io c) = False" "be_busy (conn_teardown_io c) = be_busy c"
  "be_login_user (conn_teardown_io c) = be_login_user c" "be_slot (conn_teardown_io c) = be_slot c"
  "be_wire (conn_teardown_io c) = None" "be_fd (conn_teardown_io c) = - 1"
  by (simp_all add: conn_teardown_io_def)

lemma conn_ok_teardown [simp]: "conn_ok (conn_teardown_io c) \<longleftrightarrow> length (be_login_user c) < 128"
  by (simp add: conn_ok_def)

lemma warm_one_cases:
  assumes "warm_one pw cr lo c user w = (rc, c', w')"
  shows "rc = 0 \<and> be_alive c' \<and> \<not> be_busy c' \<and> 0 \<le> be_fd c' \<and> be_wire c' \<noteq> None \<and>
      be_login_user c' = strncpy_arr 128 user \<and> be_slot c' = be_slot c \<or>
    rc = -1 \<and> \<not> be_alive c' \<and> be_busy c' = be_busy c \<and> be_slot c' = be_slot c \<and>
      (be_login_user c' = be_login_user c \<or> be_login_user c' = strncpy_arr 128 user)"
  using assms by (auto simp: warm_one_def Let_def split: prod.splits if_splits option.splits)

lemma warm_one_ok: "warm_one pw cr lo c user w = (rc, c', w') \<Longrightarrow> conn_ok c \<Longrightarrow> conn_ok c'"
  by (drule warm_one_cases) (auto simp: conn_ok_def strncpy_arr_length)

lemma conn_reconnect_cases:
  assumes "conn_reconnect pw cr lo pu c w = (rc, c', w')" and "conn_ok c"
  shows "conn_ok c' \<and> be_busy c' = be_busy c \<and> be_slot c' = be_slot c \<and>
    (rc = 0 \<and> be_alive c' \<or> rc = -1 \<and> \<not> be_alive c') \<and>
    (be_login_user c \<noteq> [] \<longrightarrow> be_login_user c' = be_login_user c)"
proof -
  let ?u = "strncpy_arr 128 (if be_login_user c \<noteq> [] then be_login_user c else pu)"
  obtain rc1 c1 w1 where 1: "warm_one pw cr lo c ?u w = (rc1, c1, w1)" by (metis prod_cases3)
  have u: "be_login_user c \<noteq> [] \<Longrightarrow> strncpy_arr 128 ?u = be_login_user c"
    using assms(2) by (simp add: conn_ok_def strncpy_arr_fits)
  have "rc = rc1 \<and> w' = w1 \<and> c' = (if rc1 = 0 then c1\<lparr>be_busy := be_busy c\<rparr> else c1)"
    using assms(1) 1 warm_one_cases [OF 1] by (auto simp: conn_reconnect_def Let_def split: if_splits)
  with warm_one_cases [OF 1] warm_one_ok [OF 1 assms(2)] u show ?thesis
    by (auto simp: conn_ok_def)
qed

lemma flush_pipeline_keeps:
  assumes "flush_pipeline_ex pw c cap skip w = (rc, out, c', st, w')"
  shows "be_login_user c' = be_login_user c \<and> be_slot c' = be_slot c \<and> be_busy c' = be_busy c \<and>
    be_fd c' = be_fd c \<and> (be_wire c \<noteq> None \<longrightarrow> be_wire c' \<noteq> None) \<and> (be_alive c' \<longrightarrow> be_alive c) \<and>
    (rc = 0 \<longrightarrow> be_alive c')"
  using assms by (auto simp: flush_pipeline_ex_def Let_def split: prod.splits if_splits option.splits flush_end.splits)

lemma conn_health_check_cases:
  assumes "conn_health_check pw c w = (rc, c', w')" and "conn_ok c" and "be_alive c"
  shows "conn_ok c' \<and> be_login_user c' = be_login_user c \<and> be_slot c' = be_slot c \<and> be_busy c' = be_busy c \<and>
    (rc = 0 \<and> be_alive c' \<or> rc = -1 \<and> \<not> be_alive c')"
proof -
  obtain wire where wire: "be_wire c = Some wire" using assms(2,3) by (auto simp: conn_ok_def)
  let ?wire0 = "drop_output pw 256 (w_n_output pw wire) wire"
  obtain rc1 wire1 where 1: "w_send_query pw ?wire0 ''SELECT 1'' = (rc1, wire1)" by fastforce
  obtain rc2 out c2 st w2 where 2: "flush_pipeline_ex pw (c\<lparr>be_wire := Some wire1\<rparr>) 2048 False w = (rc2, out, c2, st, w2)"
    by (metis prod_cases5)
  from flush_pipeline_keeps [OF 2] assms 1 2 wire show ?thesis
    by (auto simp: conn_health_check_def Let_def conn_ok_def split: if_splits)
qed

end
