(* ===== verification/Backend_Pool.thy ===== *)
theory Backend_Pool
  imports Backend_Conn Rewrite
begin

text \<open>
  The pool of backend connections (src/backend_pool.c): its creation with the distribution of
  the slots over the configured groups, checkout with group logins, lazy logins and rotation,
  checkin, maintenance, and the blocking round trips on a checked-out connection
  (\<open>pqproxy_backend_exec_bind_ex\<close>, \<open>pqproxy_backend_exec_query\<close>). A connection pointer is an index into the pool.
  A missing group (NULL) is the empty string, as every test in the code treats it.
\<close>

section \<open>State\<close>

abbreviation (input) MAX_BACKEND_GROUPS :: nat where "MAX_BACKEND_GROUPS \<equiv> 16"
abbreviation (input) MAX_GROUP_NAME :: nat where "MAX_GROUP_NAME \<equiv> 64"

record 'w be_pool =
  po_cfg :: be_config
  po_login :: login
  po_user :: string
  po_groups :: "string list"
  po_use_group_as_user :: bool
  po_lazy_connect :: bool
  po_max_conns :: nat
  po_conns :: "'w be_conn list"
  po_n :: nat
  po_rr_cursor :: nat

definition set_conn :: "nat \<Rightarrow> 'w be_conn \<Rightarrow> 'w be_pool \<Rightarrow> 'w be_pool" where
  "set_conn i c p = p\<lparr>po_conns := (po_conns p)[i := c]\<rparr>"

definition set_busy :: "nat \<Rightarrow> bool \<Rightarrow> 'w be_pool \<Rightarrow> 'w be_pool" where
  "set_busy i b p = set_conn i ((po_conns p ! i)\<lparr>be_busy := b\<rparr>) p"

definition live_count :: "'w be_pool \<Rightarrow> nat" where
  "live_count p = length (filter be_alive (po_conns p))"

definition pool_alive :: "'w be_pool \<Rightarrow> bool" where
  "pool_alive p = list_ex be_alive (po_conns p)"

section \<open>Creation\<close>

text \<open>One entry of the group list: blanks around it go, and it is kept when it is not empty and
  fits its array. The rest starts after the comma.\<close>

definition blank :: "char \<Rightarrow> bool" where
  "blank c \<longleftrightarrow> c = CHR '' '' \<or> c = CHR 0x09"

definition trim :: "string \<Rightarrow> string" where
  "trim s = rev (dropWhile blank (rev (dropWhile blank s)))"

function parse_groups_loop :: "string \<Rightarrow> string list \<Rightarrow> nat \<Rightarrow> string list" where
  "parse_groups_loop p out maxn =
     (if p = [] \<or> length out \<ge> maxn then out
      else
        (let entry = takeWhile (\<lambda>c. c \<noteq> CHR '','') p;
             rest = drop (length entry) p;
             name = trim entry;
             out' = (if name \<noteq> [] \<and> length name < MAX_GROUP_NAME then out @ [name] else out)
         in parse_groups_loop (drop 1 rest) out' maxn))"
  by pat_completeness auto
termination
  by (relation "measure (\<lambda>(p, out, maxn). length p)")
     (auto simp: length_takeWhile_le less_Suc_eq_le diff_less_Suc intro!: diff_less)

declare parse_groups_loop.simps [simp del]

definition parse_groups :: "string \<Rightarrow> nat \<Rightarrow> string list" where
  "parse_groups csv maxn = parse_groups_loop csv [] maxn"

text \<open>Slots of a fixed login, from \<open>slot\<close> on; the number that came up is accumulated.\<close>

primrec warm_slots :: "'w pqwire \<Rightarrow> scram_crypto \<Rightarrow> nat list \<Rightarrow> string \<Rightarrow> nat \<Rightarrow> 'w be_pool \<Rightarrow> world \<Rightarrow>
    nat \<times> 'w be_pool \<times> world" where
  "warm_slots pw cr [] user ok p w = (ok, p, w)"
| "warm_slots pw cr (i # is) user ok p w =
     (let (rc, c, w1) = warm_one pw cr (po_login p) (po_conns p ! i) user w in
      warm_slots pw cr is user (if rc = 0 then ok + 1 else ok) (set_conn i c p) w1)"

text \<open>The groups in order, the first \<open>extra\<close> of them with one more slot.\<close>

primrec warm_groups :: "'w pqwire \<Rightarrow> scram_crypto \<Rightarrow> string list \<Rightarrow> nat \<Rightarrow> nat \<Rightarrow> nat \<Rightarrow> nat \<Rightarrow> 'w be_pool \<Rightarrow> world \<Rightarrow>
    nat \<times> 'w be_pool \<times> world" where
  "warm_groups pw cr [] per extra slot ok p w = (ok, p, w)"
| "warm_groups pw cr (g # gs) per extra slot ok p w =
     (if slot < po_n p then
        (let count = per + (if 0 < extra then 1 else 0);
             last = min (slot + count) (po_n p);
             (ok1, p1, w1) = warm_slots pw cr [slot..<last] g ok p w
         in warm_groups pw cr gs per (extra - 1) last ok1 p1 w1)
      else (ok, p, w))"

definition pool_size_for :: "be_config \<Rightarrow> nat \<Rightarrow> nat" where
  "pool_size_for cfg n_groups =
     (let n = (if cf_pool_size cfg \<noteq> 0 then cf_pool_size cfg else 4)
      in if cf_use_group_as_user cfg \<and> n_groups > 0 \<and> n < n_groups then n_groups else n)"

text \<open>The pool before any connection is made. The sizes are \<open>size_t\<close>: for a configured size close to
  \<open>2^64\<close> (a negative number on the command line) the room added for lazy logins wraps around.\<close>

definition pool_shell :: "be_config \<Rightarrow> 'w be_pool" where
  "pool_shell cfg =
     (let groups = parse_groups (cf_groups cfg) MAX_BACKEND_GROUPS;
          n0 = pool_size_for cfg (length groups);
          max0 = (n0 + (if cf_lazy_group_connect cfg then 16 else 0)) mod 2 ^ 64;
          maxc = (if max0 > 64 then 64 else max0);
          n = (if n0 > maxc then maxc else n0)
      in \<lparr>po_cfg = cfg,
          po_login = \<lparr>lo_host = strncpy_arr 256 (cf_host cfg), lo_port = cf_port cfg,
            lo_password = strncpy_arr 128 (cf_password cfg),
            lo_database = strncpy_arr 128 (if cf_database cfg \<noteq> [] then cf_database cfg else ''postgres'')\<rparr>,
          po_user = strncpy_arr 128 (if cf_user cfg \<noteq> [] then cf_user cfg else ''postgres''),
          po_groups = groups, po_use_group_as_user = cf_use_group_as_user cfg,
          po_lazy_connect = cf_lazy_group_connect cfg, po_max_conns = maxc,
          po_conns = map conn_init [0..<maxc], po_n = n, po_rr_cursor = 0\<rparr>)"

definition pool_warm :: "'w pqwire \<Rightarrow> scram_crypto \<Rightarrow> 'w be_pool \<Rightarrow> world \<Rightarrow> nat \<times> 'w be_pool \<times> world" where
  "pool_warm pw cr p w =
     (if po_use_group_as_user p \<and> length (po_groups p) > 0 then
        (let per = po_n p div length (po_groups p);
             extra = po_n p mod length (po_groups p)
         in warm_groups pw cr (po_groups p) (if per = 0 then 1 else per) extra 0 0 p w)
      else warm_slots pw cr [0..<po_n p] (po_user p) 0 p w)"

definition pool_create :: "'w pqwire \<Rightarrow> scram_crypto \<Rightarrow> be_config \<Rightarrow> world \<Rightarrow> 'w be_pool option \<times> world" where
  "pool_create pw cr cfg w =
     (if cf_host cfg = [] then (None, w)
      else
        (let (ok, p1, w1) = pool_warm pw cr (pool_shell cfg) w
         in if ok = 0 then (None, w1) else (Some p1, w1)))"

section \<open>Reconnection and maintenance\<close>

definition reconnect :: "'w pqwire \<Rightarrow> scram_crypto \<Rightarrow> nat \<Rightarrow> 'w be_pool \<Rightarrow> world \<Rightarrow> int \<times> 'w be_pool \<times> world" where
  "reconnect pw cr i p w =
     (let (rc, c, w1) = conn_reconnect pw cr (po_login p) (po_user p) (po_conns p ! i) w
      in (rc, set_conn i c p, w1))"

primrec maintain_loop :: "'w pqwire \<Rightarrow> scram_crypto \<Rightarrow> nat list \<Rightarrow> nat \<Rightarrow> 'w be_pool \<Rightarrow> world \<Rightarrow>
    nat \<times> 'w be_pool \<times> world" where
  "maintain_loop pw cr [] n p w = (n, p, w)"
| "maintain_loop pw cr (i # is) n p w =
     (let c = po_conns p ! i in
      if be_busy c then maintain_loop pw cr is n p w
      else if \<not> be_alive c \<and> be_login_user c \<noteq> [] then
        (let (rc, p1, w1) = reconnect pw cr i p w in
         maintain_loop pw cr is (if rc = 0 then n + 1 else n) p1 w1)
      else maintain_loop pw cr is n p w)"

definition pool_maintain :: "'w pqwire \<Rightarrow> scram_crypto \<Rightarrow> 'w be_pool \<Rightarrow> world \<Rightarrow> nat \<times> 'w be_pool \<times> world" where
  "pool_maintain pw cr p w =
     (if \<not> cf_auto_reconnect (po_cfg p) then (0, p, w)
      else
        (let (n, p1, w1) = maintain_loop pw cr [0..<po_max_conns p] 0 p w;
             m1 = (if n > 0 then metrics_inc_reconnects n (w_metrics w1) else w_metrics w1)
         in (n, p1, w1\<lparr>w_metrics := metrics_inc_maintain n m1\<rparr>)))"

section \<open>Checkout and checkin\<close>

definition checkout_try :: "'w pqwire \<Rightarrow> scram_crypto \<Rightarrow> nat \<Rightarrow> 'w be_pool \<Rightarrow> world \<Rightarrow> bool \<times> 'w be_pool \<times> world" where
  "checkout_try pw cr i p w =
     (let c = po_conns p ! i in
      if \<not> be_alive c \<or> be_busy c then (False, p, w)
      else if cf_health_check (po_cfg p) then
        (let p0 = set_busy i True p;
             (rc, c1, w1) = conn_health_check pw (po_conns p0 ! i) w;
             p1 = set_conn i c1 p0
         in if rc \<noteq> 0 then
              (let p2 = set_busy i False p1 in
               if cf_auto_reconnect (po_cfg p2) then
                 (let (rc2, p3, w2) = reconnect pw cr i p2 w1 in
                  if rc2 = 0 then (True, set_busy i True p3, w2) else (False, p3, w2))
               else (False, p2, w1))
            else (True, p1, w1))
      else (True, set_busy i True p, w))"

text \<open>The first pass: a connection of the group if one is idle, else the first idle one is
  remembered.\<close>

primrec checkout_scan :: "'w pqwire \<Rightarrow> scram_crypto \<Rightarrow> string \<Rightarrow> nat list \<Rightarrow> nat option \<Rightarrow> 'w be_pool \<Rightarrow> world \<Rightarrow>
    nat option \<times> nat option \<times> 'w be_pool \<times> world" where
  "checkout_scan pw cr grp [] fallback p w = (None, fallback, p, w)"
| "checkout_scan pw cr grp (i # is) fallback p w =
     (let c = po_conns p ! i in
      if \<not> be_alive c \<or> be_busy c then checkout_scan pw cr grp is fallback p w
      else if grp \<noteq> [] \<and> be_login_user c = grp then
        (let (got, p1, w1) = checkout_try pw cr i p w in
         if got then (Some i, fallback, p1\<lparr>po_rr_cursor := (i + 1) mod po_max_conns p1\<rparr>, w1)
         else checkout_scan pw cr grp is fallback p1 w1)
      else checkout_scan pw cr grp is (if fallback = None then Some i else fallback) p w)"

text \<open>The second pass over the connections of the group, when the group is the login.\<close>

primrec checkout_group :: "'w pqwire \<Rightarrow> scram_crypto \<Rightarrow> string \<Rightarrow> nat list \<Rightarrow> 'w be_pool \<Rightarrow> world \<Rightarrow>
    nat option \<times> 'w be_pool \<times> world" where
  "checkout_group pw cr grp [] p w = (None, p, w)"
| "checkout_group pw cr grp (i # is) p w =
     (let c = po_conns p ! i in
      if be_alive c \<and> \<not> be_busy c \<and> be_login_user c = grp then
        (let (got, p1, w1) = checkout_try pw cr i p w in
         if got then (Some i, p1\<lparr>po_rr_cursor := (i + 1) mod po_max_conns p1\<rparr>, w1)
         else checkout_group pw cr grp is p1 w1)
      else checkout_group pw cr grp is p w)"

text \<open>The lazy login on the first slot that is not alive; one attempt only.\<close>

primrec checkout_lazy :: "'w pqwire \<Rightarrow> scram_crypto \<Rightarrow> string \<Rightarrow> nat list \<Rightarrow> 'w be_pool \<Rightarrow> world \<Rightarrow>
    nat option \<times> 'w be_pool \<times> world" where
  "checkout_lazy pw cr grp [] p w = (None, p, w)"
| "checkout_lazy pw cr grp (i # is) p w =
     (if \<not> be_alive (po_conns p ! i) then
        (let (rc, c, w1) = warm_one pw cr (po_login p) (po_conns p ! i) grp w;
             p1 = set_conn i c p
         in if rc = 0 then (Some i, (set_busy i True p1)\<lparr>po_rr_cursor := (i + 1) mod po_max_conns p1\<rparr>, w1)
            else (None, p1, w1))
      else checkout_lazy pw cr grp is p w)"

definition rotation :: "'w be_pool \<Rightarrow> nat list" where
  "rotation p = map (\<lambda>i. (po_rr_cursor p mod po_max_conns p + i) mod po_max_conns p) [0..<po_max_conns p]"

definition checkout :: "'w pqwire \<Rightarrow> scram_crypto \<Rightarrow> string \<Rightarrow> 'w be_pool \<Rightarrow> world \<Rightarrow>
    nat option \<times> 'w be_pool \<times> world" where
  "checkout pw cr grp p w =
     (if po_max_conns p = 0 then (None, p, w)
      else
        (let (p0, w0) = (if cf_auto_reconnect (po_cfg p) then snd (pool_maintain pw cr p w) else (p, w));
             order = rotation p0;
             (got, fallback, p1, w1) = checkout_scan pw cr grp order None p0 w0
         in case got of
              Some i \<Rightarrow> (Some i, p1, w1)
            | None \<Rightarrow>
                if po_use_group_as_user p1 \<and> grp \<noteq> [] then
                  (let (got2, p2, w2) = checkout_group pw cr grp order p1 w1 in
                   case got2 of
                     Some i \<Rightarrow> (Some i, p2, w2)
                   | None \<Rightarrow>
                       if po_lazy_connect p2 then checkout_lazy pw cr grp order p2 w2 else (None, p2, w2))
                else
                  (case fallback of
                     None \<Rightarrow> (None, p1, w1)
                   | Some i \<Rightarrow>
                       (let (got2, p2, w2) = checkout_try pw cr i p1 w1 in
                        if got2 then
                          (Some i, p2\<lparr>po_rr_cursor := (be_slot (po_conns p2 ! i) + 1) mod po_max_conns p2\<rparr>, w2)
                        else (None, p2, w2)))))"

definition checkin :: "nat \<Rightarrow> 'w be_pool \<Rightarrow> 'w be_pool" where
  "checkin i p = set_busy i False p"

section \<open>Blocking round trips\<close>

definition exec_bind_ex :: "'w pqwire \<Rightarrow> scram_crypto \<Rightarrow> stmt_cache \<Rightarrow> pq_bind \<Rightarrow> identity \<Rightarrow> nat \<Rightarrow> 'w be_pool \<Rightarrow> world \<Rightarrow>
    int \<times> bytes \<times> pipeline_status option \<times> 'w be_pool \<times> world" where
  "exec_bind_ex pw cr cache b ident out_cap p w =
     (let (got, p1, w1) = checkout pw cr (group_name ident) p w in
      case got of
        None \<Rightarrow> (ERR, [], None, p1, w1)
      | Some i \<Rightarrow>
          (let c = po_conns p1 ! i in
           case be_wire c of
             None \<Rightarrow> (ERR, [], None, checkin i p1, w1)
           | Some wire \<Rightarrow>
               (let wire0 = drop_output pw 1024 (w_n_output pw wire) wire;
                    (rc, wire1) = on_bind pw wire0 cache b ident;
                    c1 = c\<lparr>be_wire := Some wire1, be_pipe := pipe_init\<rparr>
                in if rc \<noteq> 0 then (ERR, [], None, checkin i (set_conn i c1 p1), w1)
                   else
                     (let (rc2, out, c2, st, w2) = flush_pipeline_ex pw c1 out_cap True w1
                      in (rc2, out, st, checkin i (set_conn i c2 p1), w2)))))"

definition exec_query :: "'w pqwire \<Rightarrow> scram_crypto \<Rightarrow> string \<Rightarrow> string \<Rightarrow> nat \<Rightarrow> 'w be_pool \<Rightarrow> world \<Rightarrow>
    int \<times> bytes \<times> pipeline_status option \<times> 'w be_pool \<times> world" where
  "exec_query pw cr grp sql out_cap p w =
     (let (got, p1, w1) = checkout pw cr grp p w in
      case got of
        None \<Rightarrow> (ERR, [], None, p1, w1)
      | Some i \<Rightarrow>
          (let c = po_conns p1 ! i in
           case be_wire c of
             None \<Rightarrow> (ERR, [], None, checkin i p1, w1)
           | Some wire \<Rightarrow>
               (let wire0 = drop_output pw 1024 (w_n_output pw wire) wire;
                    (rc, wire1) = w_send_query pw wire0 sql;
                    c1 = c\<lparr>be_wire := Some wire1\<rparr>
                in if rc \<noteq> 0 then (ERR, [], None, checkin i (set_conn i c1 p1), w1)
                   else
                     (let (rc2, out, c2, st, w2) = flush_pipeline_ex pw c1 out_cap False w1
                      in (rc2, out, st, checkin i (set_conn i c2 p1), w2)))))"

section \<open>The invariant of the pool, and what an operation may change\<close>

definition pool_inv :: "'w be_pool \<Rightarrow> bool" where
  "pool_inv p \<longleftrightarrow> length (po_conns p) = po_max_conns p \<and>
     (\<forall>i < po_max_conns p. conn_ok (po_conns p ! i) \<and> be_slot (po_conns p ! i) = i \<and>
        (be_busy (po_conns p ! i) \<longrightarrow> be_alive (po_conns p ! i)))"

definition busy_set :: "'w be_pool \<Rightarrow> nat set" where
  "busy_set p = {i. i < po_max_conns p \<and> be_busy (po_conns p ! i)}"

text \<open>The fields that are fixed once the pool is created.\<close>

definition same_setup :: "'w be_pool \<Rightarrow> 'w be_pool \<Rightarrow> bool" where
  "same_setup p p' \<longleftrightarrow> po_cfg p' = po_cfg p \<and> po_login p' = po_login p \<and> po_user p' = po_user p \<and>
     po_groups p' = po_groups p \<and> po_use_group_as_user p' = po_use_group_as_user p \<and>
     po_lazy_connect p' = po_lazy_connect p \<and> po_max_conns p' = po_max_conns p \<and> po_n p' = po_n p"

text \<open>\<open>grants p got p'\<close>: connections in use are left alone, and exactly the granted one, idle
  before, becomes busy.\<close>

definition grants :: "'w be_pool \<Rightarrow> nat option \<Rightarrow> 'w be_pool \<Rightarrow> bool" where
  "grants p got p' \<longleftrightarrow> pool_inv p' \<and> same_setup p p' \<and>
     (\<forall>j \<in> busy_set p. po_conns p' ! j = po_conns p ! j) \<and>
     busy_set p' = busy_set p \<union> set_option got \<and>
     (\<forall>i. got = Some i \<longrightarrow> i < po_max_conns p \<and> i \<notin> busy_set p)"

lemma same_setup_refl [simp]: "same_setup p p"
  by (simp add: same_setup_def)

lemma grants_refl: "pool_inv p \<Longrightarrow> grants p None p"
  by (simp add: grants_def)

lemma grants_trans: "grants p None p1 \<Longrightarrow> grants p1 got p2 \<Longrightarrow> grants p got p2"
  by (auto simp: grants_def same_setup_def)

lemma set_conn_sel [simp, pool_simps]:
  "po_cfg (set_conn i c p) = po_cfg p" "po_login (set_conn i c p) = po_login p"
  "po_user (set_conn i c p) = po_user p" "po_groups (set_conn i c p) = po_groups p"
  "po_use_group_as_user (set_conn i c p) = po_use_group_as_user p"
  "po_lazy_connect (set_conn i c p) = po_lazy_connect p" "po_max_conns (set_conn i c p) = po_max_conns p"
  "po_n (set_conn i c p) = po_n p" "po_conns (set_conn i c p) = (po_conns p)[i := c]"
  "po_rr_cursor (set_conn i c p) = po_rr_cursor p"
  by (simp_all add: set_conn_def)

lemma set_conn_twice [simp]: "set_conn i c (set_conn i d p) = set_conn i c p"
  by (simp add: set_conn_def)

lemma pool_invD:
  assumes "pool_inv p" "i < po_max_conns p"
  shows "conn_ok (po_conns p ! i)" "be_slot (po_conns p ! i) = i" "length (po_conns p) = po_max_conns p"
    "be_busy (po_conns p ! i) \<Longrightarrow> be_alive (po_conns p ! i)"
  using assms by (auto simp: pool_inv_def)

text \<open>Replacing one idle connection.\<close>

lemma grants_set_conn:
  assumes "pool_inv p" "i < po_max_conns p" "\<not> be_busy (po_conns p ! i)"
    and "conn_ok c" "be_slot c = i" "be_busy c \<longrightarrow> be_alive c"
  shows "grants p (if be_busy c then Some i else None) (set_conn i c p)"
proof -
  have "length (po_conns p) = po_max_conns p" using assms(1) by (simp add: pool_inv_def)
  moreover have "pool_inv (set_conn i c p)"
    using assms by (auto simp: pool_inv_def nth_list_update)
  ultimately show ?thesis
    using assms(2,3) by (auto simp: grants_def same_setup_def busy_set_def nth_list_update)
qed

lemma cursor_sel [simp]:
  "pool_inv (p\<lparr>po_rr_cursor := k\<rparr>) = pool_inv p" "busy_set (p\<lparr>po_rr_cursor := k\<rparr>) = busy_set p"
  by (simp_all add: pool_inv_def busy_set_def)

lemma grants_cursor: "grants p got p' \<Longrightarrow> grants p got (p'\<lparr>po_rr_cursor := k\<rparr>)"
  by (simp add: grants_def same_setup_def)

section \<open>Operations\<close>

lemma reconnect_grants:
  assumes "pool_inv p" "i < po_max_conns p" "\<not> be_busy (po_conns p ! i)" and "reconnect pw cr i p w = (rc, p', w')"
  shows "grants p None p' \<and> (rc = 0 \<longleftrightarrow> be_alive (po_conns p' ! i)) \<and>
    (be_login_user (po_conns p ! i) \<noteq> [] \<longrightarrow> be_login_user (po_conns p' ! i) = be_login_user (po_conns p ! i))"
proof -
  obtain c where c: "conn_reconnect pw cr (po_login p) (po_user p) (po_conns p ! i) w = (rc, c, w')" "p' = set_conn i c p"
    using assms(4) by (auto simp: reconnect_def Let_def split: prod.splits)
  note cs = conn_reconnect_cases [OF c(1) pool_invD(1) [OF assms(1,2)]]
  have "be_slot c = i" using cs pool_invD(2) [OF assms(1,2)] by simp
  then have "grants p (if be_busy c then Some i else None) (set_conn i c p)"
    using cs assms(3) by (intro grants_set_conn [OF assms(1-3)]) auto
  with cs assms(3) show ?thesis using pool_invD(3) [OF assms(1,2)] assms(2) by (auto simp: c(2))
qed

lemma maintain_loop_grants:
  "pool_inv p \<Longrightarrow> \<forall>i \<in> set js. i < po_max_conns p \<Longrightarrow> maintain_loop pw cr js n p w = (n', p', w') \<Longrightarrow>
    grants p None p'"
proof (induction js arbitrary: n p w)
  case (Cons i js)
  show ?case
  proof (cases "\<not> be_busy (po_conns p ! i) \<and> \<not> be_alive (po_conns p ! i) \<and> be_login_user (po_conns p ! i) \<noteq> []")
    case True
    obtain rc p1 w1 where r: "reconnect pw cr i p w = (rc, p1, w1)" by (metis prod_cases3)
    have g: "grants p None p1" using reconnect_grants [OF Cons.prems(1) _ _ r] Cons.prems(2) True by auto
    then have "pool_inv p1" "po_max_conns p1 = po_max_conns p" by (auto simp: grants_def same_setup_def)
    with Cons.IH [of p1 "if rc = 0 then n + 1 else n" w1] Cons.prems True r g show ?thesis
      by (auto intro: grants_trans)
  next
    case False
    then have "maintain_loop pw cr (i # js) n p w = maintain_loop pw cr js n p w" by (auto simp: Let_def)
    with Cons show ?thesis by auto
  qed
qed (simp add: grants_refl)

lemma pool_maintain_grants:
  "pool_inv p \<Longrightarrow> pool_maintain pw cr p w = (n, p', w') \<Longrightarrow> grants p None p'"
  using maintain_loop_grants [of p "[0..<po_max_conns p]" pw cr 0 w]
  by (auto simp: pool_maintain_def grants_refl split: if_splits prod.splits)

lemma set_busy_grants:
  assumes "pool_inv p" "i < po_max_conns p" "\<not> be_busy (po_conns p ! i)" "be_alive (po_conns p ! i)"
  shows "grants p (Some i) (set_busy i True p)"
proof -
  have "grants p (if be_busy ((po_conns p ! i)\<lparr>be_busy := True\<rparr>) then Some i else None)
      (set_conn i ((po_conns p ! i)\<lparr>be_busy := True\<rparr>) p)"
    using assms pool_invD [OF assms(1,2)] by (intro grants_set_conn) (auto simp: conn_ok_def)
  then show ?thesis by (simp add: set_busy_def)
qed

lemma set_busy_sel [simp]:
  "i < length (po_conns p) \<Longrightarrow> po_conns (set_busy i b p) ! i = (po_conns p ! i)\<lparr>be_busy := b\<rparr>"
  "po_max_conns (set_busy i b p) = po_max_conns p" "po_cfg (set_busy i b p) = po_cfg p"
  "length (po_conns (set_busy i b p)) = length (po_conns p)"
  by (simp_all add: set_busy_def)

lemma checkout_try_grants:
  assumes inv: "pool_inv p" and i: "i < po_max_conns p" and run: "checkout_try pw cr i p w = (got, p', w')"
  shows "grants p (if got then Some i else None) p' \<and>
    (got \<longrightarrow> be_alive (po_conns p' ! i) \<and>
      (be_login_user (po_conns p ! i) \<noteq> [] \<longrightarrow> be_login_user (po_conns p' ! i) = be_login_user (po_conns p ! i)))"
proof -
  let ?c = "po_conns p ! i"
  note I = pool_invD [OF inv i]
  consider "\<not> be_alive ?c \<or> be_busy ?c" | "be_alive ?c" "\<not> be_busy ?c" "\<not> cf_health_check (po_cfg p)"
    | "be_alive ?c" "\<not> be_busy ?c" "cf_health_check (po_cfg p)" by blast
  then show ?thesis
  proof cases
    case 1
    then show ?thesis using run grants_refl [OF inv] by (auto simp: checkout_try_def Let_def)
  next
    case 2
    then have "p' = set_busy i True p" "got" using run by (auto simp: checkout_try_def Let_def)
    then show ?thesis using set_busy_grants [OF inv i 2(2,1)] i 2(1) I(3) by auto
  next
    case 3
    obtain rc c1 w1 where hc: "conn_health_check pw (?c\<lparr>be_busy := True\<rparr>) w = (rc, c1, w1)" by (metis prod_cases3)
    have c1: "conn_ok c1" "be_login_user c1 = be_login_user ?c" "be_slot c1 = i" "be_busy c1"
        "rc = 0 \<and> be_alive c1 \<or> rc = -1 \<and> \<not> be_alive c1"
      using conn_health_check_cases [OF hc] I 3 by (auto simp: conn_ok_def)
    have p0: "set_conn i c1 (set_busy i True p) = set_conn i c1 p" by (simp add: set_busy_def)
    have nth: "(po_conns p)[i := d] ! i = d" for d using i I(3) by simp
    show ?thesis
    proof (cases "rc = 0")
      case True
      then have "got" "p' = set_conn i c1 p"
        using run 3 hc i I(3) by (auto simp: checkout_try_def Let_def p0)
      moreover have "grants p (if be_busy c1 then Some i else None) (set_conn i c1 p)"
        using c1 True 3 by (intro grants_set_conn [OF inv i]) auto
      ultimately show ?thesis using c1 True by (simp add: nth)
    next
      case False
      let ?p2 = "set_conn i (c1\<lparr>be_busy := False\<rparr>) p"
      have sb: "set_busy i False (set_conn i c1 p) = ?p2" by (simp add: set_busy_def nth)
      have g2: "grants p None ?p2"
        using grants_set_conn [OF inv i 3(2), of "c1\<lparr>be_busy := False\<rparr>"] c1 by (simp add: conn_ok_def)
      show ?thesis
      proof (cases "cf_auto_reconnect (po_cfg p)")
        case no: False
        then have "\<not> got" "p' = ?p2"
          using run 3 hc i I(3) False by (auto simp: checkout_try_def Let_def p0 sb)
        with g2 show ?thesis by simp
      next
        case yes: True
        obtain rc2 p3 w2 where r: "reconnect pw cr i ?p2 w1 = (rc2, p3, w2)" by (metis prod_cases3)
        have inv2: "pool_inv ?p2" using g2 by (simp add: grants_def)
        have rg: "grants ?p2 None p3" "rc2 = 0 \<longleftrightarrow> be_alive (po_conns p3 ! i)"
            "be_login_user ?c \<noteq> [] \<longrightarrow> be_login_user (po_conns p3 ! i) = be_login_user ?c"
          using reconnect_grants [OF inv2 _ _ r] i c1(2) by (auto simp: nth)
        have g3: "grants p None p3" by (rule grants_trans [OF g2 rg(1)])
        then have inv3: "pool_inv p3" "i < po_max_conns p3" "\<not> be_busy (po_conns p3 ! i)"
          using i 3(2) by (auto simp: grants_def same_setup_def busy_set_def)
        have "checkout_try pw cr i p w = (rc2 = 0, if rc2 = 0 then set_busy i True p3 else p3, w2)"
          using 3 hc i I(3) False yes r by (simp add: checkout_try_def Let_def p0 sb)
        with run have res: "got = (rc2 = 0)" "p' = (if rc2 = 0 then set_busy i True p3 else p3)" by auto
        show ?thesis
        proof (cases "rc2 = 0")
          case True
          then have "grants p (Some i) (set_busy i True p3)"
            using set_busy_grants [OF inv3] rg(2) by (intro grants_trans [OF g3]) auto
          then show ?thesis using True res rg inv3 pool_invD(3) [OF inv3(1,2)] by simp
        qed (use res g3 in simp)
      qed
    qed
  qed
qed

text \<open>After a grant that leaves everything well, the granted connection is live.\<close>

lemma grants_alive:
  assumes "grants p got p'" "got = Some i"
  shows "be_alive (po_conns p' ! i)" "be_busy (po_conns p' ! i)" "i < po_max_conns p'"
proof -
  from assms have "i \<in> busy_set p'" "pool_inv p'" by (auto simp: grants_def)
  then show "be_alive (po_conns p' ! i)" "be_busy (po_conns p' ! i)" "i < po_max_conns p'"
    by (auto simp: busy_set_def pool_inv_def)
qed

lemma grants_None_idx:
  assumes "grants p None p1"
  shows "pool_inv p1" "po_max_conns p1 = po_max_conns p" "busy_set p1 = busy_set p"
    "po_use_group_as_user p1 = po_use_group_as_user p" "po_lazy_connect p1 = po_lazy_connect p"
    "po_cfg p1 = po_cfg p"
  using assms by (auto simp: grants_def same_setup_def)

lemma checkout_scan_grants:
  "pool_inv p \<Longrightarrow> \<forall>i \<in> set js. i < po_max_conns p \<Longrightarrow>
    checkout_scan pw cr grp js fb p w = (got, fb', p', w') \<Longrightarrow>
    grants p got p' \<and> (fb' = fb \<or> (\<exists>f < po_max_conns p. fb' = Some f)) \<and>
    (\<forall>i. got = Some i \<longrightarrow> grp \<noteq> [] \<and> be_login_user (po_conns p' ! i) = grp)"
proof (induction js arbitrary: fb p w)
  case (Cons i js)
  let ?c = "po_conns p ! i"
  consider "\<not> be_alive ?c \<or> be_busy ?c" | "be_alive ?c" "\<not> be_busy ?c" "grp \<noteq> [] \<and> be_login_user ?c = grp"
    | "be_alive ?c" "\<not> be_busy ?c" "\<not> (grp \<noteq> [] \<and> be_login_user ?c = grp)" by blast
  then show ?case
  proof cases
    case 1
    then have "checkout_scan pw cr grp (i # js) fb p w = checkout_scan pw cr grp js fb p w" by (auto simp: Let_def)
    with Cons show ?thesis by auto
  next
    case 2
    obtain g p1 w1 where t: "checkout_try pw cr i p w = (g, p1, w1)" by (metis prod_cases3)
    have i: "i < po_max_conns p" using Cons.prems(2) by simp
    note tg = checkout_try_grants [OF Cons.prems(1) i t]
    show ?thesis
    proof (cases g)
      case True
      then have "got = Some i" "fb' = fb" "p' = p1\<lparr>po_rr_cursor := (i + 1) mod po_max_conns p1\<rparr>"
        using Cons.prems(3) 2 t by (auto simp: Let_def)
      with tg True 2 show ?thesis by (auto intro: grants_cursor)
    next
      case False
      then have "checkout_scan pw cr grp js fb p1 w1 = (got, fb', p', w')"
        using Cons.prems(3) 2 t by (auto simp: Let_def)
      with Cons.IH [OF _ _ this] tg False Cons.prems(2) grants_None_idx [of p p1] show ?thesis
        by (auto intro: grants_trans)
    qed
  next
    case 3
    then have run: "checkout_scan pw cr grp js (if fb = None then Some i else fb) p w = (got, fb', p', w')"
      using Cons.prems(3) by (auto simp: Let_def)
    have i: "i < po_max_conns p" using Cons.prems(2) by simp
    have js: "\<forall>i \<in> set js. i < po_max_conns p" using Cons.prems(2) by simp
    from Cons.IH [OF Cons.prems(1) js run] i show ?thesis by (auto split: if_splits)
  qed
qed (simp add: grants_refl)

lemma checkout_group_grants:
  "pool_inv p \<Longrightarrow> \<forall>i \<in> set js. i < po_max_conns p \<Longrightarrow> grp \<noteq> [] \<Longrightarrow>
    checkout_group pw cr grp js p w = (got, p', w') \<Longrightarrow>
    grants p got p' \<and> (\<forall>i. got = Some i \<longrightarrow> be_login_user (po_conns p' ! i) = grp)"
proof (induction js arbitrary: p w)
  case (Cons i js)
  let ?c = "po_conns p ! i"
  show ?case
  proof (cases "be_alive ?c \<and> \<not> be_busy ?c \<and> be_login_user ?c = grp")
    case True
    obtain g p1 w1 where t: "checkout_try pw cr i p w = (g, p1, w1)" by (metis prod_cases3)
    have i: "i < po_max_conns p" using Cons.prems(2) by simp
    note tg = checkout_try_grants [OF Cons.prems(1) i t]
    show ?thesis
    proof (cases g)
      case g: True
      then have "got = Some i" "p' = p1\<lparr>po_rr_cursor := (i + 1) mod po_max_conns p1\<rparr>"
        using Cons.prems(4) True t by (auto simp: Let_def)
      with tg g True Cons.prems(3) show ?thesis by (auto intro: grants_cursor)
    next
      case False
      then have "checkout_group pw cr grp js p1 w1 = (got, p', w')"
        using Cons.prems(4) True t by (auto simp: Let_def)
      with Cons.IH [OF _ _ Cons.prems(3) this] tg False Cons.prems(2) grants_None_idx [of p p1] show ?thesis
        by (auto intro: grants_trans)
    qed
  next
    case False
    then have "checkout_group pw cr grp (i # js) p w = checkout_group pw cr grp js p w" by (auto simp: Let_def)
    with Cons show ?thesis by auto
  qed
qed (simp add: grants_refl)

lemma checkout_lazy_grants:
  "pool_inv p \<Longrightarrow> \<forall>i \<in> set js. i < po_max_conns p \<Longrightarrow>
    checkout_lazy pw cr grp js p w = (got, p', w') \<Longrightarrow>
    grants p got p' \<and> (\<forall>i. got = Some i \<longrightarrow> be_login_user (po_conns p' ! i) = strncpy_arr 128 grp)"
proof (induction js)
  case (Cons i js)
  show ?case
  proof (cases "be_alive (po_conns p ! i)")
    case False
    have i: "i < po_max_conns p" using Cons.prems(2) by simp
    note I = pool_invD [OF Cons.prems(1) i]
    obtain rc c w1 where r: "warm_one pw cr (po_login p) (po_conns p ! i) grp w = (rc, c, w1)" by (metis prod_cases3)
    have idle: "\<not> be_busy (po_conns p ! i)" using False I(4) by blast
    note wc = warm_one_cases [OF r] warm_one_ok [OF r I(1)]
    have nb: "\<not> be_busy c" "be_slot c = i" using wc(1) idle I(2) by auto
    have g: "grants p None (set_conn i c p)"
      using grants_set_conn [OF Cons.prems(1) i idle wc(2) nb(2)] nb(1) by simp
    show ?thesis
    proof (cases "rc = 0")
      case True
      have "grants (set_conn i c p) (Some i) (set_busy i True (set_conn i c p))"
        using grants_None_idx [OF g] i wc(1) True nb I(3) by (intro set_busy_grants) auto
      then have g2: "grants p (Some i) (set_busy i True (set_conn i c p))" by (rule grants_trans [OF g])
      have "got = Some i" "p' = (set_busy i True (set_conn i c p))\<lparr>po_rr_cursor := (i + 1) mod po_max_conns p\<rparr>"
        using Cons.prems(3) False r True by (auto simp: Let_def)
      with grants_cursor [OF g2] wc(1) True i I(3) show ?thesis by (simp add: set_busy_def)
    next
      case rc: False
      then have "got = None" "p' = set_conn i c p" using Cons.prems(3) False r by (auto simp: Let_def)
      with g show ?thesis by simp
    qed
  qed (use Cons in auto)
qed (simp add: grants_refl)

lemma rotation_bound: "i \<in> set (rotation p) \<Longrightarrow> i < po_max_conns p"
  by (auto simp: rotation_def)

lemma checkout_grants:
  assumes inv: "pool_inv p" and run: "checkout pw cr grp p w = (got, p', w')"
  shows "grants p got p' \<and>
    (\<forall>i. got = Some i \<longrightarrow> po_use_group_as_user p \<and> grp \<noteq> [] \<longrightarrow>
       be_login_user (po_conns p' ! i) = grp \<or> be_login_user (po_conns p' ! i) = strncpy_arr 128 grp)"
proof (cases "po_max_conns p = 0")
  case True
  then show ?thesis using run grants_refl [OF inv] by (auto simp: checkout_def)
next
  case False
  obtain p0 w0 where m: "(if cf_auto_reconnect (po_cfg p) then snd (pool_maintain pw cr p w) else (p, w)) = (p0, w0)"
    by fastforce
  have g0: "grants p None p0"
    using m grants_refl [OF inv] pool_maintain_grants [OF inv]
    by (cases "pool_maintain pw cr p w") (auto split: if_splits)
  let ?js = "rotation p0"
  have js: "\<forall>i \<in> set ?js. i < po_max_conns p0" using rotation_bound by blast
  obtain got1 fb p1 w1 where s: "checkout_scan pw cr grp ?js None p0 w0 = (got1, fb, p1, w1)" by (metis prod_cases4)
  note sg = checkout_scan_grants [OF grants_None_idx(1) [OF g0] js s]
  have g1: "grants p got1 p1" using sg grants_trans [OF g0] by blast
  show ?thesis
  proof (cases got1)
    case (Some i)
    then have "got = Some i" "p' = p1" using run False m s by (auto simp: checkout_def Let_def)
    with sg g1 Some show ?thesis by auto
  next
    case None
    note i1 = grants_None_idx [OF g1 [unfolded None]] and i0 = grants_None_idx [OF g0]
    have js1: "\<forall>i \<in> set ?js. i < po_max_conns p1" using js i0 i1 by auto
    show ?thesis
    proof (cases "po_use_group_as_user p1 \<and> grp \<noteq> []")
      case grp: True
      obtain got2 p2 w2 where c: "checkout_group pw cr grp ?js p1 w1 = (got2, p2, w2)" by (metis prod_cases3)
      note cg = checkout_group_grants [OF i1(1) js1 _ c]
      have g2: "grants p got2 p2" using cg grp g1 None grants_trans by blast
      show ?thesis
      proof (cases "got2 = None \<and> po_lazy_connect p2")
        case True
        note i2 = grants_None_idx [of p p2]
        have "checkout_lazy pw cr grp ?js p2 w2 = (got, p', w')"
          using run False m s None grp c True by (auto simp: checkout_def Let_def)
        moreover have "pool_inv p2" "\<forall>i \<in> set ?js. i < po_max_conns p2"
          using i2 g2 True js1 i1(2) by auto
        ultimately have "grants p2 got p' \<and> (\<forall>i. got = Some i \<longrightarrow> be_login_user (po_conns p' ! i) = strncpy_arr 128 grp)"
          by (intro checkout_lazy_grants)
        then show ?thesis using g2 True grants_trans by blast
      next
        case nl: False
        then have "got = got2" "p' = p2"
          using run False m s None grp c by (auto simp: checkout_def Let_def split: option.splits if_splits)
        then show ?thesis using g2 cg grp by auto
      qed
    next
      case nogrp: False
      show ?thesis
      proof (cases fb)
        case fbN: None
        then have "got = None" "p' = p1" using run False m s None nogrp by (auto simp: checkout_def Let_def)
        with g1 None show ?thesis by simp
      next
        case fbS: (Some f)
        then have f: "f < po_max_conns p1" using sg i0 i1 by auto
        obtain g p2 w2 where t: "checkout_try pw cr f p1 w1 = (g, p2, w2)" by (metis prod_cases3)
        have "grants p1 (if g then Some f else None) p2" using checkout_try_grants [OF i1(1) f t] by blast
        then have "grants p (if g then Some f else None) p2" using g1 None grants_trans by blast
        moreover have "got = (if g then Some f else None)"
          "p' = (if g then p2\<lparr>po_rr_cursor := (be_slot (po_conns p2 ! f) + 1) mod po_max_conns p2\<rparr> else p2)"
          using run False m s None nogrp fbS t by (auto simp: checkout_def Let_def split: if_splits)
        ultimately show ?thesis using nogrp i1(4) by (auto intro: grants_cursor)
      qed
    qed
  qed
qed

section \<open>Checkin and the lease contract\<close>

lemma checkin_spec:
  assumes "pool_inv p"
  shows "pool_inv (checkin i p) \<and> busy_set (checkin i p) = busy_set p - {i}"
proof (cases "i < po_max_conns p")
  case True
  with assms show ?thesis
    by (auto simp: checkin_def set_busy_def pool_inv_def busy_set_def nth_list_update conn_ok_def)
next
  case False
  then have "checkin i p = p" using assms by (simp add: checkin_def set_busy_def set_conn_def pool_inv_def list_update_beyond)
  with False assms show ?thesis by (auto simp: busy_set_def)
qed

interpretation leases: lease_pool pool_inv busy_set "checkout pw cr" checkin
  for pw :: "'w pqwire" and cr :: scram_crypto
proof unfold_locales
  fix p p' :: "'w be_pool" and got grp w w'
  assume "pool_inv p" "checkout pw cr grp p w = (got, p', w')"
  from checkout_grants [OF this]
  show "pool_inv p' \<and> busy_set p' = busy_set p \<union> set_option got \<and> (\<forall>i. got = Some i \<longrightarrow> i \<notin> busy_set p)"
    by (auto simp: grants_def)
qed (rule checkin_spec)

section \<open>Creation: the slots of each group\<close>

text \<open>The logins of the slots, in order: each group \<open>per\<close> times, the first \<open>extra\<close> groups once
  more.\<close>

primrec slot_plan :: "nat \<Rightarrow> nat \<Rightarrow> string list \<Rightarrow> string list" where
  "slot_plan per extra [] = []"
| "slot_plan per extra (g # gs) = replicate (per + (if 0 < extra then 1 else 0)) g @ slot_plan per (extra - 1) gs"

lemma length_slot_plan: "extra \<le> length gs \<Longrightarrow> length (slot_plan per extra gs) = per * length gs + extra"
  by (induction gs arbitrary: extra) auto

lemma count_slot_plan:
  "distinct gs \<Longrightarrow> i < length gs \<Longrightarrow>
    length (filter (\<lambda>g. g = gs ! i) (slot_plan per extra gs)) = per + (if i < extra then 1 else 0)"
proof (induction gs arbitrary: extra i)
  case (Cons g gs)
  have none: "filter (\<lambda>x. x = g) (slot_plan per e gs) = []" for e
  proof -
    have "set (slot_plan per e gs) \<subseteq> set gs" by (induction gs arbitrary: e) auto
    with Cons.prems(1) show ?thesis by (auto simp: filter_empty_conv)
  qed
  show ?case
  proof (cases i)
    case 0
    then show ?thesis by (simp add: none)
  next
    case (Suc j)
    with Cons.prems have "g \<noteq> gs ! j" by auto
    then show ?thesis using Suc Cons by (auto simp: filter_replicate)
  qed
qed simp

text \<open>\<open>warmed js user p p'\<close>: only idle slots of \<open>js\<close> changed, and those that are live are
  logged in as \<open>user\<close>.\<close>

definition warmed :: "nat set \<Rightarrow> (nat \<Rightarrow> string) \<Rightarrow> 'w be_pool \<Rightarrow> 'w be_pool \<Rightarrow> bool" where
  "warmed js user p p' \<longleftrightarrow> pool_inv p' \<and> same_setup p p' \<and> busy_set p' = {} \<and> po_rr_cursor p' = po_rr_cursor p \<and>
     (\<forall>i. i \<notin> js \<longrightarrow> po_conns p' ! i = po_conns p ! i) \<and>
     (\<forall>i \<in> js. be_alive (po_conns p' ! i) \<longrightarrow> be_login_user (po_conns p' ! i) = strncpy_arr 128 (user i))"

lemma warm_slots_warmed:
  "pool_inv p \<Longrightarrow> busy_set p = {} \<Longrightarrow> \<forall>i \<in> set js. i < po_max_conns p \<Longrightarrow> distinct js \<Longrightarrow>
    warm_slots pw cr js u ok p w = (ok', p', w') \<Longrightarrow>
    warmed (set js) (\<lambda>_. u) p p' \<and> ok' = ok + length (filter (\<lambda>i. be_alive (po_conns p' ! i)) js)"
proof (induction js arbitrary: ok p w)
  case (Cons i js)
  have i: "i < po_max_conns p" "\<not> be_busy (po_conns p ! i)" using Cons.prems(2,3) by (auto simp: busy_set_def)
  note I = pool_invD [OF Cons.prems(1) i(1)]
  obtain rc c w1 where r: "warm_one pw cr (po_login p) (po_conns p ! i) u w = (rc, c, w1)" by (metis prod_cases3)
  note wc = warm_one_cases [OF r] warm_one_ok [OF r I(1)]
  have c: "\<not> be_busy c" "be_slot c = i" "rc = 0 \<longleftrightarrow> be_alive c"
    using wc(1) i(2) I(2) by auto
  have g: "grants p None (set_conn i c p)"
    using grants_set_conn [OF Cons.prems(1) i wc(2) c(2)] c(1) by simp
  let ?p1 = "set_conn i c p" and ?ok = "if rc = 0 then ok + 1 else ok"
  have p1: "pool_inv ?p1" "busy_set ?p1 = {}" "\<forall>i \<in> set js. i < po_max_conns ?p1"
    using grants_None_idx [OF g] Cons.prems(2,3) by auto
  have run: "warm_slots pw cr js u ?ok ?p1 w1 = (ok', p', w')" using Cons.prems(5) r by simp
  have ih: "warmed (set js) (\<lambda>_. u) ?p1 p'" "ok' = ?ok + length (filter (\<lambda>i. be_alive (po_conns p' ! i)) js)"
    using Cons.IH [OF p1 _ run] Cons.prems(4) by simp_all
  have at_i: "po_conns p' ! i = c" using ih(1) Cons.prems(4) i I(3) by (simp add: warmed_def)
  have "warmed (set (i # js)) (\<lambda>_. u) p p'"
    using ih(1) at_i wc(1) c(3) by (auto simp: warmed_def same_setup_def)
  then show ?case using ih(2) c(3) at_i by simp
qed (auto simp: warmed_def)

lemma warmed_trans:
  assumes "warmed A f p p1" "warmed B g p1 p2" "A \<inter> B = {}"
  shows "warmed (A \<union> B) (\<lambda>i. if i \<in> A then f i else g i) p p2"
  using assms unfolding warmed_def same_setup_def by (auto split: if_splits)

lemma warmed_cong: "(\<And>i. i \<in> A \<Longrightarrow> f i = g i) \<Longrightarrow> A = B \<Longrightarrow> warmed A f p p' = warmed B g p p'"
  by (auto simp: warmed_def)

lemma warm_groups_warmed:
  "pool_inv p \<Longrightarrow> busy_set p = {} \<Longrightarrow> po_n p \<le> po_max_conns p \<Longrightarrow>
    plan = take (po_n p - slot) (slot_plan per extra gs) \<Longrightarrow>
    warm_groups pw cr gs per extra slot ok p w = (ok', p', w') \<Longrightarrow>
    warmed {slot..<slot + length plan} (\<lambda>i. plan ! (i - slot)) p p' \<and>
    ok' = ok + length (filter (\<lambda>i. be_alive (po_conns p' ! i)) [slot..<slot + length plan])"
proof (induction gs arbitrary: extra slot ok p w plan)
  case (Cons g gs)
  show ?case
  proof (cases "slot < po_n p")
    case True
    define cnt where "cnt = min (per + (if 0 < extra then 1 else 0)) (po_n p - slot)"
    define rest where "rest = take (po_n p - (slot + cnt)) (slot_plan per (extra - 1) gs)"
    have last: "min (slot + (per + (if 0 < extra then 1 else 0))) (po_n p) = slot + cnt" using True unfolding cnt_def by linarith
    have plan: "plan = replicate cnt g @ rest"
    proof -
      have "po_n p - slot - (per + (if 0 < extra then 1 else 0)) = po_n p - (slot + cnt)"
        by (simp add: cnt_def min_def)
      then show ?thesis
        unfolding Cons.prems(4) slot_plan.simps take_append length_replicate rest_def take_replicate
        by (simp add: cnt_def min.commute)
    qed
    have fit: "slot + cnt \<le> po_n p" using True by (simp add: cnt_def)
    obtain ok1 p1 w1 where s: "warm_slots pw cr [slot..<slot + cnt] g ok p w = (ok1, p1, w1)" by (metis prod_cases3)
    have run: "warm_groups pw cr gs per (extra - 1) (slot + cnt) ok1 p1 w1 = (ok', p', w')"
      using Cons.prems(5) s True unfolding warm_groups.simps Let_def last by simp
    have 1: "warmed {slot..<slot + cnt} (\<lambda>_. g) p p1" "ok1 = ok + length (filter (\<lambda>i. be_alive (po_conns p1 ! i)) [slot..<slot + cnt])"
      using warm_slots_warmed [OF Cons.prems(1,2) _ _ s] fit Cons.prems(3) by auto
    then have p1: "pool_inv p1" "busy_set p1 = {}" "po_n p1 \<le> po_max_conns p1" "po_n p1 = po_n p"
      using Cons.prems(3) by (auto simp: warmed_def same_setup_def)
    have 2: "warmed {slot + cnt..<slot + cnt + length rest} (\<lambda>i. rest ! (i - (slot + cnt))) p1 p'"
      "ok' = ok1 + length (filter (\<lambda>i. be_alive (po_conns p' ! i)) [slot + cnt..<slot + cnt + length rest])"
      using Cons.IH [OF p1(1-3) _ run, of rest] p1(4) by (simp_all add: rest_def)
    have all: "{slot..<slot + cnt} \<union> {slot + cnt..<slot + cnt + length rest} = {slot..<slot + length (replicate cnt g @ rest)}"
      by auto
    have "warmed ({slot..<slot + cnt} \<union> {slot + cnt..<slot + cnt + length rest})
        (\<lambda>i. if i \<in> {slot..<slot + cnt} then g else rest ! (i - (slot + cnt))) p p'"
      by (rule warmed_trans [OF 1(1) 2(1)]) auto
    then have w: "warmed {slot..<slot + length (replicate cnt g @ rest)} (\<lambda>i. (replicate cnt g @ rest) ! (i - slot)) p p'"
      unfolding all [symmetric]
      by (rule iffD1 [OF warmed_cong, rotated 2]) (auto simp: nth_append diff_diff_eq)
    have "be_alive (po_conns p' ! i) = be_alive (po_conns p1 ! i)" if "i \<in> set [slot..<slot + cnt]" for i
      using 2(1) that by (simp add: warmed_def)
    then have "filter (\<lambda>i. be_alive (po_conns p' ! i)) [slot..<slot + cnt] = filter (\<lambda>i. be_alive (po_conns p1 ! i)) [slot..<slot + cnt]"
      by (intro filter_cong) auto
    moreover have "[slot..<slot + (cnt + length rest)] = [slot..<slot + cnt] @ [slot + cnt..<slot + cnt + length rest]"
      using upt_add_eq_append [of slot "slot + cnt" "length rest"] by (simp add: add.assoc)
    ultimately show ?thesis using w 1(2) 2(2) unfolding plan by simp
  qed (use Cons.prems in \<open>auto simp: warmed_def\<close>)
qed (auto simp: warmed_def)

section \<open>The list of groups\<close>

lemma parse_groups_bound: "length out \<le> maxn \<Longrightarrow> length (parse_groups_loop p out maxn) \<le> maxn"
proof (induction p out maxn rule: parse_groups_loop.induct)
  case (1 p out maxn)
  show ?case
  proof (cases "p = [] \<or> length out \<ge> maxn")
    case True
    then show ?thesis using 1(2) by (subst parse_groups_loop.simps) auto
  next
    case False
    then show ?thesis using 1(1) [OF False refl refl refl refl]
      by (subst parse_groups_loop.simps) (simp add: Let_def)
  qed
qed

lemma hd_dropWhile_trim: "trim s \<noteq> [] \<Longrightarrow> \<not> blank (hd (trim s)) \<and> \<not> blank (last (trim s))"
proof -
  assume ne: "trim s \<noteq> []"
  let ?d = "dropWhile blank s"
  have "?d \<noteq> []"
  proof
    assume "?d = []"
    then have "trim s = []" by (simp only: trim_def rev.simps dropWhile.simps)
    with ne show False by simp
  qed
  then have h: "\<not> blank (hd ?d)" by (simp add: hd_dropWhile)
  have l: "\<not> blank (last (trim s))"
    using ne hd_dropWhile [of blank "rev ?d"] by (simp add: trim_def last_rev)
  have "\<exists>r. ?d = trim s @ r"
    unfolding trim_def by (metis rev_append rev_rev_ident takeWhile_dropWhile_id)
  then have "hd (trim s) = hd ?d" using ne by (metis hd_append2)
  with h l show ?thesis by simp
qed

lemma set_trim: "set (trim s) \<subseteq> set s"
  unfolding trim_def by (metis set_dropWhileD set_rev subsetI)

definition group_text :: "string \<Rightarrow> bool" where
  "group_text g \<longleftrightarrow> g \<noteq> [] \<and> length g < 64 \<and> CHR '','' \<notin> set g \<and> \<not> blank (hd g) \<and> \<not> blank (last g)"

lemma parse_groups_text:
  "\<forall>g \<in> set out. group_text g \<Longrightarrow> \<forall>g \<in> set (parse_groups_loop p out maxn). group_text g"
proof (induction p out maxn rule: parse_groups_loop.induct)
  case (1 p out maxn)
  show ?case
  proof (cases "p = [] \<or> length out \<ge> maxn")
    case True
    then show ?thesis using 1(2) by (subst parse_groups_loop.simps) auto
  next
    case False
    let ?name = "trim (takeWhile (\<lambda>c. c \<noteq> CHR '','') p)"
    have "group_text ?name" if "?name \<noteq> []" "length ?name < 64"
      using that hd_dropWhile_trim [OF that(1)] set_trim [of "takeWhile (\<lambda>c. c \<noteq> CHR '','') p"]
      by (auto simp: group_text_def dest: set_takeWhileD)
    then have ok: "\<forall>g \<in> set (if ?name \<noteq> [] \<and> length ?name < 64 then out @ [?name] else out). group_text g"
      using 1(2) by auto
    show ?thesis
      using 1(1) [OF False refl refl refl refl ok]
      unfolding parse_groups_loop.simps [of p out maxn] Let_def if_not_P [OF False] .
  qed
qed

text \<open>Reading back the names joined with commas.\<close>

primrec join_groups :: "string list \<Rightarrow> string" where
  "join_groups [] = []"
| "join_groups (g # gs) = g @ (if gs = [] then [] else CHR '','' # join_groups gs)"

lemma take_to_comma:
  "CHR '','' \<notin> set g \<Longrightarrow> r = [] \<or> hd r = CHR '','' \<Longrightarrow> takeWhile (\<lambda>c. c \<noteq> CHR '','') (g @ r) = g"
  by (induction g) (cases r; auto)+

lemma trim_id: "group_text g \<Longrightarrow> trim g = g"
proof -
  assume g: "group_text g"
  then have "dropWhile blank g = g" by (cases g) (auto simp: group_text_def)
  moreover have "dropWhile blank (rev g) = rev g"
    using g by (cases g rule: rev_cases) (auto simp: group_text_def)
  ultimately show ?thesis by (simp add: trim_def)
qed

lemma parse_groups_join:
  "\<forall>g \<in> set gs. group_text g \<Longrightarrow> length out + length gs \<le> maxn \<Longrightarrow>
    parse_groups_loop (join_groups gs) out maxn = out @ gs"
proof (induction gs arbitrary: out)
  case (Cons g gs)
  have g: "group_text g" "g \<noteq> []" "length g < 64" "CHR '','' \<notin> set g"
    using Cons.prems(1) by (auto simp: group_text_def)
  have tw: "takeWhile (\<lambda>c. c \<noteq> CHR '','') (join_groups (g # gs)) = g"
    unfolding join_groups.simps by (rule take_to_comma [OF g(4)]) simp
  have "parse_groups_loop (join_groups (g # gs)) out maxn = parse_groups_loop (join_groups gs) (out @ [g]) maxn"
  proof -
    have "join_groups (g # gs) \<noteq> []" "drop 1 (drop (length g) (join_groups (g # gs))) = join_groups gs"
      using g(2) by simp_all
    then show ?thesis
      using g(2,3) Cons.prems(2) unfolding parse_groups_loop.simps [of "join_groups (g # gs)"] tw trim_id [OF g(1)] Let_def
      by simp
  qed
  also have "\<dots> = (out @ [g]) @ gs" using Cons by (intro Cons.IH) auto
  finally show ?case by simp
qed (simp add: parse_groups_loop.simps)

section \<open>The pool that creation starts from\<close>

lemma pool_shell_facts:
  fixes p :: "'w be_pool"
  assumes p: "p = pool_shell cfg"
  shows "pool_inv p" "busy_set p = {}" "po_n p \<le> po_max_conns p" "po_max_conns p \<le> 64"
    "length (po_groups p) \<le> 16" "\<forall>g \<in> set (po_groups p). group_text g"
    "cf_pool_size cfg < 2 ^ 64 - 16 \<Longrightarrow> po_use_group_as_user p \<Longrightarrow> length (po_groups p) \<le> po_n p"
proof -
  have conns: "po_conns p = map conn_init [0..<po_max_conns p]" by (simp add: p pool_shell_def Let_def)
  show "pool_inv p" by (auto simp: pool_inv_def conns conn_init_def conn_ok_def)
  show "busy_set p = {}" by (auto simp: busy_set_def conns conn_init_def)
  show "po_n p \<le> po_max_conns p" "po_max_conns p \<le> 64" by (simp_all add: p pool_shell_def Let_def)
  have len: "length (parse_groups (cf_groups cfg) 16) \<le> 16"
    unfolding parse_groups_def by (rule parse_groups_bound) simp
  show "length (po_groups p) \<le> 16" using len by (simp add: p pool_shell_def Let_def)
  show "\<forall>g \<in> set (po_groups p). group_text g"
    using parse_groups_text [of "[]" "cf_groups cfg" 16] by (simp add: p pool_shell_def Let_def parse_groups_def)
  show "length (po_groups p) \<le> po_n p" if "cf_pool_size cfg < 2 ^ 64 - 16" "po_use_group_as_user p"
    using that len by (auto simp: p pool_shell_def pool_size_for_def Let_def split: if_splits)
qed

text \<open>The logins of the slots that creation warms.\<close>

definition planned_logins :: "be_config \<Rightarrow> string list" where
  "planned_logins cfg =
     (let p = pool_shell cfg :: unit be_pool; gs = po_groups p; n = po_n p in
      if cf_use_group_as_user cfg \<and> gs \<noteq> [] then take n (slot_plan (if n div length gs = 0 then 1 else n div length gs) (n mod length gs) gs)
      else replicate n (po_user p))"

lemma length_planned: "length (planned_logins cfg) = po_n (pool_shell cfg :: unit be_pool)"
proof (cases "cf_use_group_as_user cfg \<and> po_groups (pool_shell cfg :: unit be_pool) \<noteq> []")
  case True
  let ?p = "pool_shell cfg :: unit be_pool"
  have "po_n ?p mod length (po_groups ?p) \<le> length (po_groups ?p)" using True by (simp add: less_imp_le)
  from length_slot_plan [OF this] True show ?thesis by (auto simp: planned_logins_def Let_def div_eq_0_iff)
qed (auto simp: planned_logins_def Let_def)

lemma planned_share:
  fixes p :: "'w be_pool"
  assumes share: "share = length (filter (\<lambda>x. x = g) (planned_logins cfg))"
    and p: "po_n p = po_n (pool_shell cfg :: 'w be_pool)" "po_groups p = po_groups (pool_shell cfg :: 'w be_pool)"
    and cfg: "cf_pool_size cfg < 2 ^ 64 - 16" "cf_use_group_as_user cfg"
    and g: "distinct (po_groups p)" "g \<in> set (po_groups p)"
  shows "0 < share \<and> (share = po_n p div length (po_groups p) \<or> share = po_n p div length (po_groups p) + 1)"
proof -
  obtain k where k: "k < length (po_groups p)" "g = po_groups p ! k" using g(2) by (metis in_set_conv_nth)
  have e: "po_groups (pool_shell cfg :: unit be_pool) = po_groups p" "po_n (pool_shell cfg :: unit be_pool) = po_n p"
    using p by (simp_all add: pool_shell_def Let_def)
  have "po_use_group_as_user (pool_shell cfg :: 'w be_pool)" using cfg(2) by (simp add: pool_shell_def Let_def)
  from pool_shell_facts(7) [OF refl cfg(1) this] have per: "0 < po_n p div length (po_groups p)"
    using k(1) p by (auto simp: div_greater_zero_iff)
  let ?plan = "slot_plan (po_n p div length (po_groups p)) (po_n p mod length (po_groups p)) (po_groups p)"
  have "po_n p mod length (po_groups p) \<le> length (po_groups p)" using k(1) by (intro less_imp_le mod_less_divisor) auto
  from length_slot_plan [OF this] have "length ?plan = po_n p" by simp
  moreover have "planned_logins cfg = take (po_n p) ?plan"
    using cfg(2) g(2) per by (auto simp: planned_logins_def Let_def e)
  ultimately have "planned_logins cfg = ?plan" by simp
  then have "share = po_n p div length (po_groups p) + (if k < po_n p mod length (po_groups p) then 1 else 0)"
    using count_slot_plan [OF g(1) k(1)] k(2) by (simp add: share)
  with per show ?thesis by simp
qed

lemma pool_create_warmed:
  assumes "pool_create pw cr cfg w = (Some p, w')"
  shows "warmed {..<length (planned_logins cfg)} (\<lambda>i. planned_logins cfg ! i) (pool_shell cfg) p \<and>
    (\<exists>i < length (planned_logins cfg). be_alive (po_conns p ! i))"
proof -
  let ?p = "pool_shell cfg :: 'a be_pool"
  note F = pool_shell_facts [of ?p cfg, OF refl]
  let ?gs = "po_groups ?p" and ?n = "po_n ?p"
  obtain ok p1 w1 where run: "pool_warm pw cr ?p w = (ok, p1, w1)" by (metis prod_cases3)
  have ok: "ok > 0" "p1 = p"
    using assms run by (auto simp: pool_create_def split: if_splits)
  have f: "po_groups (pool_shell cfg :: unit be_pool) = ?gs" "po_n (pool_shell cfg :: unit be_pool) = ?n"
      "po_user (pool_shell cfg :: unit be_pool) = po_user ?p" "po_use_group_as_user ?p = cf_use_group_as_user cfg"
    by (simp_all add: pool_shell_def Let_def)
  have n: "length (planned_logins cfg) = ?n" by (simp add: length_planned f)
  have "warmed {..<?n} (\<lambda>i. planned_logins cfg ! i) ?p p1 \<and>
      ok = length (filter (\<lambda>i. be_alive (po_conns p1 ! i)) [0..<?n])"
  proof (cases "po_use_group_as_user ?p \<and> length ?gs > 0")
    case True
    let ?per = "if ?n div length ?gs = 0 then 1 else ?n div length ?gs"
    have plan: "planned_logins cfg = take (?n - 0) (slot_plan ?per (?n mod length ?gs) ?gs)"
      using True by (simp add: planned_logins_def f Let_def)
    have "warm_groups pw cr ?gs ?per (?n mod length ?gs) 0 0 ?p w = (ok, p1, w1)"
      using run True by (simp add: pool_warm_def Let_def)
    from warm_groups_warmed [OF F(1-3) plan this] n show ?thesis by (simp add: atLeast0LessThan)
  next
    case False
    then have plan: "planned_logins cfg = replicate ?n (po_user ?p)"
      by (auto simp: planned_logins_def f Let_def)
    have r: "warm_slots pw cr [0..<?n] (po_user ?p) 0 ?p w = (ok, p1, w1)" using run False by (auto simp: pool_warm_def)
    have "warmed {..<?n} (\<lambda>_. po_user ?p) ?p p1 = warmed {..<?n} (\<lambda>i. planned_logins cfg ! i) ?p p1"
      by (rule warmed_cong) (auto simp: plan)
    moreover have "\<forall>i \<in> set [0..<?n]. i < po_max_conns ?p" using F(3) by auto
    ultimately show ?thesis using warm_slots_warmed [OF F(1,2) _ _ r] by (simp add: atLeast0LessThan)
  qed
  then have w: "warmed {..<?n} (\<lambda>i. planned_logins cfg ! i) ?p p"
    and live: "0 < length (filter (\<lambda>i. be_alive (po_conns p ! i)) [0..<?n])" using ok by auto
  from live have "filter (\<lambda>i. be_alive (po_conns p ! i)) [0..<?n] \<noteq> []" by simp
  then have "\<exists>i < ?n. be_alive (po_conns p ! i)" by (auto simp: filter_empty_conv)
  with w n show ?thesis by simp
qed

section \<open>Properties\<close>


text \<open>A checkout disturbs nobody: on a well-formed pool every connection that is in use stays
  exactly as it is, through the maintenance, the health checks, the reconnections and the lazy
  login that a checkout may trigger; a granted connection was idle, is live afterwards and is
  the only one that becomes busy; a checkout that fails makes none busy; and the pool stays
  well-formed.\<close>

theorem checkout_grants_one_idle_connection:
  assumes "pool_inv p" and "checkout pw cr grp p w = (got, p', w')"
  shows "pool_inv p' \<and> (\<forall>j \<in> busy_set p. po_conns p' ! j = po_conns p ! j) \<and>
    (case got of
       None \<Rightarrow> busy_set p' = busy_set p
     | Some i \<Rightarrow> i < po_max_conns p \<and> i \<notin> busy_set p \<and> be_alive (po_conns p' ! i) \<and>
         be_wire (po_conns p' ! i) \<noteq> None \<and> 0 \<le> be_fd (po_conns p' ! i) \<and> busy_set p' = insert i (busy_set p))"
proof -
  have g: "grants p got p'" using checkout_grants [OF assms] by blast
  show ?thesis
  proof (cases got)
    case (Some i)
    note a = grants_alive [OF g Some]
    have "pool_inv p'" using g by (simp add: grants_def)
    from pool_invD(1) [OF this a(3)] g Some a show ?thesis by (auto simp: grants_def conn_ok_def)
  qed (use g in \<open>auto simp: grants_def\<close>)
qed

text \<open>C15. No connection is ever held by two frontends: from a fresh pool, over any sequence of
  checkouts (for any groups) and checkins of what was handed out, the connections held are
  distinct and are exactly those the pool has marked busy.\<close>

theorem no_connection_leased_twice:
  assumes "pool_create pw cr cfg w = (Some p, w0)"
    and "lease_run (checkout pw cr) checkin ops (p, w0, []) = (p', w', held)"
  shows "distinct held \<and> set held = busy_set p' \<and> pool_inv p'"
proof -
  have "pool_inv p" "busy_set p = {}" using pool_create_warmed [OF assms(1)] by (simp_all add: warmed_def)
  with leases.ledger_exact [OF _ _ _ assms(2)] show ?thesis by simp
qed


text \<open>The group list: parsing keeps at most the given number of names, each of them not empty,
  below 64 bytes, without comma and without blanks around it; and a list of such names joined by
  commas is read back unchanged.\<close>

theorem parse_groups_round_trip:
  "length (parse_groups csv maxn) \<le> maxn \<and> (\<forall>g \<in> set (parse_groups csv maxn). group_text g) \<and>
   ((\<forall>g \<in> set gs. group_text g) \<and> length gs \<le> maxn \<longrightarrow> parse_groups (join_groups gs) maxn = gs)"
  using parse_groups_bound [of "[]" maxn csv] parse_groups_text [of "[]" csv maxn]
    parse_groups_join [of gs "[]" maxn] by (simp add: parse_groups_def)

section \<open>Witnesses\<close>

definition demo_cfg :: be_config where
  "demo_cfg = backend_config_defaults\<lparr>cf_pool_size := 1, cf_lazy_group_connect := False, cf_auto_reconnect := False\<rparr>"

text \<open>One address, a socket, a connection, the startup message, and a backend that trusts us.\<close>

definition demo_world :: world where
  "demo_world = \<lparr>w_io = [Ret 1, Ret 5, Ret 0, Ret 1, Seg [82, 0, 0, 0, 8, 0, 0, 0, 0], Seg [90, 0, 0, 0, 5, 73]],
     w_log = [], w_metrics = metrics_zero\<rparr>"

definition demo_conn :: "ref_wire be_conn" where
  "demo_conn = (conn_init 0)\<lparr>be_fd := 5, be_wire := Some ref_wire0, be_login_user := ''postgres'', be_alive := True\<rparr>"

lemma demo_read_msg:
  "read_msg 8192 \<lparr>w_io = Seg [82, 0, 0, 0, 8, 0, 0, 0, 0] # s, w_log = l, w_metrics = m\<rparr> =
     (0, [82, 0, 0, 0, 8, 0, 0, 0, 0], \<lparr>w_io = s, w_log = l, w_metrics = m\<rparr>)"
  "read_msg 8192 \<lparr>w_io = Seg [90, 0, 0, 0, 5, 73] # s, w_log = l, w_metrics = m\<rparr> =
     (0, [90, 0, 0, 0, 5, 73], \<lparr>w_io = s, w_log = l, w_metrics = m\<rparr>)"
  by (simp_all add: read_msg_def read_until.simps be32_at_def Let_def)

lemma demo_auth_loop:
  "auth_loop ref_pw demo_crypto fd u pwd (Suc (Suc k)) None \<lparr>rw_sent = x, rw_out = [], rw_events = []\<rparr>
     \<lparr>w_io = [Seg [82, 0, 0, 0, 8, 0, 0, 0, 0], Seg [90, 0, 0, 0, 5, 73]], w_log = l, w_metrics = m\<rparr> =
   (0, \<lparr>rw_sent = x, rw_out = [], rw_events = []\<rparr>, \<lparr>w_io = [], w_log = l, w_metrics = m\<rparr>)"
  by (simp add: demo_read_msg auth_step_def Let_def be32_at_def ref_pw_sel)

lemma demo_warm:
  "warm_one ref_pw demo_crypto lo (conn_init 0) ''postgres'' demo_world =
     (0, demo_conn, \<lparr>w_io = [], w_log = [(5, [83])], w_metrics = metrics_zero\<rparr>)"
  unfolding warm_one_def Let_def demo_world_def tcp_connect_def
  by (simp add: next_io_def backend_authenticate_def ref_pw_sel ref_wire0_def ref_put_def write_all.simps
      demo_auth_loop [of _ _ _ 62, simplified] demo_conn_def conn_init_def conn_teardown_io_def strncpy_arr_def)

lemma demo_shell:
  "pool_shell demo_cfg = \<lparr>po_cfg = demo_cfg,
     po_login = \<lparr>lo_host = ''127.0.0.1'', lo_port = 5432, lo_password = '''', lo_database = ''postgres''\<rparr>,
     po_user = ''postgres'', po_groups = [], po_use_group_as_user = False, po_lazy_connect = False,
     po_max_conns = 1, po_conns = [conn_init 0], po_n = 1, po_rr_cursor = 0\<rparr>"
  by (simp add: pool_shell_def demo_cfg_def backend_config_defaults_def parse_groups_def parse_groups_loop.simps
      pool_size_for_def strncpy_arr_def Let_def)

definition demo_pool :: "ref_wire be_pool" where
  "demo_pool = (pool_shell demo_cfg)\<lparr>po_conns := [demo_conn]\<rparr>"

definition demo_world' :: world where
  "demo_world' = \<lparr>w_io = [], w_log = [(5, [83])], w_metrics = metrics_zero\<rparr>"

lemma demo_create: "pool_create ref_pw demo_crypto demo_cfg demo_world = (Some demo_pool, demo_world')"
proof -
  have "cf_host demo_cfg \<noteq> []" by (simp add: demo_cfg_def backend_config_defaults_def)
  then show ?thesis
    by (simp add: pool_create_def pool_warm_def demo_shell demo_warm set_conn_def upt_rec demo_pool_def demo_world'_def)
qed


text \<open>A second pool, of group logins.\<close>

definition demo_groups :: "ref_wire be_pool" where
  "demo_groups = demo_pool\<lparr>po_use_group_as_user := True, po_max_conns := 2, po_n := 2,
     po_conns := [demo_conn\<lparr>be_login_user := ''east''\<rparr>, demo_conn\<lparr>be_login_user := ''west'', be_slot := 1\<rparr>]\<rparr>"

lemma demo_groups_sel:
  "po_max_conns demo_groups = 2" "po_cfg demo_groups = demo_cfg"
  "be_alive (po_conns demo_groups ! 0)" "\<not> be_busy (po_conns demo_groups ! 0)"
  "be_login_user (po_conns demo_groups ! 0) = ''east''" "be_alive (po_conns demo_groups ! Suc 0)"
  "\<not> be_busy (po_conns demo_groups ! Suc 0)" "be_login_user (po_conns demo_groups ! Suc 0) = ''west''"
  by (simp_all add: demo_groups_def demo_pool_def demo_shell demo_conn_def conn_init_def)

lemma demo_cfg_sel: "\<not> cf_auto_reconnect demo_cfg" "\<not> cf_health_check demo_cfg"
  by (simp_all add: demo_cfg_def backend_config_defaults_def)

lemma demo_pool_sel:
  "po_max_conns demo_pool = 1" "po_cfg demo_pool = demo_cfg" "po_conns demo_pool = [demo_conn]"
  "\<not> po_use_group_as_user demo_pool" "be_alive demo_conn" "\<not> be_busy demo_conn"
  "be_login_user demo_conn = ''postgres''" "be_slot demo_conn = 0"
  by (simp_all add: demo_pool_def demo_shell demo_conn_def conn_init_def)

lemma demo_groups_inv: "pool_inv demo_groups"
  by (auto simp: pool_inv_def demo_groups_def demo_pool_def demo_shell demo_conn_def conn_init_def conn_ok_def
      less_Suc_eq numeral_2_eq_2)

lemma demo_checkout:
  "checkout ref_pw demo_crypto ''west'' demo_groups demo_world' =
     (Some 1, (set_busy 1 True demo_groups)\<lparr>po_rr_cursor := 0\<rparr>, demo_world')"
proof -
  have "rotation demo_groups = [0, 1]"
    by (simp add: rotation_def demo_groups_def demo_pool_def demo_shell upt_rec)
  then show ?thesis by (simp add: checkout_def checkout_try_def demo_groups_sel demo_cfg_sel Let_def)
qed


theorem checkout_grants_one_idle_connection_witness:
  "\<exists>p' w'. checkout ref_pw demo_crypto ''west'' demo_groups demo_world' = (Some 1, p', w') \<and>
    be_alive (po_conns p' ! 1) \<and> busy_set p' = insert 1 (busy_set demo_groups)"
  using checkout_grants_one_idle_connection [OF demo_groups_inv demo_checkout] demo_checkout by auto

theorem no_connection_leased_twice_witness:
  "\<exists>p' w' held. lease_run (checkout ref_pw demo_crypto) checkin [Acquire ''a'', Acquire ''b'', Release 0, Acquire ''b'']
      (demo_pool, demo_world', []) = (p', w', held) \<and> distinct held \<and> set held = busy_set p'"
proof -
  obtain p' w' held where r: "lease_run (checkout ref_pw demo_crypto) checkin
      [Acquire ''a'', Acquire ''b'', Release 0, Acquire ''b''] (demo_pool, demo_world', []) = (p', w', held)"
    by (metis prod_cases3)
  from no_connection_leased_twice [OF demo_create r] r show ?thesis by blast
qed

theorem parse_groups_round_trip_witness:
  "parse_groups (join_groups [''east'', ''west'']) 16 = [''east'', ''west'']"
  using parse_groups_round_trip [where gs = "[''east'', ''west'']" and maxn = 16]
  by (simp add: group_text_def blank_def)

end
