(* ===== verification/Backend_Async.thy ===== *)
theory Backend_Async
  imports Backend_Pool
begin

text \<open>
  The asynchronous side of a pool connection (src/backend_pool.c, the functions
  \<open>pqproxy_backend_async_*\<close>), which the event loop drives: starting a pipeline into the send buffer, advancing over what was sent,
  reassembling the messages of the answer from the chunks received, and finishing. The state
  is the connection record of \<open>Backend_Conn\<close>.
\<close>

section \<open>Receiving\<close>

text \<open>One message: the wire context, the status and the output after it, and whether the answer is
  complete; \<open>None\<close> for -1.\<close>

definition be_filter_append :: "'w pqwire \<Rightarrow> bool \<Rightarrow> nat \<Rightarrow> 'w \<Rightarrow> pipeline_status \<Rightarrow> bytes \<Rightarrow> bytes \<Rightarrow>
    int \<times> 'w \<times> pipeline_status \<times> bytes \<times> bool" where
  "be_filter_append pw skip out_cap wire st msg out =
     (if length msg < 5 then (ERR, wire, st, out, False)
      else
        (case w_msg_peek pw msg of
           None \<Rightarrow> (ERR, wire, st, out, False)
         | Some (kind, tot) \<Rightarrow>
             if tot \<noteq> length msg then (ERR, wire, st, out, False)
             else
               (let (rc, wire1, st1) = w_pipeline_feed pw wire st msg in
                if rc \<noteq> 0 then (ERR, wire1, st1, out, False)
                else if w_filter_type pw kind skip then (OK, wire1, st1, out, ps_complete st1)
                else if length out + length msg > out_cap then (ERR, wire1, st1, out, False)
                else (OK, wire1, st1, out @ msg, ps_complete st1))))"

text \<open>The loop over the accumulated bytes, here what is left of them: result, completion, context,
  status, the bytes left, the output.\<close>

function recv_loop :: "'w pqwire \<Rightarrow> bool \<Rightarrow> nat \<Rightarrow> 'w \<Rightarrow> pipeline_status \<Rightarrow> bytes \<Rightarrow> bytes \<Rightarrow>
    int \<times> bool \<times> 'w \<times> pipeline_status \<times> bytes \<times> bytes" where
  "recv_loop pw skip out_cap wire st rest out =
     (if length rest < 5 then (OK, False, wire, st, rest, out)
      else
        (let mlen = unat (be32_at rest 1) in
         if mlen < 4 then (ERR, False, wire, st, rest, out)
         else
           (let tot = 1 + mlen in
            if tot > length rest then (OK, False, wire, st, rest, out)
            else
              (case be_filter_append pw skip out_cap wire st (take tot rest) out of
                 (rc, wire1, st1, out1, saw_rfq) \<Rightarrow>
                   if rc \<noteq> 0 then (ERR, False, wire1, st1, rest, out1)
                   else if saw_rfq then (OK, True, wire1, st1, drop tot rest, out1)
                   else recv_loop pw skip out_cap wire1 st1 (drop tot rest) out1))))"
  by pat_completeness auto
termination by (relation "measure (\<lambda>(pw, skip, cap, wire, st, rest, out). length rest)") auto

declare recv_loop.simps [simp del]

text \<open>On an error the accumulated bytes are not compacted. A connection without a context does not
  occur while a pipeline runs.\<close>

definition async_on_recv :: "'w pqwire \<Rightarrow> 'w be_conn \<Rightarrow> bytes \<Rightarrow> bytes \<Rightarrow> nat \<Rightarrow> int \<times> bool \<times> 'w be_conn \<times> bytes" where
  "async_on_recv pw c data out out_cap =
     (if length (be_recv_acc c) + length data > BE_RECV_CAP then (ERR, False, c, out)
      else
        (let acc = be_recv_acc c @ data in
         case be_wire c of
           None \<Rightarrow> (ERR, False, c\<lparr>be_recv_acc := acc\<rparr>, out)
         | Some wire \<Rightarrow>
             (case recv_loop pw (be_skip_parse_bind c) out_cap wire (be_pipe c) acc out of
                (rc, complete, wire1, st1, rest, out1) \<Rightarrow>
                  (rc, complete,
                   c\<lparr>be_wire := Some wire1, be_pipe := st1, be_recv_acc := (if rc \<noteq> 0 then acc else rest)\<rparr>, out1))))"

text \<open>A run over the chunks the event loop receives, up to completion or failure.\<close>

primrec recv_chunks :: "'w pqwire \<Rightarrow> nat \<Rightarrow> bytes list \<Rightarrow> 'w be_conn \<Rightarrow> bytes \<Rightarrow> int \<times> bool \<times> 'w be_conn \<times> bytes" where
  "recv_chunks pw out_cap [] c out = (OK, False, c, out)"
| "recv_chunks pw out_cap (d # ds) c out =
     (case async_on_recv pw c d out out_cap of
        (rc, complete, c1, out1) \<Rightarrow>
          if rc \<noteq> 0 \<or> complete then (rc, complete, c1, out1) else recv_chunks pw out_cap ds c1 out1)"

section \<open>Sending\<close>

fun collect_output :: "'w pqwire \<Rightarrow> nat \<Rightarrow> 'w \<Rightarrow> bytes \<Rightarrow> int \<times> 'w \<times> bytes" where
  "collect_output pw 0 wire buf = (OK, wire, buf)"
| "collect_output pw (Suc k) wire buf =
     (let (b, wire1) = w_get_output pw wire 4096 in
      if b = [] then (OK, wire1, buf)
      else if length buf + length b > BE_SEND_CAP then (ERR, wire1, buf)
      else collect_output pw k wire1 (buf @ b))"

definition async_begin :: "'w pqwire \<Rightarrow> scram_crypto \<Rightarrow> stmt_cache \<Rightarrow> pq_bind \<Rightarrow> identity \<Rightarrow> 'w be_pool \<Rightarrow> world \<Rightarrow>
    nat option \<times> 'w be_pool \<times> world" where
  "async_begin pw cr cache b ident p w =
     (let (got, p1, w1) = checkout pw cr (group_name ident) p w in
      case got of
        None \<Rightarrow> (None, p1, w1)
      | Some i \<Rightarrow>
          (let c = po_conns p1 ! i in
           case be_wire c of
             None \<Rightarrow> (None, checkin i p1, w1)
           | Some wire \<Rightarrow>
               (let wire0 = drop_output pw 1024 (w_n_output pw wire) wire;
                    c0 = c\<lparr>be_send := [], be_send_off := 0, be_recv_acc := [], be_skip_parse_bind := True,
                           be_pipe := pipe_init\<rparr>;
                    (rc, wire1) = on_bind pw wire0 cache b ident
                in if rc \<noteq> 0 then (None, checkin i (set_conn i (c0\<lparr>be_wire := Some wire1\<rparr>) p1), w1)
                   else
                     (let (rc2, wire2, buf) = collect_output pw (w_n_output pw wire1) wire1 [];
                          c1 = c0\<lparr>be_wire := Some wire2, be_send := buf\<rparr>;
                          p2 = set_conn i c1 p1
                      in if rc2 \<noteq> 0 \<or> buf = [] then (None, checkin i p2, w1) else (Some i, p2, w1)))))"

definition async_send_pending :: "'w be_conn \<Rightarrow> nat" where
  "async_send_pending c = (if be_send_off c \<ge> length (be_send c) then 0 else length (be_send c) - be_send_off c)"

definition async_send_ptr :: "'w be_conn \<Rightarrow> bytes option" where
  "async_send_ptr c = (if be_send_off c \<ge> length (be_send c) then None else Some (drop (be_send_off c) (be_send c)))"

definition async_send_advance :: "'w be_conn \<Rightarrow> nat \<Rightarrow> 'w be_conn" where
  "async_send_advance c n = c\<lparr>be_send_off :=
     (if be_send_off c + n > length (be_send c) then length (be_send c) else be_send_off c + n)\<rparr>"

section \<open>Finishing\<close>

definition async_finish :: "'w pqwire \<Rightarrow> scram_crypto \<Rightarrow> nat \<Rightarrow> bool \<Rightarrow> 'w be_pool \<Rightarrow> world \<Rightarrow> 'w be_pool \<times> world" where
  "async_finish pw cr i failed p w =
     (let (p1, w1) =
            (if failed then
               (let c = po_conns p ! i;
                    user = strncpy_arr 128 (be_login_user c);
                    c1 = conn_teardown_io c;
                    c2 = (if user \<noteq> [] then c1\<lparr>be_login_user := strncpy_arr 128 user\<rparr> else c1);
                    p0 = set_conn i c2 p
                in if cf_auto_reconnect (po_cfg p) \<and> be_login_user c2 \<noteq> [] then
                     (let (rc, p', w') = reconnect pw cr i p0 w;
                          w'' = (if rc = 0 then w'\<lparr>w_metrics := metrics_inc_reconnects 1 (w_metrics w')\<rparr> else w')
                      in (set_busy i False p', w''))
                   else (p0, w))
             else (p, w));
          c = po_conns p1 ! i
      in (checkin i (set_conn i (c\<lparr>be_send := [], be_send_off := 0, be_recv_acc := []\<rparr>) p1), w1))"

section \<open>The sockets of a pool\<close>

text \<open>\<open>ok\<close>: whether the flags of a descriptor can be read and set. The loop ends at the first failure.\<close>

primrec nonblock_loop :: "(int \<Rightarrow> bool) \<Rightarrow> 'w be_conn list \<Rightarrow> int" where
  "nonblock_loop ok [] = OK"
| "nonblock_loop ok (c # cs) =
     (if \<not> be_alive c \<or> be_fd c < 0 then nonblock_loop ok cs
      else if \<not> ok (be_fd c) then ERR else nonblock_loop ok cs)"

definition pool_set_nonblock :: "(int \<Rightarrow> bool) \<Rightarrow> 'w be_pool \<Rightarrow> int" where
  "pool_set_nonblock ok p = nonblock_loop ok (take (po_max_conns p) (po_conns p))"

text \<open>The descriptors that destroying the pool closes, in order.\<close>

definition pool_destroy :: "'w be_pool \<Rightarrow> int list" where
  "pool_destroy p = [be_fd c. c \<leftarrow> take (po_max_conns p) (po_conns p), be_fd c \<ge> 0]"

lemma pool_set_nonblock_0_iff:
  "pool_set_nonblock ok p = 0 \<longleftrightarrow> (\<forall>c \<in> set (take (po_max_conns p) (po_conns p)). be_alive c \<and> 0 \<le> be_fd c \<longrightarrow> ok (be_fd c))"
proof -
  have "nonblock_loop ok cs = 0 \<longleftrightarrow> (\<forall>c \<in> set cs. be_alive c \<and> 0 \<le> be_fd c \<longrightarrow> ok (be_fd c))" for cs :: "'a be_conn list"
    by (induction cs) auto
  then show ?thesis by (simp add: pool_set_nonblock_def)
qed

section \<open>Lemmas\<close>

lemma be_filter_append_prefix:
  assumes "length rest \<ge> 5" "unat (be32_at rest 1) \<ge> 4" "1 + unat (be32_at rest 1) \<le> length rest"
  shows "be32_at (rest @ d) 1 = be32_at rest 1" "take (1 + unat (be32_at rest 1)) (rest @ d) = take (1 + unat (be32_at rest 1)) rest"
    "drop (1 + unat (be32_at rest 1)) (rest @ d) = drop (1 + unat (be32_at rest 1)) rest @ d"
  using assms by (simp_all add: be32_at_def nth_append)

text \<open>The loop on what is there, and then on what came later, is the loop on all of it.\<close>

lemma recv_loop_append:
  "recv_loop pw skip cap wire st rest out = (rc, complete, wire1, st1, rest1, out1) \<Longrightarrow>
    recv_loop pw skip cap wire st (rest @ d) out =
      (if rc \<noteq> 0 then (rc, complete, wire1, st1, rest1 @ d, out1)
       else if complete then (OK, True, wire1, st1, rest1 @ d, out1)
       else recv_loop pw skip cap wire1 st1 (rest1 @ d) out1)"
proof (induction pw skip cap wire st rest out rule: recv_loop.induct)
  case (1 pw skip cap wire st rest out)
  let ?m = "unat (be32_at rest 1)"
  note unf = recv_loop.simps [of pw skip cap wire st rest out]
  consider (short) "length rest < 5 \<or> \<not> ?m < 4 \<and> length rest < 1 + ?m" | (bad) "5 \<le> length rest" "?m < 4"
    | (msg) "5 \<le> length rest" "4 \<le> ?m" "1 + ?m \<le> length rest" by linarith
  then show ?case
  proof cases
    case short
    then have "recv_loop pw skip cap wire st rest out = (OK, False, wire, st, rest, out)"
      unfolding unf Let_def by auto
    with 1(2) show ?thesis by auto
  next
    case bad
    then have "be32_at (rest @ d) 1 = be32_at rest 1" by (simp add: be32_at_def nth_append)
    with bad 1(2) show ?thesis
      unfolding unf recv_loop.simps [of pw skip cap wire st "rest @ d" out] Let_def by auto
  next
    case msg
    note pre = be_filter_append_prefix [OF msg]
    obtain rcf wf sf outf saw where f: "be_filter_append pw skip cap wire st (take (1 + ?m) rest) out = (rcf, wf, sf, outf, saw)"
      by (metis prod_cases5)
    have L: "recv_loop pw skip cap wire st rest out =
        (if rcf \<noteq> 0 then (ERR, False, wf, sf, rest, outf) else if saw then (OK, True, wf, sf, drop (1 + ?m) rest, outf)
         else recv_loop pw skip cap wf sf (drop (1 + ?m) rest) outf)"
      using msg unfolding unf Let_def f by simp
    have R: "recv_loop pw skip cap wire st (rest @ d) out =
        (if rcf \<noteq> 0 then (ERR, False, wf, sf, rest @ d, outf) else if saw then (OK, True, wf, sf, drop (1 + ?m) rest @ d, outf)
         else recv_loop pw skip cap wf sf (drop (1 + ?m) rest @ d) outf)"
      using msg unfolding recv_loop.simps [of pw skip cap wire st "rest @ d" out] Let_def pre f by simp
    show ?thesis
    proof (cases "rcf \<noteq> 0 \<or> saw")
      case True
      then show ?thesis using 1(2) unfolding L R by auto
    next
      case False
      have c: "\<not> length rest < 5" "\<not> ?m < 4" "\<not> length rest < 1 + ?m" using msg by auto
      have "recv_loop pw skip cap wf sf (drop (1 + ?m) rest) outf = (rc, complete, wire1, st1, rest1, out1)"
        using 1(2) False unfolding L by simp
      from 1(1) [OF c(1) refl c(2) refl c(3) f [symmetric] refl refl refl _ _ this] False
      show ?thesis unfolding R by simp
    qed
  qed
qed

lemma recv_loop_shrinks:
  "recv_loop pw skip cap wire st rest out = (rc, complete, wire1, st1, rest1, out1) \<Longrightarrow> rc = 0 \<Longrightarrow>
    length rest1 \<le> length rest"
proof (induction pw skip cap wire st rest out rule: recv_loop.induct)
  case (1 pw skip cap wire st rest out)
  let ?m = "unat (be32_at rest 1)"
  note unf = recv_loop.simps [of pw skip cap wire st rest out]
  show ?case
  proof (cases "5 \<le> length rest \<and> 4 \<le> ?m \<and> 1 + ?m \<le> length rest")
    case False
    then show ?thesis using 1(2,3) unfolding unf Let_def by (auto split: if_splits)
  next
    case True
    then have c: "\<not> length rest < 5" "\<not> ?m < 4" "\<not> length rest < 1 + ?m" by auto
    obtain rcf wf sf outf saw where f: "be_filter_append pw skip cap wire st (take (1 + ?m) rest) out = (rcf, wf, sf, outf, saw)"
      by (metis prod_cases5)
    show ?thesis
    proof (cases "rcf \<noteq> 0 \<or> saw")
      case True
      then show ?thesis using 1(2,3) c unfolding unf Let_def f by (auto split: if_splits)
    next
      case False
      then have "recv_loop pw skip cap wf sf (drop (1 + ?m) rest) outf = (rc, complete, wire1, st1, rest1, out1)"
        using 1(2) c unfolding unf Let_def f by simp
      from 1(1) [OF c(1) refl c(2) refl c(3) f [symmetric] refl refl refl _ _ this 1(3)] False
      show ?thesis by simp
    qed
  qed
qed

lemma async_on_recv_append:
  assumes "length (be_recv_acc c) + length d1 + length d2 \<le> 16384"
    and "async_on_recv pw c d1 out cap = (OK, False, c1, out1)"
  shows "fst (async_on_recv pw c (d1 @ d2) out cap) = fst (async_on_recv pw c1 d2 out1 cap) \<and>
    fst (snd (async_on_recv pw c (d1 @ d2) out cap)) = fst (snd (async_on_recv pw c1 d2 out1 cap)) \<and>
    snd (snd (snd (async_on_recv pw c (d1 @ d2) out cap))) = snd (snd (snd (async_on_recv pw c1 d2 out1 cap))) \<and>
    (fst (async_on_recv pw c1 d2 out1 cap) = OK \<longrightarrow>
      async_on_recv pw c (d1 @ d2) out cap = async_on_recv pw c1 d2 out1 cap)"
proof -
  obtain wire where wire: "be_wire c = Some wire"
    using assms by (auto simp: async_on_recv_def Let_def split: option.splits if_splits)
  obtain rc co wire1 st1 rest out' where
    l: "recv_loop pw (be_skip_parse_bind c) cap wire (be_pipe c) (be_recv_acc c @ d1) out = (rc, co, wire1, st1, rest, out')"
    by (metis prod_cases6)
  have r: "rc = 0" "\<not> co" "out1 = out'" "c1 = c\<lparr>be_wire := Some wire1, be_pipe := st1, be_recv_acc := rest\<rparr>"
    using assms wire l by (auto simp: async_on_recv_def split: if_splits)
  have shrink: "length rest \<le> length (be_recv_acc c @ d1)"
    using l r(1) by (rule recv_loop_shrinks)
  obtain rc2 co2 wire2 st2 rest2 out2 where
    l2: "recv_loop pw (be_skip_parse_bind c) cap wire1 st1 (rest @ d2) out' = (rc2, co2, wire2, st2, rest2, out2)"
    by (metis prod_cases6)
  have "recv_loop pw (be_skip_parse_bind c) cap wire (be_pipe c) ((be_recv_acc c @ d1) @ d2) out = (rc2, co2, wire2, st2, rest2, out2)"
    using recv_loop_append [OF l, of d2] r l2 by simp
  then show ?thesis
    using assms(1) shrink wire r l2 by (simp add: async_on_recv_def)
qed

lemma async_on_recv_ends:
  assumes "length (be_recv_acc c) + length d1 + length d2 \<le> 16384"
    and "async_on_recv pw c d1 out cap = (rc, complete, c1, out1)" "rc \<noteq> 0 \<or> complete"
  shows "\<exists>c2. async_on_recv pw c (d1 @ d2) out cap = (rc, complete, c2, out1)"
proof (cases "be_wire c")
  case None
  then show ?thesis using assms by (auto simp: async_on_recv_def Let_def)
next
  case (Some wire)
  obtain rc' co wire1 st1 rest out' where
    l: "recv_loop pw (be_skip_parse_bind c) cap wire (be_pipe c) (be_recv_acc c @ d1) out = (rc', co, wire1, st1, rest, out')"
    by (metis prod_cases6)
  then have "rc' = rc" "co = complete" "out' = out1"
    using assms Some by (auto simp: async_on_recv_def Let_def)
  with recv_loop_append [OF l, of d2] assms Some show ?thesis
    by (auto simp: async_on_recv_def Let_def)
qed

lemma async_on_recv_shrinks:
  assumes "async_on_recv pw c d out cap = (OK, False, c1, out1)"
  shows "length (be_recv_acc c1) \<le> length (be_recv_acc c) + length d"
proof -
  obtain wire where wire: "be_wire c = Some wire"
    using assms by (auto simp: async_on_recv_def Let_def split: option.splits if_splits)
  obtain rc co wire1 st1 rest out' where
    l: "recv_loop pw (be_skip_parse_bind c) cap wire (be_pipe c) (be_recv_acc c @ d) out = (rc, co, wire1, st1, rest, out')"
    by (metis prod_cases6)
  have "rc = 0" "c1 = c\<lparr>be_wire := Some wire1, be_pipe := st1, be_recv_acc := rest\<rparr>"
    using assms wire l by (auto simp: async_on_recv_def Let_def split: if_splits)
  with recv_loop_shrinks [OF l] show ?thesis by simp
qed

lemma recv_chunks_concat:
  "length (be_recv_acc c) + length (concat ds) \<le> 16384 \<Longrightarrow> ds \<noteq> [] \<Longrightarrow>
    recv_chunks pw cap ds c out = (rc, complete, c', out') \<Longrightarrow>
    \<exists>c''. async_on_recv pw c (concat ds) out cap = (rc, complete, c'', out')"
proof (induction ds arbitrary: c out)
  case (Cons d ds)
  obtain rc1 co1 c1 out1 where d: "async_on_recv pw c d out cap = (rc1, co1, c1, out1)" by (metis prod_cases4)
  show ?case
  proof (cases "rc1 \<noteq> 0 \<or> co1")
    case True
    then have "rc = rc1" "complete = co1" "out' = out1" using Cons.prems(3) d by auto
    with async_on_recv_ends [OF _ d True, of "concat ds"] Cons.prems(1) show ?thesis by auto
  next
    case False
    then have run: "recv_chunks pw cap ds c1 out1 = (rc, complete, c', out')" using Cons.prems(3) d by simp
    show ?thesis
    proof (cases "ds = []")
      case True
      then show ?thesis using run d False by simp
    next
      case ne: False
      have d0: "async_on_recv pw c d out cap = (OK, False, c1, out1)" using d False by simp
      have len: "length (be_recv_acc c1) + length (concat ds) \<le> 16384"
        using async_on_recv_shrinks [OF d0] Cons.prems(1) by simp
      from Cons.IH [OF len ne run] obtain c'' where
        a: "async_on_recv pw c1 (concat ds) out1 cap = (rc, complete, c'', out')" by blast
      have tot: "length (be_recv_acc c) + length d + length (concat ds) \<le> 16384" using Cons.prems(1) by simp
      from async_on_recv_append [OF tot d0] a show ?thesis
        by (cases "async_on_recv pw c (d @ concat ds) out cap") auto
    qed
  qed
qed simp

section \<open>Properties\<close>

text \<open>C19. The answer does not depend on how TCP cuts it: two ways of cutting the same bytes into
  chunks, as long as they fit the 16 KiB accumulator, give the same result code, the same
  completion and the same bytes for the frontend, even where a header or a message is split
  over chunks or several messages come in one.\<close>

theorem recv_any_segmentation:
  assumes "concat ds1 = concat ds2" and "ds1 \<noteq> []" and "ds2 \<noteq> []"
    and "length (be_recv_acc c) + length (concat ds1) \<le> 16384"
    and "recv_chunks pw cap ds1 c out = (rc1, complete1, c1, out1)"
    and "recv_chunks pw cap ds2 c out = (rc2, complete2, c2, out2)"
  shows "rc1 = rc2 \<and> complete1 = complete2 \<and> out1 = out2"
  using recv_chunks_concat [OF assms(4,2,5)] recv_chunks_concat [OF _ assms(3,6)] assms(1,4) by auto

lemma be32_at_prefix: "i + 3 < length a \<Longrightarrow> be32_at (a @ b) i = be32_at a i"
  by (simp add: be32_at_def nth_append)

text \<open>The bytes of a message that is longer than the accumulator only pile up.\<close>

lemma oversize_step:
  assumes "be_wire c = Some wire" "length (be_recv_acc c) + length d \<le> 16384"
    and "5 \<le> length (be_recv_acc c @ d) \<longrightarrow> 16384 \<le> unat (be32_at (be_recv_acc c @ d) 1)"
  shows "async_on_recv pw c d out cap = (OK, False, c\<lparr>be_recv_acc := be_recv_acc c @ d\<rparr>, out)"
proof -
  have "recv_loop pw (be_skip_parse_bind c) cap wire (be_pipe c) (be_recv_acc c @ d) out =
      (OK, False, wire, be_pipe c, be_recv_acc c @ d, out)"
    using assms(2,3) by (subst recv_loop.simps) (auto simp: Let_def)
  with assms(1,2) show ?thesis by (simp add: async_on_recv_def)
qed

lemma oversize_run:
  "be_wire c \<noteq> None \<Longrightarrow> 5 \<le> length (be_recv_acc c @ concat ds) \<Longrightarrow>
    16384 \<le> unat (be32_at (be_recv_acc c @ concat ds) 1) \<Longrightarrow> length (be_recv_acc c) \<le> 16384 \<Longrightarrow>
    \<exists>rc c'. recv_chunks pw cap ds c out = (rc, False, c', out) \<and>
      (16384 < length (be_recv_acc c) + length (concat ds) \<longrightarrow> rc = -1)"
proof (induction ds arbitrary: c)
  case (Cons d ds)
  show ?case
  proof (cases "length (be_recv_acc c) + length d \<le> 16384")
    case False
    then have "async_on_recv pw c d out cap = (ERR, False, c, out)" by (simp add: async_on_recv_def)
    then show ?thesis by simp
  next
    case True
    let ?c1 = "c\<lparr>be_recv_acc := be_recv_acc c @ d\<rparr>"
    have "be32_at (be_recv_acc c @ d) 1 = be32_at (be_recv_acc c @ concat (d # ds)) 1" if "5 \<le> length (be_recv_acc c @ d)"
      using that be32_at_prefix [of 1 "be_recv_acc c @ d" "concat ds"] by simp
    then have step: "async_on_recv pw c d out cap = (OK, False, ?c1, out)"
      using Cons.prems True oversize_step [of c _ d] by force
    have "\<exists>rc c'. recv_chunks pw cap ds ?c1 out = (rc, False, c', out) \<and>
        (16384 < length (be_recv_acc ?c1) + length (concat ds) \<longrightarrow> rc = -1)"
      using Cons.prems True by (intro Cons.IH) auto
    then show ?thesis using step by (simp add: add.assoc)
  qed
qed simp


lemma collect_output_all:
  "output_stream pw pending \<Longrightarrow> length (pending wire) \<le> k \<Longrightarrow>
    collect_output pw k wire buf = (rc, wire', buf') \<Longrightarrow> rc = OK \<Longrightarrow>
    buf' = buf @ pending wire \<and> pending wire' = [] \<and> (length buf \<le> 32768 \<longrightarrow> length buf' \<le> 32768)"
proof (induction k arbitrary: wire buf)
  case (Suc k)
  obtain b wire1 where g: "w_get_output pw wire 4096 = (b, wire1)" by fastforce
  note o = output_streamD [OF Suc.prems(1) g]
  show ?case
  proof (cases "b = []")
    case True
    then have e: "pending wire = []" using o(1) by simp
    then have "pending wire1 = []" using o(2) by simp
    then show ?thesis using e True Suc.prems(3) g by simp
  next
    case False
    then have "length (pending wire1) \<le> k" using o(1,2) Suc.prems(2) by (cases "pending wire") auto
    moreover have "\<not> length buf + length b > 32768" "collect_output pw k wire1 (buf @ b) = (rc, wire', buf')"
      using Suc.prems(3,4) g False by (auto split: if_splits)
    ultimately have "buf' = (buf @ b) @ pending wire1 \<and> pending wire' = [] \<and> (length (buf @ b) \<le> 32768 \<longrightarrow> length buf' \<le> 32768)"
      using Suc.IH [OF Suc.prems(1) _ _ Suc.prems(4)] by blast
    moreover have "b @ pending wire1 = pending wire" using o(1,2) by simp
    ultimately show ?thesis using \<open>\<not> length buf + length b > 32768\<close> by auto
  qed
qed simp

text \<open>Replacing the connection just granted, and giving it back.\<close>

lemma grants_replace:
  assumes g: "grants p (Some i) p1" and "conn_ok c" "be_slot c = i" "be_busy c" "be_alive c"
  shows "grants p (Some i) (set_conn i c p1)"
proof -
  have "pool_inv p1" "i < po_max_conns p1" using g grants_alive [OF g refl] by (auto simp: grants_def)
  note I = pool_invD [OF this]
  have "pool_inv (set_conn i c p1)"
    using \<open>pool_inv p1\<close> \<open>i < po_max_conns p1\<close> assms(2-5) by (auto simp: pool_inv_def nth_list_update)
  then show ?thesis
    using g assms(4) I(3) by (auto simp: grants_def same_setup_def busy_set_def nth_list_update)
qed

lemma grants_checkin: "grants p (Some i) p1 \<Longrightarrow> grants p None (checkin i p1)"
proof -
  assume g: "grants p (Some i) p1"
  then have i: "i \<notin> busy_set p" "pool_inv p1" "i < po_max_conns p1" "i < length (po_conns p1)"
    using grants_alive [OF g refl] by (auto simp: grants_def pool_inv_def)
  have "busy_set (checkin i p1) = busy_set p" using checkin_spec [OF i(2), of i] g i(1) by (auto simp: grants_def)
  moreover have "po_conns (checkin i p1) ! j = po_conns p ! j" if "j \<in> busy_set p" for j
  proof -
    have "j \<noteq> i" using that i(1) by blast
    then show ?thesis using that g by (simp add: checkin_def set_busy_def grants_def)
  qed
  moreover have "same_setup p (checkin i p1)" using g by (simp add: grants_def same_setup_def checkin_def set_busy_def)
  ultimately show ?thesis using checkin_spec [OF i(2), of i] by (simp add: grants_def)
qed

lemma async_begin_clean:
  assumes out: "output_stream pw pending" and inv: "pool_inv p"
    and run: "async_begin pw cr cache b ident p w = (got, p', w')"
  shows "grants p got p' \<and> (\<forall>i. got = Some i \<longrightarrow>
    (let c = po_conns p' ! i in
      be_send_off c = 0 \<and> be_recv_acc c = [] \<and> be_pipe c = pipe_init \<and> be_send c \<noteq> [] \<and> length (be_send c) \<le> 32768 \<and>
      (\<exists>wire0 wire1. pending wire0 = [] \<and> on_bind pw wire0 cache b ident = (0, wire1) \<and> be_send c = pending wire1)))"
proof -
  obtain got1 p1 w1 where co: "checkout pw cr (group_name ident) p w = (got1, p1, w1)" by (metis prod_cases3)
  have g1: "grants p got1 p1" using checkout_grants [OF inv co] by blast
  show ?thesis
  proof (cases got1)
    case None
    then have "got = None" "p' = p1" using run co by (auto simp: async_begin_def)
    with g1 None show ?thesis by simp
  next
    case (Some i)
    let ?c = "po_conns p1 ! i"
    note a = grants_alive [OF g1 Some]
    have I: "conn_ok ?c" "be_slot ?c = i" "length (po_conns p1) = po_max_conns p1"
      using pool_invD [of p1 i] g1 a(3) by (auto simp: grants_def)
    obtain wire where wire: "be_wire ?c = Some wire" using I(1) a(1) by (auto simp: conn_ok_def)
    let ?w0 = "drop_output pw 1024 (w_n_output pw wire) wire"
    have n: "w_n_output pw x = length (pending x)" for x using out by (simp add: output_stream_def)
    have w0: "pending ?w0 = []" by (rule drop_output_pending [OF out]) (simp_all add: n)
    let ?c0 = "?c\<lparr>be_send := [], be_send_off := 0, be_recv_acc := [], be_skip_parse_bind := True, be_pipe := pipe_init\<rparr>"
    obtain rc wire1 where ob: "on_bind pw ?w0 cache b ident = (rc, wire1)" by fastforce
    obtain rc2 wire2 buf where cl: "collect_output pw (w_n_output pw wire1) wire1 [] = (rc2, wire2, buf)" by (metis prod_cases3)
    have repl: "grants p (Some i) (set_conn i c p1)" if "c = ?c0\<lparr>be_wire := Some x\<rparr> \<or> c = ?c0\<lparr>be_wire := Some x, be_send := s\<rparr>" for c x s
      using that g1 [unfolded Some] I a by (intro grants_replace) (auto simp: conn_ok_def)
    show ?thesis
    proof (cases "rc = 0 \<and> rc2 = 0 \<and> buf \<noteq> []")
      case True
      let ?c1 = "?c0\<lparr>be_wire := Some wire2, be_send := buf\<rparr>"
      have r: "got = Some i" "p' = set_conn i ?c1 p1"
        using run co Some wire ob cl True by (auto simp: async_begin_def Let_def)
      have buf: "buf = pending wire1" "length buf \<le> 32768"
        using collect_output_all [OF out _ cl] True by (auto simp: n)
      have "po_conns p' ! i = ?c1" using r(2) I(3) a(3) by simp
      then show ?thesis using repl [of ?c1] r w0 ob buf True by (auto simp: Let_def)
    next
      case False
      then have "got = None \<and> (\<exists>c x s. (c = ?c0\<lparr>be_wire := Some x\<rparr> \<or> c = ?c0\<lparr>be_wire := Some x, be_send := s\<rparr>) \<and>
          p' = checkin i (set_conn i c p1))"
        using run co Some wire ob cl by (auto simp: async_begin_def Let_def split: if_splits)
      then show ?thesis using repl grants_checkin by blast
    qed
  qed
qed

text \<open>Starting a pipeline. \<open>async_begin\<close> either grants one idle connection and marks it busy or
  leaves all connections in use as they are and none marked. The granted connection starts
  clean: its send buffer holds exactly the output of this request's Bind rewrite on a context
  without older output, nothing of it is sent yet, and no received bytes are left over from
  the previous use.\<close>

theorem async_begin_starts_clean:
  assumes out: "output_stream pw pending" and inv: "pool_inv p"
    and run: "async_begin pw cr cache b ident p w = (got, p', w')"
  shows "grants p got p' \<and> (\<forall>i. got = Some i \<longrightarrow>
    (let c = po_conns p' ! i in
      be_send_off c = 0 \<and> be_recv_acc c = [] \<and> be_pipe c = pipe_init \<and> be_send c \<noteq> [] \<and> length (be_send c) \<le> 32768 \<and>
      (\<exists>wire0 wire1. pending wire0 = [] \<and> on_bind pw wire0 cache b ident = (0, wire1) \<and> be_send c = pending wire1)))"
  by (rule async_begin_clean [OF assms])

text \<open>What the event loop does with the send buffer: write the bytes at the pointer, and advance over
  those the kernel took.\<close>

primrec send_run :: "'w be_conn \<Rightarrow> nat list \<Rightarrow> bytes \<times> 'w be_conn" where
  "send_run c [] = ([], c)"
| "send_run c (n # ns) =
     (case async_send_ptr c of
        None \<Rightarrow> ([], c)
      | Some b \<Rightarrow> (let (bs, c') = send_run (async_send_advance c n) ns in (take n b @ bs, c')))"

text \<open>Partial sends lose and repeat nothing: for every sequence of counts the kernel may report,
  the bytes written so far and the bytes still pending make up the send buffer from where it
  stood, and nothing is pending exactly when all of it went out.\<close>

theorem partial_sends_exact:
  assumes "be_send_off c \<le> length (be_send c)" and "send_run c ns = (sent, c')"
  shows "sent @ drop (be_send_off c') (be_send c') = drop (be_send_off c) (be_send c) \<and>
    async_send_pending c' = length (drop (be_send_off c) (be_send c)) - length sent \<and> be_send c' = be_send c \<and>
    be_send_off c' \<le> length (be_send c')"
  using assms
proof (induction ns arbitrary: c sent)
  case (Cons n ns)
  show ?case
  proof (cases "be_send_off c \<ge> length (be_send c)")
    case True
    then show ?thesis using Cons.prems by (simp add: async_send_ptr_def async_send_pending_def)
  next
    case False
    let ?c1 = "async_send_advance c n"
    obtain bs where bs: "send_run ?c1 ns = (bs, c')" "sent = take n (drop (be_send_off c) (be_send c)) @ bs"
      using Cons.prems(2) False by (auto simp: async_send_ptr_def Let_def split: prod.splits)
    have 1: "be_send ?c1 = be_send c" "be_send_off ?c1 \<le> length (be_send ?c1)"
      "drop (be_send_off ?c1) (be_send c) = drop n (drop (be_send_off c) (be_send c))"
      using Cons.prems(1) by (simp_all add: async_send_advance_def add.commute)
    note ih = Cons.IH [OF 1(2) bs(1)]
    have "sent @ drop (be_send_off c') (be_send c') = drop (be_send_off c) (be_send c)"
      using ih 1 bs(2) by (metis append_assoc append_take_drop_id)
    then show ?thesis using ih 1 bs(2) by (auto simp: async_send_pending_def)
  qed
qed (simp add: async_send_pending_def)

text \<open>The connection that \<open>async_finish\<close> puts back.\<close>

lemma busy_reconnect_finish:
  assumes inv: "pool_inv p" and i: "i < po_max_conns p" and c: "conn_ok c" "be_slot c = i" "\<not> be_alive c"
    and r: "reconnect pw cr i (set_conn i c p) w = (rc, p', w')"
  shows "\<exists>c'. p' = set_conn i c' p \<and> conn_ok c' \<and> be_slot c' = i \<and>
    (be_login_user c \<noteq> [] \<longrightarrow> be_login_user c' = be_login_user c)"
proof -
  note I = pool_invD [OF inv i]
  obtain c' where c': "conn_reconnect pw cr (po_login p) (po_user p) c w = (rc, c', w')" "p' = set_conn i c' p"
    using r i I(3) by (auto simp: reconnect_def Let_def split: prod.splits)
  from conn_reconnect_cases [OF c'(1) c(1)] c'(2) c(2) show ?thesis by auto
qed

lemma put_back:
  assumes inv: "pool_inv p" and i: "i < po_max_conns p" and c: "conn_ok c" "be_slot c = i"
    and p': "p' = checkin i (set_conn i (c\<lparr>be_send := [], be_send_off := 0, be_recv_acc := []\<rparr>) p)"
  shows "pool_inv p' \<and> busy_set p' = busy_set p - {i} \<and> same_setup p p' \<and>
    (\<forall>j. j \<noteq> i \<longrightarrow> po_conns p' ! j = po_conns p ! j) \<and>
    po_conns p' ! i = c\<lparr>be_send := [], be_send_off := 0, be_recv_acc := [], be_busy := False\<rparr>"
proof -
  note I = pool_invD [OF inv i]
  have e: "p' = set_conn i (c\<lparr>be_send := [], be_send_off := 0, be_recv_acc := [], be_busy := False\<rparr>) p"
    using p' i I(3) by (simp add: checkin_def set_busy_def)
  show ?thesis
    using inv c i I(3) unfolding e by (auto simp: pool_inv_def busy_set_def same_setup_def nth_list_update conn_ok_def)
qed

lemma async_finish_back:
  assumes inv: "pool_inv p" and i: "i < po_max_conns p" and run: "async_finish pw cr i failed p w = (p', w')"
  shows "pool_inv p' \<and> busy_set p' = busy_set p - {i} \<and> same_setup p p' \<and> (\<forall>j. j \<noteq> i \<longrightarrow> po_conns p' ! j = po_conns p ! j) \<and>
    (let c = po_conns p' ! i in be_send c = [] \<and> be_recv_acc c = [] \<and> be_login_user c = be_login_user (po_conns p ! i) \<and>
      (failed \<and> \<not> cf_auto_reconnect (po_cfg p) \<longrightarrow> \<not> be_alive c \<and> be_wire c = None))"
proof -
  let ?c = "po_conns p ! i"
  note I = pool_invD [OF inv i]
  have user: "strncpy_arr 128 (be_login_user ?c) = be_login_user ?c" using I(1) by (simp add: conn_ok_def strncpy_arr_fits)
  let ?t = "conn_teardown_io ?c"
  have same: "?t\<lparr>be_login_user := be_login_user ?c\<rparr> = ?t" by (simp add: conn_teardown_io_def)
  have t: "conn_ok ?t" "be_slot ?t = i" "\<not> be_alive ?t" using I(1,2) by (simp_all add: conn_ok_def)
  have "\<exists>c. conn_ok c \<and> be_slot c = i \<and> be_login_user c = be_login_user ?c \<and>
      p' = checkin i (set_conn i (c\<lparr>be_send := [], be_send_off := 0, be_recv_acc := []\<rparr>) p) \<and>
      (failed \<and> \<not> cf_auto_reconnect (po_cfg p) \<longrightarrow> c = ?t)"
  proof (cases failed)
    case False
    then have "p' = checkin i (set_conn i (?c\<lparr>be_send := [], be_send_off := 0, be_recv_acc := []\<rparr>) p)"
      using run by (auto simp: async_finish_def)
    then show ?thesis using False I by blast
  next
    case True
    show ?thesis
    proof (cases "cf_auto_reconnect (po_cfg p) \<and> be_login_user ?c \<noteq> []")
      case no: False
      then have "p' = checkin i (set_conn i (?t\<lparr>be_send := [], be_send_off := 0, be_recv_acc := []\<rparr>) p)"
        using run True user same i I(3) by (cases "be_login_user ?c = []") (auto simp: async_finish_def Let_def)
      then show ?thesis using t by (intro exI [of _ ?t]) simp
    next
      case yes: True
      obtain rc q w1 where r: "reconnect pw cr i (set_conn i ?t p) w = (rc, q, w1)" by (metis prod_cases3)
      from busy_reconnect_finish [OF inv i t r] yes obtain c' where
        c': "q = set_conn i c' p" "conn_ok c'" "be_slot c' = i" "be_login_user c' = be_login_user ?c" by auto
      let ?c2 = "c'\<lparr>be_busy := False\<rparr>"
      have "p' = checkin i (set_conn i (?c2\<lparr>be_send := [], be_send_off := 0, be_recv_acc := []\<rparr>) p)"
        using run True yes user same r c'(1) i I(3) by (auto simp: async_finish_def Let_def set_busy_def)
      then show ?thesis using yes c' by (intro exI [of _ ?c2]) (simp add: conn_ok_def)
    qed
  qed
  then obtain c where c: "conn_ok c" "be_slot c = i" "be_login_user c = be_login_user ?c"
    "p' = checkin i (set_conn i (c\<lparr>be_send := [], be_send_off := 0, be_recv_acc := []\<rparr>) p)"
    "failed \<and> \<not> cf_auto_reconnect (po_cfg p) \<longrightarrow> c = ?t" by blast
  from put_back [OF inv i c(1,2,4)] c(3,5) show ?thesis by (auto simp: Let_def)
qed


section \<open>Witnesses\<close>

lemma demo_recv_whole:
  "recv_chunks ref_pw 100 [[90, 0, 0, 0, 5, 73]] demo_conn [] =
     (0, True, demo_conn\<lparr>be_pipe := \<lparr>ps_saw_error = False, ps_complete = True\<rparr>\<rparr>, [90, 0, 0, 0, 5, 73])"
  by (simp add: async_on_recv_def demo_conn_def conn_init_def recv_loop.simps be32_at_def be_filter_append_def
      ref_pw_sel ref_peek_def ref_feed_def pipe_init_def Let_def)

theorem recv_any_segmentation_witness:
  "\<exists>c'. recv_chunks ref_pw 100 [[90, 0, 0], [0, 5, 73]] demo_conn [] = (0, True, c', [90, 0, 0, 0, 5, 73])"
proof -
  obtain rc co c' out where r: "recv_chunks ref_pw 100 [[90, 0, 0], [0, 5, 73]] demo_conn [] = (rc, co, c', out)"
    by (metis prod_cases4)
  have "concat [[90, 0, 0], [0, 5, 73]] = concat [[90, 0, 0, 0, 5, 73 :: byte]]"
    "length (be_recv_acc demo_conn) + length (concat [[90, 0, 0], [0, 5, 73 :: byte]]) \<le> 16384"
    by (simp_all add: demo_conn_def conn_init_def)
  from recv_any_segmentation [OF this(1) _ _ this(2) r demo_recv_whole] r show ?thesis by simp
qed


theorem async_begin_starts_clean_witness:
  "\<exists>p' w'. async_begin ref_pw demo_crypto (demo_cache 1) demo_bind demo_ident demo_pool demo_world' = (Some 0, p', w') \<and>
    be_send_off (po_conns p' ! 0) = 0 \<and> be_send (po_conns p' ! 0) \<noteq> [] \<and> busy_set p' = {0}"
proof -
  have inv: "pool_inv demo_pool" "busy_set demo_pool = {}"
    using pool_create_warmed [OF demo_create] by (simp_all add: warmed_def)
  have co: "checkout ref_pw demo_crypto ''east'' demo_pool demo_world' =
      (Some 0, (set_busy 0 True demo_pool)\<lparr>po_rr_cursor := 0\<rparr>, demo_world')"
    by (simp add: checkout_def checkout_try_def rotation_def demo_pool_sel demo_cfg_sel Let_def)
  have nth: "po_conns (set_busy 0 True demo_pool) ! 0 = demo_conn\<lparr>be_busy := True\<rparr>"
    by (simp add: demo_pool_sel)
  have wire: "be_wire demo_conn = Some ref_wire0" by (simp add: demo_conn_def)
  have grp: "group_name demo_ident = ''east''" by (simp add: demo_ident_def)
  have dw: "drop_output ref_pw 1024 (w_n_output ref_pw ref_wire0) ref_wire0 = ref_wire0"
    by (simp add: ref_pw_sel ref_wire0_def)
  have ob: "on_bind ref_pw ref_wire0 (demo_cache 1) demo_bind demo_ident =
      (0, \<lparr>rw_sent = [BParse '''' ''SELECT 1'' [], BBind '''' '''' [demo_text ''router-9'', demo_text ''v''] [], BExecute '''', BSync],
           rw_out = [80, 66, 69, 83], rw_events = []\<rparr>)"
    by (simp add: on_bind_def demo_get demo_bind_def bind_slot_def demo_ident_def ref_pw_sel ref_send_def
        ref_wire0_def stored_stmt_def demo_parse_def ref_params_def demo_text_def Let_def)
  obtain p' w' where r: "async_begin ref_pw demo_crypto (demo_cache 1) demo_bind demo_ident demo_pool demo_world' = (Some 0, p', w')"
    unfolding async_begin_def
    by (simp add: grp co nth wire dw ob Let_def) (simp add: ref_pw_sel)
  from async_begin_starts_clean [OF ref_output_stream inv(1) r] inv(2) r show ?thesis
    by (auto simp: grants_def Let_def)
qed

theorem partial_sends_exact_witness:
  "let c = (conn_init 0 :: ref_wire be_conn)\<lparr>be_send := [80, 66, 69, 83]\<rparr>; (sent, c') = send_run c [1, 2]
   in sent @ drop (be_send_off c') (be_send c') = [80, 66, 69, 83] \<and> async_send_pending c' = 1"
proof -
  let ?c = "(conn_init 0 :: ref_wire be_conn)\<lparr>be_send := [80, 66, 69, 83]\<rparr>"
  obtain sent c' where r: "send_run ?c [1, 2] = (sent, c')" by fastforce
  have "sent = [80, 66, 69]"
    using r by (auto simp: async_send_ptr_def async_send_advance_def conn_init_def Let_def)
  with partial_sends_exact [OF _ r] r show ?thesis unfolding Let_def r split by (auto simp: conn_init_def)
qed


end
