(* ===== verification/Backend_Answer.thy ===== *)
theory Backend_Answer
  imports Backend_Async
begin

text \<open>
  What a backend's answer becomes, on both ways of src/backend_pool.c: the blocking round trip
  (\<open>pqproxy_backend_flush_pipeline_ex\<close>, \<open>_exec_query\<close>) and the asynchronous one
  (\<open>pqproxy_backend_async_on_recv\<close>). Both pass on the messages that the library's filter does
  not hide, in order, up to ReadyForQuery; and the blocking one gives up after 256 messages or
  when the caller's buffer is full.
\<close>

section \<open>What the program relies on\<close>

text \<open>
  \<open>pipe_ok\<close>: the library recognises a framed message, feeds it without failing, and marks
  the pipeline complete at ReadyForQuery ('Z') and erroneous at ErrorResponse ('E').
\<close>

definition pipe_ok :: "'w pqwire \<Rightarrow> bool" where
  "pipe_ok pw \<longleftrightarrow> (\<forall>m. framed m \<longrightarrow> w_msg_peek pw m = Some (m ! 0, length m) \<and>
     (\<forall>w st. \<exists>w'. w_pipeline_feed pw w st m =
        (0, w', \<lparr>ps_saw_error = (ps_saw_error st \<or> m ! 0 = 69), ps_complete = (ps_complete st \<or> m ! 0 = 90)\<rparr>)))"

lemma pipe_ok_feed:
  assumes "pipe_ok pw" "framed m"
  obtains w' where "w_pipeline_feed pw w st m =
    (0, w', \<lparr>ps_saw_error = (ps_saw_error st \<or> m ! 0 = 69), ps_complete = (ps_complete st \<or> m ! 0 = 90)\<rparr>)"
  using assms unfolding pipe_ok_def by blast

text \<open>An answer: framed messages that fit the read buffer, of which the last and only the last is
  ReadyForQuery; and what of it the frontend sees.\<close>

definition row_ok :: "bytes \<Rightarrow> bool" where
  "row_ok m \<longleftrightarrow> framed m \<and> length m \<le> 16384 \<and> m ! 0 \<noteq> 90"

definition rfq_ok :: "bytes \<Rightarrow> bool" where
  "rfq_ok m \<longleftrightarrow> framed m \<and> length m \<le> 16384 \<and> m ! 0 = 90"

definition visible :: "'w pqwire \<Rightarrow> bool \<Rightarrow> bytes list \<Rightarrow> bytes" where
  "visible pw skip ms = concat (filter (\<lambda>m. \<not> w_filter_type pw (m ! 0) skip) ms)"

lemma visible_simps [simp]:
  "visible pw skip [] = []"
  "visible pw skip (m # ms) = (if w_filter_type pw (m ! 0) skip then [] else m) @ visible pw skip ms"
  "visible pw skip (ms @ ns) = visible pw skip ms @ visible pw skip ns"
  by (simp_all add: visible_def)

section \<open>The blocking way\<close>

lemma read_row:
  assumes "reads_ok (w_io w)" "stream_of (w_io w) = m @ later" "framed m" "length m \<le> 16384"
  obtains s where "read_msg 16384 w = (0, m, w\<lparr>w_io := s\<rparr>)" "reads_ok s" "stream_of s = later"
  using read_msg_stream [OF assms(1,2,3,4)] assms(4) by auto

text \<open>A run of messages without ReadyForQuery: each costs one round.\<close>

lemma flush_loop_rows:
  assumes P: "pipe_ok pw"
  shows "\<forall>m \<in> set ms. row_ok m \<Longrightarrow> \<not> ps_complete st \<Longrightarrow> reads_ok (w_io w) \<Longrightarrow>
    stream_of (w_io w) = concat ms @ later \<Longrightarrow> length out + length (visible pw skip ms) \<le> cap \<Longrightarrow>
    \<exists>wire' s'. flush_loop pw (length ms + k) cap skip wire st out w =
        flush_loop pw k cap skip wire' \<lparr>ps_saw_error = (ps_saw_error st \<or> (\<exists>m \<in> set ms. m ! 0 = 69)), ps_complete = False\<rparr>
          (out @ visible pw skip ms) (w\<lparr>w_io := s'\<rparr>) \<and>
      reads_ok s' \<and> stream_of s' = later"
proof (induction ms arbitrary: st out w wire)
  case Nil
  then show ?case by (intro exI [of _ wire] exI [of _ "w_io w"]) (cases st, simp)
next
  case (Cons m ms)
  have m: "framed m" "length m \<le> 16384" "m ! 0 \<noteq> 90" using Cons.prems(1) by (simp_all add: row_ok_def)
  from Cons.prems(4) have "stream_of (w_io w) = m @ (concat ms @ later)" by simp
  from read_row [OF Cons.prems(3) this m(1,2)] obtain s where
    r: "read_msg 16384 w = (0, m, w\<lparr>w_io := s\<rparr>)" "reads_ok s" "stream_of s = concat ms @ later" by blast
  let ?st = "\<lparr>ps_saw_error = (ps_saw_error st \<or> m ! 0 = 69), ps_complete = False\<rparr>"
  obtain w1 where f: "w_pipeline_feed pw wire st m = (0, w1, ?st)"
    using pipe_ok_feed [OF P m(1), of wire st] m(3) Cons.prems(2) by auto
  let ?out = "out @ (if w_filter_type pw (m ! 0) skip then [] else m)"
  have step: "flush_loop pw (length (m # ms) + k) cap skip wire st out w =
      flush_loop pw (length ms + k) cap skip w1 ?st ?out (w\<lparr>w_io := s\<rparr>)"
    using Cons.prems(2,5) by (simp add: r f Let_def split: if_splits)
  have "length ?out + length (visible pw skip ms) \<le> cap" using Cons.prems(5) by (simp split: if_splits)
  from Cons.IH [of ?st "w\<lparr>w_io := s\<rparr>" ?out w1] this Cons.prems(1) r(2,3) obtain wire' s' where
    "flush_loop pw (length ms + k) cap skip w1 ?st ?out (w\<lparr>w_io := s\<rparr>) =
        flush_loop pw k cap skip wire' \<lparr>ps_saw_error = ((ps_saw_error st \<or> m ! 0 = 69) \<or> (\<exists>m \<in> set ms. m ! 0 = 69)), ps_complete = False\<rparr>
          (?out @ visible pw skip ms) (w\<lparr>w_io := s'\<rparr>) \<and> reads_ok s' \<and> stream_of s' = later"
    by auto
  then show ?case unfolding step by (intro exI [of _ wire'] exI [of _ s']) (simp add: disj_assoc)
qed

text \<open>The message that completes the pipeline, with a round left for it.\<close>

lemma flush_loop_last:
  assumes "pipe_ok pw" "rfq_ok m" "\<not> ps_complete st" "reads_ok (w_io w)" "stream_of (w_io w) = m @ later"
    and "length out + length (visible pw skip [m]) \<le> cap"
  shows "\<exists>wire' s'. flush_loop pw (Suc k) cap skip wire st out w =
      (FlushDone wire' \<lparr>ps_saw_error = ps_saw_error st, ps_complete = True\<rparr> (out @ visible pw skip [m]), w\<lparr>w_io := s'\<rparr>) \<and>
    reads_ok s' \<and> stream_of s' = later"
proof -
  have m: "framed m" "length m \<le> 16384" "m ! 0 = 90" using assms(2) by (simp_all add: rfq_ok_def)
  from read_row [OF assms(4,5) m(1,2)] obtain s where
    r: "read_msg 16384 w = (0, m, w\<lparr>w_io := s\<rparr>)" "reads_ok s" "stream_of s = later" by blast
  let ?st = "\<lparr>ps_saw_error = ps_saw_error st, ps_complete = True\<rparr>"
  obtain w1 where f: "w_pipeline_feed pw wire st m = (0, w1, ?st)"
    using pipe_ok_feed [OF assms(1) m(1), of wire st] m(3) by auto
  have fin: "flush_loop pw k cap skip w1 ?st o1 w2 = (FlushDone w1 ?st o1, w2)" for o1 w2
    by (cases k) simp_all
  show ?thesis
    using assms(3,6) r by (intro exI [of _ w1] exI [of _ s]) (simp add: f fin Let_def split: if_splits)
qed

text \<open>When the sending part has succeeded, the round trip is the read loop.\<close>

lemma flush_pipeline_reads:
  assumes "be_wire c = Some wire" "be_alive c" "send_wire pw (be_fd c) (w_n_output pw wire) wire w = (OK, wire1, w1)"
  shows "flush_pipeline_ex pw c cap skip w =
    (case flush_loop pw 256 cap skip wire1 pipe_init [] w1 of
       (FlushDead wire2 out, w2) \<Rightarrow> (ERR, out, c\<lparr>be_pipe := pipe_init, be_wire := Some wire2, be_alive := False\<rparr>, None, w2)
     | (FlushFull wire2 out, w2) \<Rightarrow> (ERR, out, c\<lparr>be_pipe := pipe_init, be_wire := Some wire2\<rparr>, None, w2)
     | (FlushDone wire2 st out, w2) \<Rightarrow>
         (if ps_complete st then OK else ERR, out, c\<lparr>be_wire := Some wire2, be_pipe := st\<rparr>, Some st, w2))"
  using assms by (simp add: flush_pipeline_ex_def Let_def split: prod.splits flush_end.splits)

lemma not_complete_init [simp]: "\<not> ps_complete pipe_init" "\<not> ps_saw_error pipe_init"
  by (simp_all add: pipe_init_def)

section \<open>The asynchronous way\<close>

lemma be_filter_append_msg:
  assumes "pipe_ok pw" "framed m" "length out + length (visible pw skip [m]) \<le> cap"
  obtains w' where "be_filter_append pw skip cap wire st m out =
    (OK, w', \<lparr>ps_saw_error = (ps_saw_error st \<or> m ! 0 = 69), ps_complete = (ps_complete st \<or> m ! 0 = 90)\<rparr>,
     out @ visible pw skip [m], ps_complete st \<or> m ! 0 = 90)"
proof -
  obtain w' where f: "w_pipeline_feed pw wire st m =
      (0, w', \<lparr>ps_saw_error = (ps_saw_error st \<or> m ! 0 = 69), ps_complete = (ps_complete st \<or> m ! 0 = 90)\<rparr>)"
    using pipe_ok_feed [OF assms(1,2)] by blast
  have "w_msg_peek pw m = Some (m ! 0, length m)" "5 \<le> length m"
    using assms(1,2) by (auto simp: pipe_ok_def framed_def)
  then show ?thesis using that [of w'] assms(3) f by (simp add: be_filter_append_def split: if_splits)
qed

lemma recv_loop_msg:
  assumes "framed m" and "be_filter_append pw skip cap wire st m out = (OK, w', st', out', saw)"
  shows "recv_loop pw skip cap wire st (m @ rest) out =
    (if saw then (OK, True, w', st', rest, out') else recv_loop pw skip cap w' st' rest out')"
proof -
  have m: "5 \<le> length m" "1 + unat (be32_at m 1) = length m" using assms(1) by (simp_all add: framed_def)
  have b: "be32_at (m @ rest) 1 = be32_at m 1" using m by (intro be32_at_prefix) simp
  have "\<not> unat (be32_at m 1) < 4" using m by simp
  then show ?thesis using m assms(2) unfolding recv_loop.simps [of _ _ _ _ _ "m @ rest"] Let_def b by simp
qed

lemma recv_loop_answer:
  assumes P: "pipe_ok pw" and Z: "rfq_ok z"
  shows "\<forall>m \<in> set ms. row_ok m \<Longrightarrow> \<not> ps_complete st \<Longrightarrow> length out + length (visible pw skip (ms @ [z])) \<le> cap \<Longrightarrow>
    \<exists>wire'. recv_loop pw skip cap wire st (concat ms @ z) out =
      (OK, True, wire', \<lparr>ps_saw_error = (ps_saw_error st \<or> (\<exists>m \<in> set ms. m ! 0 = 69)), ps_complete = True\<rparr>, [],
       out @ visible pw skip (ms @ [z]))"
proof (induction ms arbitrary: wire st out)
  case Nil
  have z: "framed z" "z ! 0 = 90" using Z by (simp_all add: rfq_ok_def)
  from Nil(3) have "length out + length (visible pw skip [z]) \<le> cap" by simp
  from be_filter_append_msg [OF P z(1) this, of wire st] obtain w' where
    "be_filter_append pw skip cap wire st z out = (OK, w', \<lparr>ps_saw_error = ps_saw_error st, ps_complete = True\<rparr>,
      out @ visible pw skip [z], True)" using z(2) by auto
  from recv_loop_msg [OF z(1) this, of "[]"] show ?case by (intro exI [of _ w']) simp
next
  case (Cons m ms)
  have m: "framed m" "m ! 0 \<noteq> 90" using Cons.prems(1) by (simp_all add: row_ok_def)
  let ?st = "\<lparr>ps_saw_error = (ps_saw_error st \<or> m ! 0 = 69), ps_complete = False\<rparr>"
  have "length out + length (visible pw skip [m]) \<le> cap" using Cons.prems(3) by (simp split: if_splits)
  from be_filter_append_msg [OF P m(1) this, of wire st] obtain w1 where
    f: "be_filter_append pw skip cap wire st m out = (OK, w1, ?st, out @ visible pw skip [m], False)"
    using m(2) Cons.prems(2) by auto
  have "length (out @ visible pw skip [m]) + length (visible pw skip (ms @ [z])) \<le> cap"
    using Cons.prems(3) by (simp split: if_splits)
  from Cons.IH [of ?st "out @ visible pw skip [m]" w1] this Cons.prems(1) obtain wire' where
    "recv_loop pw skip cap w1 ?st (concat ms @ z) (out @ visible pw skip [m]) =
      (OK, True, wire', \<lparr>ps_saw_error = ((ps_saw_error st \<or> m ! 0 = 69) \<or> (\<exists>m \<in> set ms. m ! 0 = 69)), ps_complete = True\<rparr>, [],
       (out @ visible pw skip [m]) @ visible pw skip (ms @ [z]))" by auto
  with recv_loop_msg [OF m(1) f, of "concat ms @ z"] show ?case by (intro exI [of _ wire']) (simp add: disj_assoc)
qed

section \<open>Properties\<close>

text \<open>C26. The blocking round trip returns the answer: when the pipeline has been sent and the backend
  answers with fewer than 256 messages and ReadyForQuery, cut into reads in any way, the result is 0,
  the buffer holds exactly the messages that the filter does not hide, in order, the status tells whether
  an ErrorResponse was among them, nothing beyond ReadyForQuery is read, and the connection stays
  alive.\<close>

theorem blocking_round_trip_answer:
  assumes "pipe_ok pw" and "be_wire c = Some wire" and "be_alive c"
    and "send_wire pw (be_fd c) (w_n_output pw wire) wire w = (OK, wire1, w1)"
    and "reads_ok (w_io w1)" and "stream_of (w_io w1) = concat rows @ rfq @ later"
    and "\<forall>m \<in> set rows. row_ok m" and "rfq_ok rfq" and "length rows < 256"
    and "length (visible pw skip (rows @ [rfq])) \<le> cap"
    and "flush_pipeline_ex pw c cap skip w = (rc, out, c', st, w')"
  shows "rc = 0 \<and> out = visible pw skip (rows @ [rfq]) \<and> be_alive c' \<and> stream_of (w_io w') = later \<and>
    st = Some \<lparr>ps_saw_error = (\<exists>m \<in> set rows. m ! 0 = 69), ps_complete = True\<rparr>"
proof -
  obtain k where k: "256 = length rows + Suc k" using assms(9) by (metis less_imp_Suc_add add_Suc_right)
  have len: "length ([] :: bytes) + length (visible pw skip rows) \<le> cap" using assms(10) by simp
  from flush_loop_rows [OF assms(1,7) _ assms(5,6) len, of pipe_init "Suc k" wire1] obtain wire2 s2 where
    1: "flush_loop pw 256 cap skip wire1 pipe_init [] w1 = flush_loop pw (Suc k) cap skip wire2
          \<lparr>ps_saw_error = (\<exists>m \<in> set rows. m ! 0 = 69), ps_complete = False\<rparr> (visible pw skip rows) (w1\<lparr>w_io := s2\<rparr>)"
      "reads_ok s2" "stream_of s2 = rfq @ later" unfolding k by auto
  from flush_loop_last [OF assms(1,8), of "\<lparr>ps_saw_error = (\<exists>m \<in> set rows. m ! 0 = 69), ps_complete = False\<rparr>"
      "w1\<lparr>w_io := s2\<rparr>" later "visible pw skip rows" skip cap k wire2] 1(2,3) assms(10) obtain wire3 s3 where
    2: "flush_loop pw (Suc k) cap skip wire2 \<lparr>ps_saw_error = (\<exists>m \<in> set rows. m ! 0 = 69), ps_complete = False\<rparr>
          (visible pw skip rows) (w1\<lparr>w_io := s2\<rparr>) =
        (FlushDone wire3 \<lparr>ps_saw_error = (\<exists>m \<in> set rows. m ! 0 = 69), ps_complete = True\<rparr> (visible pw skip (rows @ [rfq])),
         w1\<lparr>w_io := s3\<rparr>)" "stream_of s3 = later" by auto
  show ?thesis
    using assms(11) 2(2) assms(3) unfolding flush_pipeline_reads [OF assms(2-4)] 1(1) 2(1) by auto
qed

text \<open>C25. The asynchronous way returns the same answer: when the accumulator is empty and the chunks
  received, cut in any way, are messages ended by ReadyForQuery that fit the 16 KiB accumulator, the run
  over the chunks completes with 0 and hands the frontend exactly the messages that the filter does not
  hide, in order.\<close>

theorem async_answer:
  assumes "pipe_ok pw" and "be_wire c = Some wire" and "be_recv_acc c = []" and "\<not> ps_complete (be_pipe c)"
    and "concat ds = concat rows @ rfq" and "length (concat ds) \<le> 16384"
    and "\<forall>m \<in> set rows. row_ok m" and "rfq_ok rfq"
    and "length (visible pw (be_skip_parse_bind c) (rows @ [rfq])) \<le> cap"
    and "recv_chunks pw cap ds c [] = (rc, complete, c', out)"
  shows "rc = 0 \<and> complete \<and> out = visible pw (be_skip_parse_bind c) (rows @ [rfq])"
proof -
  have "rfq \<noteq> []" using assms(8) by (auto simp: rfq_ok_def framed_def)
  then have "ds \<noteq> []" using assms(5) by auto
  moreover have "length (be_recv_acc c) + length (concat ds) \<le> 16384" using assms(3,6) by simp
  ultimately obtain c'' where whole: "async_on_recv pw c (concat ds) [] cap = (rc, complete, c'', out)"
    using recv_chunks_concat assms(10) by blast
  have "length ([] :: bytes) + length (visible pw (be_skip_parse_bind c) (rows @ [rfq])) \<le> cap"
    using assms(9) by simp
  from recv_loop_answer [OF assms(1,8,7,4) this, of wire] assms(2,3,5,6) whole show ?thesis
    by (auto simp: async_on_recv_def Let_def)
qed

lemma exec_query_unfold:
  assumes "checkout pw cr grp p w = (Some i, p1, w1)" and "be_wire (po_conns p1 ! i) = Some wire"
    and "w_send_query pw (drop_output pw 1024 (w_n_output pw wire) wire) sql = (0, wire1)"
    and "flush_pipeline_ex pw ((po_conns p1 ! i)\<lparr>be_wire := Some wire1\<rparr>) cap False w1 = (rc, out, c2, st, w2)"
  shows "exec_query pw cr grp sql cap p w = (rc, out, st, checkin i (set_conn i c2 p1), w2)"
  using assms by (simp add: exec_query_def)

text \<open>C24. A blocking round trip that gives up leaves the rest of the answer to the next user of the
  connection: when the answer has 256 messages before ReadyForQuery (a result of a few hundred rows), the
  round trip fails, but the connection is still alive, is idle in the pool again, and the unread bytes are
  the next ones that a round trip on it reads. Nothing marks the connection dead, as the failures of
  reading and writing do.\<close>

theorem overlong_answer_left_unread:
  assumes "pipe_ok pw" and "pool_inv p" and "checkout pw cr grp p w = (Some i, p1, w1)"
    and "be_wire (po_conns p1 ! i) = Some wire"
    and "w_send_query pw (drop_output pw 1024 (w_n_output pw wire) wire) sql = (0, wire1)"
    and "send_wire pw (be_fd (po_conns p1 ! i)) (w_n_output pw wire1) wire1 w1 = (OK, wire2, w2)"
    and "reads_ok (w_io w2)" and "stream_of (w_io w2) = concat rows @ unread"
    and "\<forall>m \<in> set rows. row_ok m" and "length rows = 256" and "length (visible pw False rows) \<le> cap"
    and "exec_query pw cr grp sql cap p w = (rc, out, st, p', w')"
  shows "rc = -1 \<and> be_alive (po_conns p' ! i) \<and> \<not> be_busy (po_conns p' ! i) \<and> stream_of (w_io w') = unread"
proof -
  note g = conjunct1 [OF checkout_grants [OF assms(2,3)]]
  have i: "i < length (po_conns p1)" "be_alive (po_conns p1 ! i)"
    using g grants_alive [OF g refl] by (auto simp: grants_def pool_inv_def)
  have len: "length ([] :: bytes) + length (visible pw False rows) \<le> cap" using assms(11) by simp
  from flush_loop_rows [OF assms(1,9) _ assms(7,8) len, of pipe_init 0 wire2] obtain wire3 s3 where
    1: "flush_loop pw 256 cap False wire2 pipe_init [] w2 = (FlushDone wire3
          \<lparr>ps_saw_error = (\<exists>m \<in> set rows. m ! 0 = 69), ps_complete = False\<rparr> (visible pw False rows), w2\<lparr>w_io := s3\<rparr>)"
      "stream_of s3 = unread" unfolding assms(10) by auto
  let ?c = "(po_conns p1 ! i)\<lparr>be_wire := Some wire1\<rparr>"
  have "be_wire ?c = Some wire1" "be_alive ?c" "send_wire pw (be_fd ?c) (w_n_output pw wire1) wire1 w1 = (OK, wire2, w2)"
    using i assms(6) by simp_all
  from flush_pipeline_reads [OF this, of cap False] 1(1) have
    "flush_pipeline_ex pw ?c cap False w1 = (ERR, visible pw False rows, ?c\<lparr>be_wire := Some wire3,
        be_pipe := \<lparr>ps_saw_error = (\<exists>m \<in> set rows. m ! 0 = 69), ps_complete = False\<rparr>\<rparr>,
        Some \<lparr>ps_saw_error = (\<exists>m \<in> set rows. m ! 0 = 69), ps_complete = False\<rparr>, w2\<lparr>w_io := s3\<rparr>)" by simp
  from exec_query_unfold [OF assms(3-5) this] assms(12) 1(2) i show ?thesis
    by (auto simp: checkin_def set_busy_def)
qed

section \<open>Witnesses\<close>

lemma ref_pipe_ok: "pipe_ok ref_pw"
proof -
  have "ref_peek m = Some (m ! 0, length m) \<and> ref_feed st m =
      \<lparr>ps_saw_error = (ps_saw_error st \<or> m ! 0 = 69), ps_complete = (ps_complete st \<or> m ! 0 = 90)\<rparr>" if "framed m" for m st
    using that by (cases m) (auto simp: framed_def ref_peek_def ref_feed_def)
  then show ?thesis by (simp add: pipe_ok_def ref_pw_sel)
qed

text \<open>An answer of two rows and ReadyForQuery, and one of 257 rows.\<close>

definition demo_row :: bytes where
  "demo_row = [68, 0, 0, 0, 4]"

definition demo_rfq :: bytes where
  "demo_rfq = [90, 0, 0, 0, 5, 73]"

lemma demo_rows: "row_ok demo_row" "rfq_ok demo_rfq" "\<not> w_filter_type ref_pw (demo_row ! 0) b"
  "\<not> w_filter_type ref_pw (demo_rfq ! 0) b"
  by (auto simp: row_ok_def rfq_ok_def framed_def demo_row_def demo_rfq_def be32_at_def ref_pw_sel)

theorem blocking_round_trip_answer_witness:
  "\<exists>c' st w'. flush_pipeline_ex ref_pw demo_conn 100 False
      \<lparr>w_io = [Seg (demo_row @ [68, 0]), Seg [0, 0, 4], Intr, Seg (demo_rfq @ [7])], w_log = [], w_metrics = metrics_zero\<rparr> =
    (0, demo_row @ demo_row @ demo_rfq, c', st, w') \<and> stream_of (w_io w') = [7]"
proof -
  let ?w = "\<lparr>w_io = [Seg (demo_row @ [68, 0]), Seg [0, 0, 4], Intr, Seg (demo_rfq @ [7])], w_log = [], w_metrics = metrics_zero\<rparr>"
  obtain rc out c' st w' where r: "flush_pipeline_ex ref_pw demo_conn 100 False ?w = (rc, out, c', st, w')"
    by (metis prod_cases5)
  have c: "be_wire demo_conn = Some ref_wire0" "be_alive demo_conn" by (simp_all add: demo_conn_def)
  have s: "send_wire ref_pw (be_fd demo_conn) (w_n_output ref_pw ref_wire0) ref_wire0 ?w = (OK, ref_wire0, ?w)"
    by (simp add: ref_pw_sel ref_wire0_def)
  have a: "reads_ok (w_io ?w)" "stream_of (w_io ?w) = concat [demo_row, demo_row] @ demo_rfq @ [7]"
    "\<forall>m \<in> set [demo_row, demo_row]. row_ok m" "length [demo_row, demo_row] < 256"
    "length (visible ref_pw False ([demo_row, demo_row] @ [demo_rfq])) \<le> 100"
    using demo_rows by (simp_all add: demo_row_def demo_rfq_def)
  from blocking_round_trip_answer [OF ref_pipe_ok c s a(1-3) demo_rows(2) a(4,5) r] r show ?thesis
    using demo_rows by simp
qed

theorem async_answer_witness:
  "\<exists>c'. recv_chunks ref_pw 100 [[68, 0, 0], [0, 4, 90, 0], [0, 0, 5, 73]] demo_conn [] = (0, True, c', demo_row @ demo_rfq)"
proof -
  let ?ds = "[[68, 0, 0], [0, 4, 90, 0], [0, 0, 5, 73]] :: bytes list"
  obtain rc co c' out where r: "recv_chunks ref_pw 100 ?ds demo_conn [] = (rc, co, c', out)"
    by (metis prod_cases4)
  have c: "be_wire demo_conn = Some ref_wire0" "be_recv_acc demo_conn = []" "\<not> ps_complete (be_pipe demo_conn)"
    by (simp_all add: demo_conn_def conn_init_def)
  have a: "concat ?ds = concat [demo_row] @ demo_rfq" "length (concat ?ds) \<le> 16384" "\<forall>m \<in> set [demo_row]. row_ok m"
    "length (visible ref_pw (be_skip_parse_bind demo_conn) ([demo_row] @ [demo_rfq])) \<le> 100"
    using demo_rows by (simp_all add: demo_row_def demo_rfq_def)
  from async_answer [OF ref_pipe_ok c a(1-3) demo_rows(2) a(4) r] r show ?thesis using demo_rows by simp
qed

theorem overlong_answer_left_unread_witness:
  "\<exists>out st p' w'. exec_query ref_pw demo_crypto ''east'' ''SELECT 1'' 65536 demo_pool
      \<lparr>w_io = [Ret 1, Seg (concat (replicate 257 demo_row) @ demo_rfq)], w_log = [], w_metrics = metrics_zero\<rparr> =
    (-1, out, st, p', w') \<and> be_alive (po_conns p' ! 0) \<and> \<not> be_busy (po_conns p' ! 0) \<and>
    stream_of (w_io w') = demo_row @ demo_rfq"
proof -
  let ?seg = "Seg (concat (replicate 257 demo_row) @ demo_rfq)"
  let ?w = "\<lparr>w_io = [Ret 1, ?seg], w_log = [], w_metrics = metrics_zero\<rparr>"
  let ?p = "(set_busy 0 True demo_pool)\<lparr>po_rr_cursor := 0\<rparr>"
  let ?wire1 = "\<lparr>rw_sent = [BQuery ''SELECT 1''], rw_out = [81], rw_events = []\<rparr>"
  obtain rc out st p' w' where r: "exec_query ref_pw demo_crypto ''east'' ''SELECT 1'' 65536 demo_pool ?w = (rc, out, st, p', w')"
    by (metis prod_cases5)
  have inv: "pool_inv demo_pool" using pool_create_warmed [OF demo_create] by (simp add: warmed_def)
  have co: "checkout ref_pw demo_crypto ''east'' demo_pool ?w = (Some 0, ?p, ?w)"
    by (simp add: checkout_def checkout_try_def rotation_def demo_pool_sel demo_cfg_sel Let_def)
  have wire: "be_wire (po_conns ?p ! 0) = Some ref_wire0" by (simp add: demo_pool_sel) (simp add: demo_conn_def)
  have q: "w_send_query ref_pw (drop_output ref_pw 1024 (w_n_output ref_pw ref_wire0) ref_wire0) ''SELECT 1'' = (0, ?wire1)"
    by (simp add: ref_pw_sel ref_wire0_def ref_send_def)
  let ?w2 = "\<lparr>w_io = [?seg], w_log = [(5, [81])], w_metrics = metrics_zero\<rparr>"
  have s: "send_wire ref_pw (be_fd (po_conns ?p ! 0)) (w_n_output ref_pw ?wire1) ?wire1 ?w =
      (OK, ?wire1\<lparr>rw_out := []\<rparr>, ?w2)"
    by (simp add: ref_pw_sel demo_pool_sel) (simp add: demo_conn_def write_all.simps)
  have ne: "concat (replicate 257 demo_row) @ demo_rfq \<noteq> []" by (simp add: demo_rfq_def)
  have rep: "concat (replicate 257 demo_row) = concat (replicate 256 demo_row) @ demo_row"
    using replicate_add [of 256 1 demo_row] by simp
  have a: "reads_ok (w_io ?w2)" "stream_of (w_io ?w2) = concat (replicate 256 demo_row) @ demo_row @ demo_rfq"
    "\<forall>m \<in> set (replicate 256 demo_row). row_ok m" "length (replicate 256 demo_row) = 256"
    using demo_rows(1) ne rep by simp_all
  have v: "visible ref_pw False (replicate n demo_row) = concat (replicate n demo_row)" for n
    using demo_rows(3) by (induction n) simp_all
  have l: "length (concat (replicate n demo_row)) = 5 * n" for n
    by (induction n) (simp_all add: demo_row_def)
  have "length (visible ref_pw False (replicate 256 demo_row)) \<le> 65536" unfolding v l by simp
  from overlong_answer_left_unread [OF ref_pipe_ok inv co wire q s a this r] r show ?thesis by blast
qed

end
