(* ===== verification/Pool_Lease.thy ===== *)
theory Pool_Lease
  imports Backend_Async
begin

text \<open>
  What the pool operations that the event loop calls (src/backend_pool.c) leave of the leases: which
  connections stay in use and untouched when a pipeline starts, when a blocking round trip is made,
  when bytes arrive on a connection and when a pipeline ends.
\<close>

section \<open>Starting a pipeline\<close>

definition logs_in :: "'w be_pool \<Rightarrow> nat \<Rightarrow> string \<Rightarrow> bool" where
  "logs_in p b grp \<longleftrightarrow> po_use_group_as_user p \<and> grp \<noteq> [] \<and> length grp < 128 \<longrightarrow> be_login_user (po_conns p ! b) = grp"

lemma checkout_logs_in:
  assumes "pool_inv p" and "checkout pw cr grp p w = (Some i, p', w')"
  shows "logs_in p' i grp"
  using checkout_grants [OF assms] by (auto simp: logs_in_def strncpy_arr_fits grants_def same_setup_def)

text \<open>The connection \<open>c\<close> was given a pipeline of the identity: its send buffer is all the output of a Bind
  rewrite for the identity on a context without older output, and what is sent already is part of it.\<close>

definition carries :: "'w pqwire \<Rightarrow> 'w be_conn \<Rightarrow> identity \<Rightarrow> bool" where
  "carries pw c ident \<longleftrightarrow> be_send_off c \<le> length (be_send c) \<and>
     (\<exists>cache b w wire wire'. on_bind pw (drop_output pw 1024 (w_n_output pw w) w) cache b ident = (0, wire) \<and>
        collect_output pw (w_n_output pw wire) wire [] = (0, wire', be_send c))"

definition serves :: "'w pqwire \<Rightarrow> 'w be_pool \<Rightarrow> nat \<Rightarrow> identity \<Rightarrow> bool" where
  "serves pw p b ident \<longleftrightarrow> logs_in p b (group_name ident) \<and> carries pw (po_conns p ! b) ident"

lemma carries_pipeline:
  assumes out: "output_stream pw pending" and ok: "client_ok pw sent" and c: "carries pw c ident"
  shows "be_send_off c \<le> length (be_send c) \<and> (\<exists>w w' prep b. pending w = [] \<and> pending w' = be_send c \<and>
    to_uint16 (bind_slot ident prep) < b_n_params b \<and>
    sent w' = sent w @ identity_pipeline prep b (to_uint16 (bind_slot ident prep)) (router_id ident))"
proof -
  obtain cache b w0 wire wire' where run: "on_bind pw (drop_output pw 1024 (w_n_output pw w0) w0) cache b ident = (0, wire)"
    and cl: "collect_output pw (w_n_output pw wire) wire [] = (0, wire', be_send c)" using c by (auto simp: carries_def)
  let ?w = "drop_output pw 1024 (w_n_output pw w0) w0"
  have n: "w_n_output pw x = length (pending x)" for x using out by (simp add: output_stream_def)
  have "pending ?w = []" by (rule drop_output_pending [OF out]) (simp_all add: n)
  moreover have "pending wire = be_send c" using collect_output_all [OF out _ cl] by (simp add: n)
  moreover obtain prep where prep: "stmt_cache_get cache (b_statement b) = Some prep" "to_uint16 (bind_slot ident prep) < b_n_params b"
    using on_bind_refused [OF run] by (cases "stmt_cache_get cache (b_statement b)") (auto simp: not_le [symmetric])
  moreover have "sent wire = sent ?w @ identity_pipeline prep b (to_uint16 (bind_slot ident prep)) (router_id ident)"
    using on_bind_sends_prefix [OF ok run prep] by (auto simp: identity_pipeline_def)
  ultimately show ?thesis using c by (auto simp: carries_def)
qed

lemma async_begin_grants:
  assumes inv: "pool_inv p" and run: "async_begin pw cr cache b ident p w = (got, p', w')"
  shows "grants p got p' \<and> (\<forall>i. got = Some i \<longrightarrow> serves pw p' i ident)"
proof -
  obtain got1 p1 w1 where co: "checkout pw cr (group_name ident) p w = (got1, p1, w1)" by (metis prod_cases3)
  have g1: "grants p got1 p1" using checkout_grants [OF inv co] by blast
  show ?thesis
  proof (cases got1)
    case None
    with run co g1 show ?thesis by (auto simp: async_begin_def)
  next
    case (Some i)
    let ?c = "po_conns p1 ! i"
    note a = grants_alive [OF g1 Some]
    have I: "conn_ok ?c" "be_slot ?c = i" "length (po_conns p1) = po_max_conns p1"
      using pool_invD [of p1 i] g1 a(3) by (auto simp: grants_def)
    have l: "logs_in p1 i (group_name ident)" using checkout_logs_in [OF inv] co Some by blast
    obtain wire where wire: "be_wire ?c = Some wire" using I(1) a(1) by (auto simp: conn_ok_def)
    let ?w0 = "drop_output pw 1024 (w_n_output pw wire) wire"
    let ?c0 = "?c\<lparr>be_send := [], be_send_off := 0, be_recv_acc := [], be_skip_parse_bind := True, be_pipe := pipe_init\<rparr>"
    obtain rc wire1 where ob: "on_bind pw ?w0 cache b ident = (rc, wire1)" by fastforce
    obtain rc2 wire2 buf where cl: "collect_output pw (w_n_output pw wire1) wire1 [] = (rc2, wire2, buf)" by (metis prod_cases3)
    have repl: "grants p (Some i) (set_conn i c p1) \<and> logs_in (set_conn i c p1) i (group_name ident)"
      if "c = ?c0\<lparr>be_wire := Some x\<rparr> \<or> c = ?c0\<lparr>be_wire := Some x, be_send := s\<rparr>" for c x s
      using that g1 [unfolded Some] I a l by (intro conjI grants_replace) (auto simp: conn_ok_def logs_in_def)
    have new: "po_conns (set_conn i c p1) ! i = c" for c using I(3) a(3) by simp
    have "got = Some i \<and> (\<exists>x. p' = set_conn i (?c0\<lparr>be_wire := Some x, be_send := buf\<rparr>) p1) \<and> rc = 0 \<and> rc2 = 0 \<or>
      got = None \<and> (\<exists>c x s. (c = ?c0\<lparr>be_wire := Some x\<rparr> \<or> c = ?c0\<lparr>be_wire := Some x, be_send := s\<rparr>) \<and>
          p' = checkin i (set_conn i c p1))"
      using run co Some wire ob cl by (auto simp: async_begin_def Let_def split: if_splits)
    then consider (ok) x where "got = Some i" "p' = set_conn i (?c0\<lparr>be_wire := Some x, be_send := buf\<rparr>) p1" "rc = 0" "rc2 = 0"
      | (no) c x s where "got = None" "c = ?c0\<lparr>be_wire := Some x\<rparr> \<or> c = ?c0\<lparr>be_wire := Some x, be_send := s\<rparr>"
          "p' = checkin i (set_conn i c p1)" by blast
    then show ?thesis
    proof cases
      case ok
      then have "carries pw (po_conns p' ! i) ident" using ob cl unfolding ok(2) new carries_def by simp blast
      with repl [of "?c0\<lparr>be_wire := Some x, be_send := buf\<rparr>" x buf] ok show ?thesis by (auto simp: serves_def)
    next
      case no
      then show ?thesis using grants_checkin repl by (metis option.distinct(1))
    qed
  qed
qed

section \<open>Blocking round trips\<close>

text \<open>A connection may come back dead from a round trip.\<close>

lemma grants_return:
  assumes g: "grants p (Some i) p1" and "conn_ok c" "be_slot c = i"
  shows "grants p None (checkin i (set_conn i c p1))"
proof -
  have i: "i \<notin> busy_set p" "pool_inv p1" "i < po_max_conns p1" "same_setup p p1" "busy_set p1 = insert i (busy_set p)"
    using g grants_alive [OF g refl] by (auto simp: grants_def)
  note I = pool_invD [OF i(2,3)]
  have e: "checkin i (set_conn i c p1) = set_conn i (c\<lparr>be_busy := False\<rparr>) p1"
    using i I(3) by (simp add: checkin_def set_busy_def)
  have "pool_inv (set_conn i (c\<lparr>be_busy := False\<rparr>) p1)"
    using i(2,3) I(3) assms(2,3) by (simp add: pool_inv_def nth_list_update conn_ok_def)
  moreover have "busy_set (set_conn i (c\<lparr>be_busy := False\<rparr>) p1) = busy_set p1 - {i}"
    using i(3) I(3) by (auto simp: busy_set_def nth_list_update split: if_splits)
  moreover have "po_conns (set_conn i (c\<lparr>be_busy := False\<rparr>) p1) ! j = po_conns p ! j" if "j \<in> busy_set p" for j
    using that i(1) g by (cases "j = i") (auto simp: grants_def)
  ultimately show ?thesis unfolding e using i(1,4,5) by (simp add: grants_def same_setup_def)
qed

primrec flushed :: "'w flush_end \<Rightarrow> bytes" where
  "flushed (FlushDone wire st out) = out"
| "flushed (FlushDead wire out) = out"
| "flushed (FlushFull wire out) = out"

lemma flush_loop_fits: "flush_loop pw k cap skip wire st out w = (e, w') \<Longrightarrow> length out \<le> cap \<Longrightarrow> length (flushed e) \<le> cap"
proof (induction k arbitrary: wire st out w)
  case (Suc k)
  obtain rc msg w1 where r: "read_msg 16384 w = (rc, msg, w1)" by (metis prod_cases3)
  obtain rc2 wire1 st1 where f: "w_pipeline_feed pw wire st msg = (rc2, wire1, st1)" by (metis prod_cases3)
  from Suc.prems r f show ?case by (auto split: if_splits dest: Suc.IH)
qed auto

lemma flush_pipeline_fits: "flush_pipeline_ex pw c cap skip w = (rc, out, c', st, w') \<Longrightarrow> length out \<le> cap"
  by (auto simp: flush_pipeline_ex_def Let_def dest!: flush_loop_fits split: option.splits if_splits prod.splits flush_end.splits)

text \<open>The connection after a round trip, with its context changed before.\<close>

lemma flush_returns:
  assumes g: "grants p (Some i) p1" and c: "c = (po_conns p1 ! i)\<lparr>be_wire := Some x\<rparr> \<or> c = (po_conns p1 ! i)\<lparr>be_wire := Some x, be_pipe := st0\<rparr>"
    and f: "flush_pipeline_ex pw c cap skip w = (rc, out, c', st, w')"
  shows "grants p None (checkin i (set_conn i c' p1)) \<and> grants p None (checkin i (set_conn i c p1))"
proof -
  have "pool_inv p1" "i < po_max_conns p1" using g grants_alive [OF g refl] by (auto simp: grants_def)
  note I = pool_invD [OF this]
  have "conn_ok c" "be_slot c = i" "be_wire c \<noteq> None" using c I(1,2) by (auto simp: conn_ok_def)
  moreover from this have "conn_ok c'" "be_slot c' = i" using flush_pipeline_keeps [OF f] by (auto simp: conn_ok_def)
  ultimately show ?thesis using grants_return [OF g] by blast
qed

lemma exec_bind_grants:
  assumes inv: "pool_inv p" and run: "exec_bind_ex pw cr cache b ident cap p w = (rc, out, st, p', w')"
  shows "grants p None p' \<and> length out \<le> cap"
proof -
  obtain got p1 w1 where co: "checkout pw cr (group_name ident) p w = (got, p1, w1)" by (metis prod_cases3)
  have g: "grants p got p1" using checkout_grants [OF inv co] by blast
  show ?thesis
  proof (cases got)
    case None
    with run co g show ?thesis by (auto simp: exec_bind_ex_def)
  next
    case (Some i)
    let ?c = "po_conns p1 ! i"
    show ?thesis
    proof (cases "be_wire ?c")
      case None
      then show ?thesis using run co g Some grants_checkin by (auto simp: exec_bind_ex_def)
    next
      case (Some wire)
      obtain rc1 wire1 where ob: "on_bind pw (drop_output pw 1024 (w_n_output pw wire) wire) cache b ident = (rc1, wire1)" by fastforce
      let ?c1 = "?c\<lparr>be_wire := Some wire1, be_pipe := pipe_init\<rparr>"
      obtain rc2 out2 c2 st2 w2 where f: "flush_pipeline_ex pw ?c1 cap True w1 = (rc2, out2, c2, st2, w2)" by (metis prod_cases5)
      have "(p' = checkin i (set_conn i ?c1 p1) \<and> out = []) \<or> (p' = checkin i (set_conn i c2 p1) \<and> out = out2)"
        using run co \<open>got = Some i\<close> Some ob f by (auto simp: exec_bind_ex_def Let_def split: if_splits)
      with flush_returns [OF g [unfolded \<open>got = Some i\<close>] _ f] flush_pipeline_fits [OF f] show ?thesis by auto
    qed
  qed
qed

lemma exec_query_grants:
  assumes inv: "pool_inv p" and run: "exec_query pw cr grp sql cap p w = (rc, out, st, p', w')"
  shows "grants p None p' \<and> length out \<le> cap"
proof -
  obtain got p1 w1 where co: "checkout pw cr grp p w = (got, p1, w1)" by (metis prod_cases3)
  have g: "grants p got p1" using checkout_grants [OF inv co] by blast
  show ?thesis
  proof (cases got)
    case None
    with run co g show ?thesis by (auto simp: exec_query_def)
  next
    case (Some i)
    let ?c = "po_conns p1 ! i"
    show ?thesis
    proof (cases "be_wire ?c")
      case None
      then show ?thesis using run co g Some grants_checkin by (auto simp: exec_query_def)
    next
      case (Some wire)
      obtain rc1 wire1 where ob: "w_send_query pw (drop_output pw 1024 (w_n_output pw wire) wire) sql = (rc1, wire1)" by fastforce
      let ?c1 = "?c\<lparr>be_wire := Some wire1\<rparr>"
      obtain rc2 out2 c2 st2 w2 where f: "flush_pipeline_ex pw ?c1 cap False w1 = (rc2, out2, c2, st2, w2)" by (metis prod_cases5)
      have "(p' = checkin i (set_conn i ?c1 p1) \<and> out = []) \<or> (p' = checkin i (set_conn i c2 p1) \<and> out = out2)"
        using run co \<open>got = Some i\<close> Some ob f by (auto simp: exec_query_def Let_def split: if_splits)
      with flush_returns [OF g [unfolded \<open>got = Some i\<close>] _ f] flush_pipeline_fits [OF f] show ?thesis by auto
    qed
  qed
qed

section \<open>Bytes on a connection\<close>

lemma be_filter_append_fits: "be_filter_append pw skip cap wire st msg out = (rc, wire', st', out', saw) \<Longrightarrow>
    length out \<le> cap \<Longrightarrow> length out' \<le> cap"
  by (auto simp: be_filter_append_def Let_def split: option.splits if_splits prod.splits)

lemma recv_loop_fits: "recv_loop pw skip cap wire st rest out = (rc, fin, wire', st', rest', out') \<Longrightarrow>
    length out \<le> cap \<Longrightarrow> length out' \<le> cap"
proof (induction pw skip cap wire st rest out rule: recv_loop.induct)
  case (1 pw skip cap wire st rest out)
  obtain rc1 wire1 st1 out1 saw where f:
    "be_filter_append pw skip cap wire st (take (1 + unat (be32_at rest 1)) rest) out = (rc1, wire1, st1, out1, saw)"
    by (metis prod_cases5)
  from 1 f be_filter_append_fits [OF f] show ?case
    by (subst (asm) (2) recv_loop.simps) (auto simp: Let_def split: if_splits)
qed

lemma async_on_recv_conn:
  assumes "async_on_recv pw c data out cap = (rc, fin, c', out')"
  shows "be_login_user c' = be_login_user c \<and> be_slot c' = be_slot c \<and> be_busy c' = be_busy c \<and> be_alive c' = be_alive c \<and>
    be_send c' = be_send c \<and> be_send_off c' = be_send_off c \<and> (conn_ok c \<longrightarrow> conn_ok c') \<and> (length out \<le> cap \<longrightarrow> length out' \<le> cap)"
  using assms by (auto simp: async_on_recv_def Let_def conn_ok_def dest: recv_loop_fits split: if_splits option.splits prod.splits)

text \<open>Replacing a connection by one with the same login, slot, marks and pipeline.\<close>

definition same_lease :: "'w be_conn \<Rightarrow> 'w be_conn \<Rightarrow> bool" where
  "same_lease c c' \<longleftrightarrow> be_login_user c' = be_login_user c \<and> be_slot c' = be_slot c \<and> be_busy c' = be_busy c \<and>
     be_alive c' = be_alive c \<and> be_send c' = be_send c \<and>
     (be_send_off c \<le> length (be_send c) \<longrightarrow> be_send_off c' \<le> length (be_send c)) \<and> (conn_ok c \<longrightarrow> conn_ok c')"

lemma same_lease_carries: "same_lease c c' \<Longrightarrow> carries pw c ident \<Longrightarrow> carries pw c' ident"
  by (auto simp: same_lease_def carries_def)

lemma set_conn_same_lease:
  assumes "pool_inv p" and "same_lease (po_conns p ! b) c"
  shows "pool_inv (set_conn b c p) \<and> busy_set (set_conn b c p) = busy_set p \<and> (serves pw p j ident \<longrightarrow> serves pw (set_conn b c p) j ident)"
proof (cases "b < po_max_conns p")
  case True
  note I = pool_invD [OF assms(1) True]
  show ?thesis using assms True I
    by (auto simp: pool_inv_def busy_set_def same_lease_def serves_def carries_def logs_in_def nth_list_update)
next
  case False
  then have "(po_conns p)[b := c] = po_conns p" using assms(1) by (simp add: pool_inv_def list_update_beyond)
  then have "set_conn b c p = p" by (simp add: set_conn_def)
  then show ?thesis using assms(1) by simp
qed

end
