(* ===== verification/Fe_Queue.thy ===== *)
theory Fe_Queue
  imports Metrics Interfaces Pqwire_Ref
begin

text \<open>
  The queues of the event loop (src/iouring_loop.c): the ring of 32 requests that a frontend
  keeps while its backend pipeline is in flight (\<open>feq_push\<close> and its
  relatives), the ring of frontends that wait for a backend connection (\<open>waiters_push\<close>,
  \<open>waiters_remove\<close>), and the packing of an operation and a slot into the user data of a ring
  entry.
\<close>

section \<open>User data\<close>

unbundle bit_operations_syntax

definition pack_ud :: "32 word \<Rightarrow> 32 word \<Rightarrow> 64 word" where
  "pack_ud opc slot = push_bit 32 (ucast opc) OR ucast slot"

definition unpack_ud :: "64 word \<Rightarrow> 32 word \<times> 32 word" where
  "unpack_ud ud = (ucast (drop_bit 32 ud), ucast (ud AND 0xFFFFFFFF))"

section \<open>The request queue\<close>

abbreviation (input) FE_Q_MAX :: nat where "FE_Q_MAX \<equiv> 32"

datatype feq_kind = FEQ_NONE | FEQ_PARSE | FEQ_BIND | FEQ_EXECUTE | FEQ_SYNC | FEQ_QUERY | FEQ_TERMINATE

record feq_item =
  it_kind :: feq_kind
  it_parse :: pq_parse
  it_bind_stmt :: string
  it_bind_portal :: string
  it_n_params :: nat
  it_params :: "bind_param list"
  it_result_formats :: "int list"
  it_query_sql :: string

definition zero_parse :: pq_parse where
  "zero_parse = \<lparr>p_statement = [], p_query = [], p_n_param_types = 0, p_param_type_oids = []\<rparr>"

definition feq_zero :: feq_item where
  "feq_zero = \<lparr>it_kind = FEQ_NONE, it_parse = zero_parse, it_bind_stmt = [], it_bind_portal = [],
     it_n_params = 0, it_params = [], it_result_formats = [], it_query_sql = []\<rparr>"

record fe_queue =
  q_buf :: "feq_item list"
  q_head :: nat
  q_tail :: nat
  q_count :: nat

definition feq_empty :: fe_queue where
  "feq_empty = \<lparr>q_buf = replicate FE_Q_MAX feq_zero, q_head = 0, q_tail = 0, q_count = 0\<rparr>"

text \<open>\<open>feq_clear_all\<close>: every item is cleared and the indices are reset.\<close>

definition feq_clear_all :: "fe_queue \<Rightarrow> fe_queue" where
  "feq_clear_all q = \<lparr>q_buf = map (\<lambda>_. feq_zero) (q_buf q), q_head = 0, q_tail = 0, q_count = 0\<rparr>"

definition feq_push :: "fe_queue \<Rightarrow> feq_item \<Rightarrow> metrics \<Rightarrow> int \<times> fe_queue \<times> metrics" where
  "feq_push q item m =
     (if q_count q \<ge> FE_Q_MAX then (ERR, q, metrics_inc_fe_q_full m)
      else
        (let q' = q\<lparr>q_buf := (q_buf q)[q_tail q := item], q_tail := (q_tail q + 1) mod FE_Q_MAX,
                    q_count := q_count q + 1\<rparr>
         in (OK, q', metrics_note_fe_q_depth (q_count q') (metrics_inc_fe_q_enq m))))"

definition feq_pop :: "fe_queue \<Rightarrow> (feq_item \<times> fe_queue) option" where
  "feq_pop q =
     (if q_count q = 0 then None
      else Some (q_buf q ! q_head q,
        q\<lparr>q_buf := (q_buf q)[q_head q := feq_zero], q_head := (q_head q + 1) mod FE_Q_MAX,
          q_count := q_count q - 1\<rparr>))"

text \<open>Putting the item just taken back at the front, when no backend connection is free.\<close>

definition feq_push_front :: "fe_queue \<Rightarrow> feq_item \<Rightarrow> fe_queue" where
  "feq_push_front q item =
     (if q_count q < FE_Q_MAX then
        (let h = (q_head q + FE_Q_MAX - 1) mod FE_Q_MAX in
         q\<lparr>q_head := h, q_buf := (q_buf q)[h := item], q_count := q_count q + 1\<rparr>)
      else q)"

definition feq_push_parse :: "fe_queue \<Rightarrow> pq_parse \<Rightarrow> metrics \<Rightarrow> int \<times> fe_queue \<times> metrics" where
  "feq_push_parse q p m = feq_push q (feq_zero\<lparr>it_kind := FEQ_PARSE, it_parse := p\<rparr>) m"

text \<open>The owned copy of one parameter: NULL, binary bytes, or the bytes of a C string, which ends
  at the first NUL byte.\<close>

definition own_param :: "'w pqwire \<Rightarrow> bind_param \<Rightarrow> int \<times> bind_param" where
  "own_param pw v =
     (let p = \<lparr>bp_format = bp_format v, bp_length = 0, bp_data = []\<rparr>;
          d = take (nat (bp_length v)) (bp_data v) in
      if bp_length v < 0 then (OK, w_param_set_null pw p)
      else if bp_format v = 1 then w_param_set_binary pw p d
      else w_param_set_text pw p (takeWhile (\<lambda>b. b \<noteq> 0) d))"

primrec own_params :: "'w pqwire \<Rightarrow> bind_param list \<Rightarrow> bind_param list option" where
  "own_params pw [] = Some []"
| "own_params pw (v # vs) =
     (let (rc, p) = own_param pw v in
      if rc \<noteq> 0 then None else map_option ((#) p) (own_params pw vs))"

definition feq_push_bind :: "'w pqwire \<Rightarrow> fe_queue \<Rightarrow> pq_bind \<Rightarrow> metrics \<Rightarrow> int \<times> fe_queue \<times> metrics" where
  "feq_push_bind pw q b m =
     (let n = min (b_n_params b) (max_bind_params pw) in
      case own_params pw (take n (b_params b)) of
        None \<Rightarrow> (ERR, q, m)
      | Some ps \<Rightarrow>
          feq_push q (feq_zero\<lparr>it_kind := FEQ_BIND,
            it_bind_stmt := strncpy_arr (max_stmt_name pw) (b_statement b),
            it_bind_portal := strncpy_arr (max_portal_name pw) (b_portal b),
            it_n_params := n, it_params := ps,
            it_result_formats := take (max_bind_params pw) (b_result_formats b)\<rparr>) m)"

text \<open>The Bind that \<open>start_async_bind_from_queue\<close> makes of a queued item.\<close>

definition bind_of_item :: "'w pqwire \<Rightarrow> feq_item \<Rightarrow> pq_bind" where
  "bind_of_item pw it =
     \<lparr>b_portal = strncpy_arr (max_portal_name pw) (it_bind_portal it),
      b_statement = strncpy_arr (max_stmt_name pw) (it_bind_stmt it),
      b_n_params = it_n_params it, b_params = it_params it,
      b_formats = map bp_format (it_params it), b_result_formats = it_result_formats it\<rparr>"

section \<open>The ring of waiting frontends\<close>

abbreviation (input) MAX_CONNS :: nat where "MAX_CONNS \<equiv> 256"

record wait_ring =
  r_slots :: "nat list"
  r_head :: nat
  r_tail :: nat
  r_count :: nat

definition wait_empty :: wait_ring where
  "wait_empty = \<lparr>r_slots = replicate MAX_CONNS 0, r_head = 0, r_tail = 0, r_count = 0\<rparr>"

text \<open>The slots from the head on: what both loops over the ring visit.\<close>

definition waiting :: "wait_ring \<Rightarrow> nat list" where
  "waiting r = map (\<lambda>i. r_slots r ! ((r_head r + i) mod MAX_CONNS)) [0..<r_count r]"

definition waiters_push :: "bool \<Rightarrow> wait_ring \<Rightarrow> nat \<Rightarrow> metrics \<Rightarrow> int \<times> wait_ring \<times> metrics" where
  "waiters_push fair r slot m =
     (if \<not> fair then (ERR, r, m)
      else if slot \<in> set (waiting r) then (OK, r, m)
      else if r_count r \<ge> MAX_CONNS then (ERR, r, m)
      else
        (let r' = r\<lparr>r_slots := (r_slots r)[r_tail r := slot], r_tail := (r_tail r + 1) mod MAX_CONNS,
                    r_count := r_count r + 1\<rparr>
         in (OK, r', metrics_set_pool_waiters (r_count r') (metrics_inc_fair_waits m))))"

definition waiters_remove :: "wait_ring \<Rightarrow> nat \<Rightarrow> metrics \<Rightarrow> wait_ring \<times> metrics" where
  "waiters_remove r slot m =
     (if r_count r = 0 then (r, m)
      else
        (let tmp = filter (\<lambda>s. s \<noteq> slot) (waiting r); n = length tmp in
         if n = r_count r then (r, m)
         else
           (let r' = r\<lparr>r_slots := tmp @ drop n (r_slots r), r_head := 0, r_tail := n mod MAX_CONNS, r_count := n\<rparr>
            in (r', metrics_set_pool_waiters (r_count r') m))))"

text \<open>The head of the ring leaves it, as each turn of \<open>fair_schedule_waiters\<close> begins.\<close>

definition waiters_pop :: "wait_ring \<Rightarrow> (nat \<times> wait_ring) option" where
  "waiters_pop r =
     (if r_count r = 0 then None
      else Some (r_slots r ! r_head r, r\<lparr>r_head := (r_head r + 1) mod MAX_CONNS, r_count := r_count r - 1\<rparr>))"

section \<open>The rings as queues\<close>

definition feq_inv :: "fe_queue \<Rightarrow> bool" where
  "feq_inv q \<longleftrightarrow> length (q_buf q) = 32 \<and> q_head q < 32 \<and> q_count q \<le> 32 \<and> q_tail q = (q_head q + q_count q) mod 32"

definition feq_items :: "fe_queue \<Rightarrow> feq_item list" where
  "feq_items q = ring_view (q_buf q) (q_head q) (q_count q)"

definition wait_inv :: "wait_ring \<Rightarrow> bool" where
  "wait_inv r \<longleftrightarrow> length (r_slots r) = 256 \<and> r_head r < 256 \<and> r_count r \<le> 256 \<and>
     r_tail r = (r_head r + r_count r) mod 256 \<and> distinct (waiting r)"

lemma length_waiting [simp]: "length (waiting r) = r_count r"
  by (simp add: waiting_def)

lemma waiting_ring: "length (r_slots r) = 256 \<Longrightarrow> waiting r = ring_view (r_slots r) (r_head r) (r_count r)"
  by (simp add: waiting_def ring_view_def)

lemma feq_push_items:
  assumes "feq_inv q" "q_count q < 32"
  shows "feq_inv (fst (snd (feq_push q x m))) \<and> feq_items (fst (snd (feq_push q x m))) = feq_items q @ [x] \<and>
    fst (feq_push q x m) = OK"
proof -
  have "feq_items (q\<lparr>q_buf := (q_buf q)[q_tail q := x], q_tail := (q_tail q + 1) mod 32, q_count := q_count q + 1\<rparr>) = feq_items q @ [x]"
    using ring_view_push [of "q_count q" "q_buf q" "q_head q" x] assms
    by (simp add: feq_items_def feq_inv_def)
  then show ?thesis using assms by (simp add: feq_push_def Let_def feq_inv_def mod_simps)
qed

lemma feq_push_full: "\<not> q_count q < 32 \<Longrightarrow> feq_push q x m = (ERR, q, metrics_inc_fe_q_full m)"
  by (simp add: feq_push_def)

lemma feq_pop_items:
  assumes "feq_inv q" "feq_pop q = Some (x, q')"
  shows "feq_inv q' \<and> feq_items q = x # feq_items q'"
proof -
  obtain n where n: "q_count q = Suc n" using assms(2) by (cases "q_count q") (auto simp: feq_pop_def)
  note I = assms(1) [unfolded feq_inv_def]
  have "ring_view ((q_buf q)[q_head q := feq_zero]) ((q_head q + 1) mod length (q_buf q)) n =
      ring_view (q_buf q) ((q_head q + 1) mod length (q_buf q)) n"
    using I n by (intro ring_view_pop_clear) auto
  moreover have "feq_items q = q_buf q ! q_head q # ring_view (q_buf q) ((q_head q + 1) mod 32) n"
    using ring_view_pop [of "q_buf q" "q_head q" n] I n by (simp add: feq_items_def)
  moreover have "x = q_buf q ! q_head q"
    "q' = q\<lparr>q_buf := (q_buf q)[q_head q := feq_zero], q_head := (q_head q + 1) mod 32, q_count := n\<rparr>"
    using assms(2) n by (auto simp: feq_pop_def)
  ultimately show ?thesis using I n by (simp add: feq_inv_def feq_items_def mod_simps)
qed

lemma feq_push_front_items:
  assumes "feq_inv q" "q_count q < 32"
  shows "feq_inv (feq_push_front q x) \<and> feq_items (feq_push_front q x) = x # feq_items q"
proof -
  note I = assms(1) [unfolded feq_inv_def]
  have "feq_items (feq_push_front q x) = x # feq_items q"
    using ring_view_push_front [of "q_count q" "q_buf q" "q_head q" x] I assms(2)
    by (simp add: feq_items_def feq_push_front_def Let_def)
  moreover have "((q_head q + 31) mod 32 + Suc (q_count q)) mod 32 = (q_head q + q_count q) mod 32"
  proof -
    have "q_head q + 31 + Suc (q_count q) = q_head q + q_count q + 32" by simp
    then show ?thesis by (metis mod_add_left_eq mod_add_self2)
  qed
  ultimately show ?thesis using I assms(2) by (simp add: feq_inv_def feq_push_front_def Let_def add.commute)
qed

interpretation feq: requeue_fifo feq_inv feq_items 32 "\<lambda>_ _. True" "\<lambda>q x. fst (snd (feq_push q x metrics_zero))"
  feq_pop feq_push_front
proof unfold_locales
  fix q
  assume "feq_inv q"
  then show "length (feq_items q) \<le> 32" by (simp add: feq_items_def feq_inv_def)
next
  fix q x
  assume "feq_inv q"
  then show "feq_inv (fst (snd (feq_push q x metrics_zero))) \<and>
      feq_items (fst (snd (feq_push q x metrics_zero))) = list_push 32 (\<lambda>_ _. True) (feq_items q) x"
    using feq_push_items [of q x metrics_zero] feq_push_full [of q x metrics_zero]
    by (cases "q_count q < 32") (simp_all add: list_push_def feq_items_def)
next
  fix q
  assume "feq_inv q"
  then show "case feq_pop q of None \<Rightarrow> feq_items q = [] | Some (x, q') \<Rightarrow> feq_inv q' \<and> feq_items q = x # feq_items q'"
    using feq_pop_items [of q] by (auto simp: feq_items_def feq_pop_def [of q] split: option.splits)
next
  fix q x
  assume "feq_inv q"
  then show "feq_inv (feq_push_front q x) \<and> feq_items (feq_push_front q x) = list_requeue 32 (feq_items q) x"
    using feq_push_front_items [of q x]
    by (cases "q_count q < 32") (simp_all add: list_requeue_def feq_items_def feq_push_front_def)
qed

lemma feq_empty_items [ring_simps]: "feq_inv feq_empty \<and> feq_items feq_empty = []"
  by (simp add: feq_inv_def feq_items_def feq_empty_def)

lemma feq_clear_all_empty: "length (q_buf q) = FE_Q_MAX \<Longrightarrow> feq_clear_all q = feq_empty"
  by (simp add: feq_clear_all_def feq_empty_def map_replicate_const)

section \<open>The ring of waiting frontends as a queue\<close>

lemma waiters_push_items:
  assumes "wait_inv r"
  shows "wait_inv (fst (snd (waiters_push True r s m))) \<and>
    waiting (fst (snd (waiters_push True r s m))) = list_push 256 (\<lambda>xs x. x \<notin> set xs) (waiting r) s"
proof (cases "s \<notin> set (waiting r) \<and> r_count r < 256")
  case True
  note I = assms [unfolded wait_inv_def]
  let ?r = "r\<lparr>r_slots := (r_slots r)[r_tail r := s], r_tail := (r_tail r + 1) mod 256, r_count := r_count r + 1\<rparr>"
  have "waiting ?r = waiting r @ [s]"
    using ring_view_push [of "r_count r" "r_slots r" "r_head r" s] I True by (simp add: waiting_ring)
  moreover have "fst (snd (waiters_push True r s m)) = ?r" using True by (simp add: waiters_push_def Let_def)
  ultimately show ?thesis using I True by (simp add: wait_inv_def list_push_def mod_simps)
next
  case False
  then show ?thesis using assms by (auto simp: waiters_push_def list_push_def)
qed

lemma waiters_pop_items:
  assumes "wait_inv r"
  shows "case waiters_pop r of None \<Rightarrow> waiting r = [] | Some (s, r') \<Rightarrow> wait_inv r' \<and> waiting r = s # waiting r'"
proof (cases "r_count r")
  case 0
  then show ?thesis by (simp add: waiters_pop_def waiting_def)
next
  case (Suc n)
  note I = assms [unfolded wait_inv_def]
  let ?r = "r\<lparr>r_head := (r_head r + 1) mod 256, r_count := n\<rparr>"
  have w: "waiting r = r_slots r ! r_head r # waiting ?r"
    using ring_view_pop [of "r_slots r" "r_head r" n] I Suc by (simp add: waiting_ring)
  moreover have "distinct (waiting ?r)" using I w by simp
  ultimately show ?thesis using I Suc by (simp add: waiters_pop_def wait_inv_def mod_simps)
qed

lemma waiters_remove_items:
  assumes "wait_inv r"
  shows "wait_inv (fst (waiters_remove r s m)) \<and>
    waiting (fst (waiters_remove r s m)) = filter (\<lambda>x. x \<noteq> s) (waiting r)"
proof -
  note I = assms [unfolded wait_inv_def]
  let ?tmp = "filter (\<lambda>x. x \<noteq> s) (waiting r)"
  have le: "length ?tmp \<le> r_count r" using length_filter_le [of "\<lambda>x. x \<noteq> s" "waiting r"] by simp
  show ?thesis
  proof (cases "length ?tmp = r_count r")
    case True
    then have "?tmp = waiting r"
      using length_filter_less [of s "waiting r" "\<lambda>x. x \<noteq> s"] by (cases "s \<in> set (waiting r)") (auto intro: filter_True)
    with True show ?thesis using assms by (auto simp: waiters_remove_def Let_def)
  next
    case False
    with le have less: "length ?tmp < r_count r" by simp
    let ?r = "r\<lparr>r_slots := ?tmp @ drop (length ?tmp) (r_slots r), r_head := 0,
      r_tail := length ?tmp mod 256, r_count := length ?tmp\<rparr>"
    have eq: "fst (waiters_remove r s m) = ?r"
      using less False by (auto simp: waiters_remove_def Let_def)
    have "waiting ?r = ?tmp"
      using less I by (intro nth_equalityI) (auto simp: waiting_def nth_append)
    with eq less I show ?thesis by (simp add: wait_inv_def)
  qed
qed

interpretation waiters: edit_fifo wait_inv waiting 256 "\<lambda>xs x. x \<notin> set xs"
  "\<lambda>r s. fst (snd (waiters_push True r s metrics_zero))" waiters_pop
  "\<lambda>r s. fst (waiters_remove r s metrics_zero)" "\<lambda>xs s. filter (\<lambda>x. x \<noteq> s) xs"
  by unfold_locales (simp_all add: waiters_push_items waiters_pop_items waiters_remove_items, simp add: wait_inv_def)

lemma wait_inv_distinct: "wait_inv r \<Longrightarrow> distinct (waiting r)"
  by (simp add: wait_inv_def)

lemma wait_empty_items [ring_simps]: "wait_inv wait_empty \<and> waiting wait_empty = []"
  by (simp add: wait_inv_def wait_empty_def waiting_def)

section \<open>A queued Bind\<close>

text \<open>What a parameter means to the server: NULL, or a format and the bytes.\<close>

definition param_value :: "bind_param \<Rightarrow> (int \<times> bytes) option" where
  "param_value p = (if bp_length p < 0 then None else Some (bp_format p, take (nat (bp_length p)) (bp_data p)))"

text \<open>A parameter as it comes off the wire: its length field counts its bytes, its format is 0 or 1,
  and a text value holds no NUL byte, which PostgreSQL refuses in text.\<close>

definition param_wf :: "bind_param \<Rightarrow> bool" where
  "param_wf p \<longleftrightarrow> bp_format p \<in> {0, 1} \<and> (bp_length p < 0 \<or> bp_length p = int (length (bp_data p))) \<and>
     (bp_format p = 0 \<longrightarrow> 0 \<notin> set (bp_data p))"

lemma own_param_value:
  assumes "params_ok pw" "param_wf p"
  shows "fst (own_param pw p) = 0 \<and> param_value (snd (own_param pw p)) = param_value p"
proof -
  have "takeWhile (\<lambda>b. b \<noteq> 0) d = d" if "0 \<notin> set d" for d :: bytes
    using that by (auto simp: takeWhile_eq_all_conv)
  then show ?thesis using assms by (auto simp: own_param_def params_ok_def param_wf_def param_value_def Let_def)
qed

lemma own_params_value:
  assumes "params_ok pw"
  shows "\<forall>p \<in> set ps. param_wf p \<Longrightarrow> \<exists>qs. own_params pw ps = Some qs \<and> map param_value qs = map param_value ps"
proof (induction ps)
  case (Cons p ps)
  from Cons obtain qs where "own_params pw ps = Some qs" "map param_value qs = map param_value ps" by auto
  moreover from own_param_value [OF assms, of p] Cons.prems have
    "fst (own_param pw p) = 0 \<and> param_value (snd (own_param pw p)) = param_value p" by simp
  ultimately show ?case by (auto simp: case_prod_beta)
qed simp

text \<open>C29. A Bind that arrives while a request is in flight is queued behind the others, and the
  message that is made of it when its turn comes is the Bind that came: the same statement, portal and
  result formats, and parameter by parameter the same value (NULL, or format and bytes). It holds for
  every Bind whose parameters fit the library's limit and whose text values hold no NUL byte: the queue
  copies a text value as a C string, so a NUL byte would cut it.\<close>

theorem queued_bind_round_trip:
  assumes "params_ok pw" and "feq_inv q" and "q_count q < 32"
    and "b_n_params b = length (b_params b)" and "length (b_params b) \<le> max_bind_params pw"
    and "\<forall>p \<in> set (b_params b). param_wf p"
    and "length (b_statement b) < max_stmt_name pw" and "length (b_portal b) < max_portal_name pw"
    and "length (b_result_formats b) \<le> max_bind_params pw"
    and "feq_push_bind pw q b m = (rc, q', m')"
  shows "rc = OK \<and> (\<exists>it. feq_items q' = feq_items q @ [it] \<and> it_kind it = FEQ_BIND \<and>
    b_statement (bind_of_item pw it) = b_statement b \<and> b_portal (bind_of_item pw it) = b_portal b \<and>
    b_n_params (bind_of_item pw it) = b_n_params b \<and>
    map param_value (b_params (bind_of_item pw it)) = map param_value (b_params b) \<and>
    b_result_formats (bind_of_item pw it) = b_result_formats b)"
proof -
  from own_params_value [OF assms(1,6)] obtain qs where
    qs: "own_params pw (b_params b) = Some qs" "map param_value qs = map param_value (b_params b)" by blast
  let ?it = "feq_zero\<lparr>it_kind := FEQ_BIND, it_bind_stmt := b_statement b, it_bind_portal := b_portal b,
    it_n_params := length (b_params b), it_params := qs, it_result_formats := b_result_formats b\<rparr>"
  have "feq_push q ?it m = (rc, q', m')"
    using assms(4,5,7-10) qs(1) by (simp add: feq_push_bind_def Let_def cstr_simps)
  with feq_push_items [OF assms(2,3), of ?it m] have "rc = OK" "feq_items q' = feq_items q @ [?it]" by auto
  with qs(2) assms(4,7,8) show ?thesis by (intro conjI exI [of _ ?it]) (simp_all add: bind_of_item_def cstr_simps)
qed

definition demo_queued_bind :: pq_bind where
  "demo_queued_bind = \<lparr>b_portal = '''', b_statement = ''s1'', b_n_params = 3,
     b_params = [\<lparr>bp_format = 0, bp_length = 2, bp_data = [52, 50]\<rparr>, \<lparr>bp_format = 0, bp_length = - 1, bp_data = []\<rparr>,
       \<lparr>bp_format = 1, bp_length = 2, bp_data = [0, 7]\<rparr>],
     b_formats = [0, 0, 1], b_result_formats = [0]\<rparr>"

lemma queued_bind_round_trip_witness:
  "\<exists>it. feq_items (fst (snd (feq_push_bind ref_pw feq_empty demo_queued_bind metrics_zero))) = [it] \<and>
     map param_value (b_params (bind_of_item ref_pw it)) = [Some (0, [52, 50]), None, Some (1, [0, 7])]"
proof -
  obtain rc q' m' where r: "feq_push_bind ref_pw feq_empty demo_queued_bind metrics_zero = (rc, q', m')"
    by (metis prod_cases3)
  have "rc = OK \<and> (\<exists>it. feq_items q' = feq_items feq_empty @ [it] \<and> it_kind it = FEQ_BIND \<and>
    b_statement (bind_of_item ref_pw it) = b_statement demo_queued_bind \<and>
    b_portal (bind_of_item ref_pw it) = b_portal demo_queued_bind \<and>
    b_n_params (bind_of_item ref_pw it) = b_n_params demo_queued_bind \<and>
    map param_value (b_params (bind_of_item ref_pw it)) = map param_value (b_params demo_queued_bind) \<and>
    b_result_formats (bind_of_item ref_pw it) = b_result_formats demo_queued_bind)"
    by (rule queued_bind_round_trip [OF ref_params_ok conjunct1 [OF feq_empty_items] _ _ _ _ _ _ _ r])
      (simp_all add: feq_empty_def demo_queued_bind_def ref_pw_sel param_wf_def)
  with r show ?thesis using feq_empty_items by (auto simp: demo_queued_bind_def param_value_def)
qed

text \<open>C30. The request queue of a frontend is a first-in first-out queue of 32 requests: whatever is
  pushed, popped and put back at the front, in any order and through any number of turns of the ring, the
  requests taken from it are those that a list of at most 32 requests gives.\<close>

theorem request_queue_refines_list:
  "fst (queue_run (\<lambda>q x. fst (snd (feq_push q x metrics_zero))) feq_pop feq_push_front ops feq_empty) =
   fst (queue_run (list_push 32 (\<lambda>_ _. True)) list_pop (list_requeue 32) ops [])"
  using feq.requeue.run_refines [of feq_empty ops] feq_empty_items by simp

text \<open>A Bind that is taken off the queue and finds no free backend connection is put back at the
  front: the queue then holds exactly what it held before, so that parking loses, duplicates and reorders
  nothing.\<close>

theorem requeue_restores_queue:
  assumes "feq_inv q" and "feq_pop q = Some (it, q')"
  shows "feq_inv (feq_push_front q' it) \<and> feq_items (feq_push_front q' it) = feq_items q"
  using feq.requeue_restores [OF assms] .

lemma requeue_restores_queue_witness:
  "feq_items (feq_push_front (snd (the (feq_pop (fst (snd (feq_push feq_empty feq_zero metrics_zero))))))
     feq_zero) = [feq_zero]"
proof -
  let ?q = "fst (snd (feq_push feq_empty feq_zero metrics_zero))"
  have q: "feq_inv ?q" "feq_items ?q = [feq_zero]"
    using feq_push_items [of feq_empty feq_zero metrics_zero] feq_empty_items by (auto simp: feq_empty_def)
  then obtain q' where q': "feq_pop ?q = Some (feq_zero, q')" using feq.pop_Cons by blast
  from requeue_restores_queue [OF q(1) q'] q(2) q' show ?thesis by simp
qed

text \<open>C31. The ring of waiting frontends serves them first come, first served, holds each at most once
  and forgets one that disconnects: any run of joining, leaving at the head and removal behaves like the
  same run on a duplicate-free list.\<close>

theorem wait_ring_refines_list:
  "fst (queue_run (\<lambda>r s. fst (snd (waiters_push True r s metrics_zero))) waiters_pop
      (\<lambda>r s. fst (waiters_remove r s metrics_zero)) ops wait_empty) =
    fst (queue_run (list_push 256 (\<lambda>xs x. x \<notin> set xs)) list_pop (\<lambda>xs s. filter (\<lambda>x. x \<noteq> s) xs) ops []) \<and>
   distinct (waiting (snd (queue_run (\<lambda>r s. fst (snd (waiters_push True r s metrics_zero))) waiters_pop
      (\<lambda>r s. fst (waiters_remove r s metrics_zero)) ops wait_empty)))"
  using waiters.run_refines [of wait_empty ops] wait_empty_items by (metis wait_inv_distinct)

text \<open>A frontend can always be parked: the ring has as many places as there are connection slots and
  holds no slot twice, so with fair scheduling the push of a valid slot never fails.\<close>

theorem park_never_refused:
  assumes "wait_inv r" and "set (waiting r) \<subseteq> {..<256}" and "s < 256"
    and "waiters_push True r s m = (rc, r', m')"
  shows "rc = OK \<and> s \<in> set (waiting r') \<and> wait_inv r' \<and> set (waiting r') \<subseteq> {..<256}"
proof -
  have "r_count r < 256" if "s \<notin> set (waiting r)"
  proof -
    have "card (set (waiting r)) < card {..<256::nat}"
      using assms(2,3) that by (intro psubset_card_mono) auto
    with assms(1) show ?thesis by (simp add: wait_inv_def distinct_card)
  qed
  moreover have "wait_inv r'" "waiting r' = list_push 256 (\<lambda>xs x. x \<notin> set xs) (waiting r) s"
    using waiters_push_items [OF assms(1), of s m] assms(4) by simp_all
  ultimately show ?thesis using assms by (auto simp: list_push_def waiters_push_def split: if_splits)
qed

lemma park_never_refused_witness:
  "fst (waiters_push True wait_empty 7 metrics_zero) = OK \<and>
   7 \<in> set (waiting (fst (snd (waiters_push True wait_empty 7 metrics_zero))))"
proof -
  obtain rc r' m' where r: "waiters_push True wait_empty 7 metrics_zero = (rc, r', m')" by (metis prod_cases3)
  have "rc = OK \<and> 7 \<in> set (waiting r') \<and> wait_inv r' \<and> set (waiting r') \<subseteq> {..<256}"
    by (rule park_never_refused [OF _ _ _ r]) (simp_all add: wait_empty_items)
  with r show ?thesis by simp
qed

text \<open>The operation and the slot that are packed into the user data of a ring entry are the ones
  unpacked from its completion.\<close>

theorem user_data_round_trip: "unpack_ud (pack_ud opc slot) = (opc, slot)"
proof -
  have m: "(0xFFFFFFFF :: 64 word) = mask 32" by (simp add: mask_eq_exp_minus_1)
  have "\<not> bit slot (32 + n)" for n :: nat using bit_imp_le_length [of slot "32 + n"] by auto
  then show ?thesis unfolding unpack_ud_def pack_ud_def m
    by (auto intro!: bit_word_eqI simp: bit_simps simp del: mask_numeral)
qed

end
