(* ===== verification/Config.thy ===== *)
theory Config
  imports Metrics
begin

text \<open>
  The configuration of the proxy: its record and defaults (\<open>pqproxy_config_defaults\<close> in
  src/iouring_loop.c), the YAML loader (src/config_yaml.c) and the command line (src/main.c).
  libyaml is a parameter. Memory is not exhausted; the limit of 32 strings that a bundle owns is
  kept. An error message is the text before it is cut to the caller's buffer.
\<close>

section \<open>The configuration\<close>

record config =
  listen_host :: "string option"
  listen_port :: nat
  cert_file :: "string option"
  key_file :: "string option"
  ca_file :: "string option"
  plain_mode :: bool
  require_mtls :: bool
  cfg_identity_slot :: int
  identity_param_name :: "string option"
  quiet :: bool
  msg_zerocopy :: bool
  backend_host :: "string option"
  backend_port :: nat
  backend_user :: "string option"
  backend_password :: "string option"
  backend_database :: "string option"
  backend_use_group_as_user :: bool
  backend_groups :: "string option"
  backend_lazy_group :: bool
  backend_pool_size :: nat
  prefer_tls12_ktls :: bool
  maintain_interval_ms :: int
  metrics_log_interval_ms :: int
  metrics_http_host :: "string option"
  metrics_http_port :: nat
  fair_schedule :: bool
  reject_simple_query :: bool
  log_json :: bool

definition config_defaults :: config where
  "config_defaults = \<lparr>listen_host = Some ''0.0.0.0'', listen_port = 6432, cert_file = None, key_file = None,
     ca_file = None, plain_mode = False, require_mtls = True, cfg_identity_slot = 0, identity_param_name = None,
     quiet = False, msg_zerocopy = False, backend_host = None, backend_port = 5432, backend_user = None,
     backend_password = None, backend_database = None, backend_use_group_as_user = False, backend_groups = None,
     backend_lazy_group = True, backend_pool_size = 4, prefer_tls12_ktls = True, maintain_interval_ms = 5000,
     metrics_log_interval_ms = 30000, metrics_http_host = Some ''127.0.0.1'', metrics_http_port = 9108,
     fair_schedule = True, reject_simple_query = True, log_json = False\<rparr>"

text \<open>A bundle: the configuration and the number of strings it owns.\<close>

record cfg_bundle =
  bu_cfg :: config
  bu_owned :: nat

definition bundle_init :: cfg_bundle where
  "bundle_init = \<lparr>bu_cfg = config_defaults, bu_owned = 0\<rparr>"

definition bundle_strdup :: "cfg_bundle \<Rightarrow> string \<Rightarrow> (string \<times> cfg_bundle) option" where
  "bundle_strdup b s = (if bu_owned b \<ge> 32 then None else Some (s, b\<lparr>bu_owned := bu_owned b + 1\<rparr>))"

section \<open>Scalars\<close>

definition parse_bool :: "string \<Rightarrow> bool option" where
  "parse_bool s =
     (if s \<in> {''1'', ''true'', ''True'', ''yes'', ''on''} then Some True
      else if s \<in> {''0'', ''false'', ''False'', ''no'', ''off''} then Some False else None)"

definition parse_u16 :: "string \<Rightarrow> nat option" where
  "parse_u16 s =
     (case strtol10 s of None \<Rightarrow> None | Some v \<Rightarrow> if v < 0 \<or> v > 65535 then None else Some (nat v))"

definition parse_int :: "string \<Rightarrow> int option" where
  "parse_int s = map_option to_int32 (strtol10 s)"

definition parse_size :: "string \<Rightarrow> nat option" where
  "parse_size s = (case strtol10 s of None \<Rightarrow> None | Some v \<Rightarrow> if v < 0 then None else Some (nat v))"

text \<open>The port of a HOST:PORT pair, as \<open>(unsigned)atoi\<close> and its range check.\<close>

definition port_of :: "string \<Rightarrow> nat option" where
  "port_of s = (let p = nat (atoi s mod 4294967296) in if p = 0 \<or> p > 65535 then None else Some p)"

text \<open>The host, the port where one is given, and the bundle.\<close>

definition set_hostport :: "cfg_bundle \<Rightarrow> string \<Rightarrow> (string \<times> nat option \<times> cfg_bundle) option" where
  "set_hostport b s =
     (case strrchr_pos CHR '':'' s of
        None \<Rightarrow> map_option (\<lambda>(h, b'). (h, None, b')) (bundle_strdup b s)
      | Some k \<Rightarrow>
          if k = 0 then map_option (\<lambda>(h, b'). (h, None, b')) (bundle_strdup b s)
          else if k \<ge> 256 then None
          else
            (case port_of (drop (Suc k) s) of
               None \<Rightarrow> None
             | Some p \<Rightarrow> map_option (\<lambda>(h, b'). (h, Some p, b')) (bundle_strdup b (take k s))))"

section \<open>Applying a scalar\<close>

type_synonym 'a outcome = "string + 'a"

definition with_string :: "cfg_bundle \<Rightarrow> string \<Rightarrow> (string option \<Rightarrow> config \<Rightarrow> config) \<Rightarrow> cfg_bundle outcome" where
  "with_string b val f =
     (case bundle_strdup b val of None \<Rightarrow> Inl ''oom'' | Some (s, b') \<Rightarrow> Inr (b'\<lparr>bu_cfg := f (Some s) (bu_cfg b')\<rparr>))"

definition with_bool :: "cfg_bundle \<Rightarrow> string \<Rightarrow> (bool \<Rightarrow> config \<Rightarrow> config) \<Rightarrow> cfg_bundle outcome" where
  "with_bool b val f =
     (case parse_bool val of None \<Rightarrow> Inl ''invalid bool'' | Some v \<Rightarrow> Inr (b\<lparr>bu_cfg := f v (bu_cfg b)\<rparr>))"

definition with_port :: "cfg_bundle \<Rightarrow> string \<Rightarrow> (nat \<Rightarrow> bool) \<Rightarrow> (nat \<Rightarrow> config \<Rightarrow> config) \<Rightarrow> cfg_bundle outcome" where
  "with_port b val ok f =
     (case parse_u16 val of
        None \<Rightarrow> Inl ''invalid port''
      | Some v \<Rightarrow> if ok v then Inr (b\<lparr>bu_cfg := f v (bu_cfg b)\<rparr>) else Inl ''invalid port'')"

definition with_int :: "cfg_bundle \<Rightarrow> string \<Rightarrow> string \<Rightarrow> (int \<Rightarrow> bool) \<Rightarrow> (int \<Rightarrow> config \<Rightarrow> config) \<Rightarrow> cfg_bundle outcome" where
  "with_int b val msg ok f =
     (case parse_int val of
        None \<Rightarrow> Inl msg
      | Some v \<Rightarrow> if ok v then Inr (b\<lparr>bu_cfg := f v (bu_cfg b)\<rparr>) else Inl msg)"

definition with_hostport :: "cfg_bundle \<Rightarrow> string \<Rightarrow> (string option \<Rightarrow> config \<Rightarrow> config) \<Rightarrow> (nat \<Rightarrow> config \<Rightarrow> config) \<Rightarrow>
    cfg_bundle outcome" where
  "with_hostport b val fh fp =
     (case set_hostport b val of
        None \<Rightarrow> Inl ''invalid HOST:PORT''
      | Some (h, p, b') \<Rightarrow>
          Inr (b'\<lparr>bu_cfg := (case p of None \<Rightarrow> fh (Some h) (bu_cfg b') | Some q \<Rightarrow> fp q (fh (Some h) (bu_cfg b')))\<rparr>))"

text \<open>The keys that name one setting, and what they do with a value, in the order of the code.\<close>

type_synonym scalar_rule = "string list \<times> (cfg_bundle \<Rightarrow> string \<Rightarrow> cfg_bundle outcome)"

definition frontend_rules :: "scalar_rule list" where
  "frontend_rules =
    [([''listen.host'', ''listen_host''],
        \<lambda>b val. with_string b val (\<lambda>s. listen_host_update (\<lambda>_. s))),
     ([''listen.port'', ''listen_port''],
        \<lambda>b val. with_port b val (\<lambda>p. p \<noteq> 0) (\<lambda>p. listen_port_update (\<lambda>_. p))),
     ([''listen''],
        \<lambda>b val. with_hostport b val (\<lambda>s. listen_host_update (\<lambda>_. s)) (\<lambda>p. listen_port_update (\<lambda>_. p))),
     ([''tls.plain'', ''plain''],
        \<lambda>b val. with_bool b val (\<lambda>v c. if v then c\<lparr>plain_mode := v, require_mtls := False\<rparr> else c\<lparr>plain_mode := v\<rparr>)),
     ([''tls.require_mtls'', ''require_mtls''],
        \<lambda>b val. with_bool b val (\<lambda>v. require_mtls_update (\<lambda>_. v))),
     ([''tls.cert'', ''cert''],
        \<lambda>b val. with_string b val (\<lambda>s. cert_file_update (\<lambda>_. s))),
     ([''tls.key'', ''key''],
        \<lambda>b val. with_string b val (\<lambda>s. key_file_update (\<lambda>_. s))),
     ([''tls.ca'', ''ca''],
        \<lambda>b val. with_string b val (\<lambda>s. ca_file_update (\<lambda>_. s))),
     ([''tls.ktls_prefer'', ''ktls_prefer''],
        \<lambda>b val. with_bool b val (\<lambda>v. prefer_tls12_ktls_update (\<lambda>_. v))),
     ([''identity.slot'', ''identity_slot''],
        \<lambda>b val. with_int b val ''invalid slot'' (\<lambda>v. - 1 \<le> v \<and> v \<le> 32767) (\<lambda>v. cfg_identity_slot_update (\<lambda>_. to_int16 v))),
     ([''identity.param'', ''identity.param_name'', ''identity_param''],
        \<lambda>b val. with_string b val (\<lambda>s. identity_param_name_update (\<lambda>_. s))),
     ([''msg_zerocopy'', ''zerocopy''],
        \<lambda>b val. with_bool b val (\<lambda>v. msg_zerocopy_update (\<lambda>_. v)))]"

definition backend_rules :: "scalar_rule list" where
  "backend_rules =
    [([''backend.host'', ''backend_host''],
        \<lambda>b val. with_string b val (\<lambda>s. backend_host_update (\<lambda>_. s))),
     ([''backend.port'', ''backend_port''],
        \<lambda>b val. with_port b val (\<lambda>_. True) (\<lambda>p. backend_port_update (\<lambda>_. p))),
     ([''backend''],
        \<lambda>b val. with_hostport b val (\<lambda>s. backend_host_update (\<lambda>_. s)) (\<lambda>p. backend_port_update (\<lambda>_. p))),
     ([''backend.user'', ''backend_user''],
        \<lambda>b val. with_string b val (\<lambda>s. backend_user_update (\<lambda>_. s))),
     ([''backend.password'', ''backend_password''],
        \<lambda>b val. with_string b val (\<lambda>s. backend_password_update (\<lambda>_. s))),
     ([''backend.database'', ''backend_database''],
        \<lambda>b val. with_string b val (\<lambda>s. backend_database_update (\<lambda>_. s))),
     ([''backend.pool_size'', ''backend_pool''],
        \<lambda>b val. (case parse_size val of None \<Rightarrow> Inl ''invalid size'' | Some n \<Rightarrow> Inr (b\<lparr>bu_cfg := (bu_cfg b)\<lparr>backend_pool_size := n\<rparr>\<rparr>))),
     ([''backend.group_login'', ''backend_group_login''],
        \<lambda>b val. with_bool b val (\<lambda>v. backend_use_group_as_user_update (\<lambda>_. v))),
     ([''backend.groups'', ''backend_groups''],
        \<lambda>b val. with_string b val (\<lambda>s. backend_groups_update (\<lambda>_. s))),
     ([''backend.lazy_group'', ''lazy_group''],
        \<lambda>b val. with_bool b val (\<lambda>v. backend_lazy_group_update (\<lambda>_. v)))]"

definition service_rules :: "scalar_rule list" where
  "service_rules =
    [([''metrics.log_ms'', ''metrics_ms''],
        \<lambda>b val. with_int b val ''invalid ms'' (\<lambda>v. 0 \<le> v) (\<lambda>v. metrics_log_interval_ms_update (\<lambda>_. v))),
     ([''metrics.http_host''],
        \<lambda>b val. with_string b val (\<lambda>s. metrics_http_host_update (\<lambda>_. s))),
     ([''metrics.http_port''],
        \<lambda>b val. with_port b val (\<lambda>_. True) (\<lambda>p. metrics_http_port_update (\<lambda>_. p))),
     ([''metrics.http'', ''metrics_http''],
        \<lambda>b val. (if val = ''off'' \<or> val = ''false'' \<or> val = ''0'' then Inr (b\<lparr>bu_cfg := (bu_cfg b)\<lparr>metrics_http_port := 0\<rparr>\<rparr>) else with_hostport b val (\<lambda>s. metrics_http_host_update (\<lambda>_. s)) (\<lambda>p. metrics_http_port_update (\<lambda>_. p)))),
     ([''maintain_ms''],
        \<lambda>b val. with_int b val ''invalid ms'' (\<lambda>v. 0 \<le> v) (\<lambda>v. maintain_interval_ms_update (\<lambda>_. v))),
     ([''quiet''],
        \<lambda>b val. with_bool b val (\<lambda>v. quiet_update (\<lambda>_. v))),
     ([''fair_schedule'', ''fair''],
        \<lambda>b val. with_bool b val (\<lambda>v. fair_schedule_update (\<lambda>_. v))),
     ([''reject_simple_query'', ''extended_only''],
        \<lambda>b val. with_bool b val (\<lambda>v. reject_simple_query_update (\<lambda>_. v))),
     ([''allow_simple_query''],
        \<lambda>b val. with_bool b val (\<lambda>v. reject_simple_query_update (\<lambda>_. \<not> v))),
     ([''log_json'', ''structured_log''],
        \<lambda>b val. with_bool b val (\<lambda>v. log_json_update (\<lambda>_. v)))]"

definition scalar_rules :: "scalar_rule list" where
  "scalar_rules = frontend_rules @ backend_rules @ service_rules"

lemmas scalar_rules_simps = scalar_rules_def frontend_rules_def backend_rules_def service_rules_def append_Cons append_Nil

fun apply_rules :: "scalar_rule list \<Rightarrow> cfg_bundle \<Rightarrow> string \<Rightarrow>
    string \<Rightarrow> cfg_bundle outcome" where
  "apply_rules [] b key val = Inr b"
| "apply_rules ((keys, f) # rules) b key val = (if key \<in> set keys then f b val else apply_rules rules b key val)"

text \<open>An unknown key is ignored.\<close>

definition apply_scalar :: "cfg_bundle \<Rightarrow> string \<Rightarrow> string \<Rightarrow> cfg_bundle outcome" where
  "apply_scalar = apply_rules scalar_rules"

section \<open>The YAML loader\<close>

text \<open>
  libyaml: creating a context, feeding it the text (the number of bytes taken), its events until
  none is left (\<open>Some msg\<close> for an error event), the scalar at a path, the number of children
  at a path. \<open>y_n_events\<close> is the number of events a context still yields.
\<close>

record 'y yaml =
  y_create :: "'y option"
  y_feed :: "'y \<Rightarrow> string \<Rightarrow> nat \<times> 'y"
  y_next_event :: "'y \<Rightarrow> (string option \<times> 'y) option"
  y_n_events :: "'y \<Rightarrow> nat"
  y_lookup :: "'y \<Rightarrow> string \<Rightarrow> string option"
  y_children :: "'y \<Rightarrow> string \<Rightarrow> nat"

definition lookup_scalar :: "'y yaml \<Rightarrow> 'y \<Rightarrow> string \<Rightarrow> string option" where
  "lookup_scalar ya y path = (case y_lookup ya y path of None \<Rightarrow> None | Some v \<Rightarrow> if v = [] then None else Some v)"

text \<open>The comma-separated groups of a sequence, in a buffer of 512 bytes; \<open>None\<close> when they do not fit.\<close>

primrec join_sequence :: "'y yaml \<Rightarrow> 'y \<Rightarrow> nat list \<Rightarrow> string \<Rightarrow> string option" where
  "join_sequence ya y [] buf = Some buf"
| "join_sequence ya y (i # is) buf =
     (case y_lookup ya y (''backend.groups.'' @ show_nat i) of
        None \<Rightarrow> join_sequence ya y is buf
      | Some val \<Rightarrow>
          if val = [] then join_sequence ya y is buf
          else if buf \<noteq> [] \<and> length buf + 1 \<ge> 512 then None
          else
            (let buf1 = (if buf \<noteq> [] then buf @ '','' else buf) in
             if length buf1 + length val \<ge> 512 then None else join_sequence ya y is (buf1 @ val)))"

definition join_groups_sequence :: "'y yaml \<Rightarrow> 'y \<Rightarrow> cfg_bundle \<Rightarrow> cfg_bundle option" where
  "join_groups_sequence ya y b =
     (let n = y_children ya y ''backend.groups'' in
      if n = 0 then Some b
      else
        (case join_sequence ya y [0..<n] [] of
           None \<Rightarrow> None
         | Some buf \<Rightarrow>
             if buf = [] then Some b
             else
               (case bundle_strdup b buf of
                  None \<Rightarrow> None
                | Some (s, b') \<Rightarrow> Some (b'\<lparr>bu_cfg := (bu_cfg b')\<lparr>backend_groups := Some s\<rparr>\<rparr>))))"

definition g_paths :: "string list" where
  "g_paths =
    [''listen'', ''listen.host'', ''listen.port'', ''listen_host'', ''listen_port'',
     ''tls.plain'', ''tls.require_mtls'', ''tls.cert'', ''tls.key'', ''tls.ca'', ''tls.ktls_prefer'',
     ''plain'', ''require_mtls'', ''cert'', ''key'', ''ca'', ''ktls_prefer'',
     ''identity.slot'', ''identity.param'', ''identity.param_name'', ''identity_slot'', ''identity_param'',
     ''msg_zerocopy'', ''zerocopy'', ''backend'', ''backend.host'', ''backend.port'', ''backend.user'',
     ''backend.password'', ''backend.database'', ''backend.pool_size'', ''backend.group_login'',
     ''backend.groups'', ''backend.lazy_group'', ''backend_host'', ''backend_port'', ''backend_user'',
     ''backend_password'', ''backend_database'', ''backend_pool'', ''backend_group_login'', ''backend_groups'',
     ''lazy_group'', ''metrics.log_ms'', ''metrics.http_host'', ''metrics.http_port'', ''metrics.http'',
     ''metrics_ms'', ''metrics_http'', ''maintain_ms'', ''quiet'', ''fair_schedule'', ''fair'',
     ''reject_simple_query'', ''extended_only'', ''allow_simple_query'', ''log_json'', ''structured_log'']"

primrec drain_yaml :: "'y yaml \<Rightarrow> nat \<Rightarrow> 'y \<Rightarrow> 'y outcome" where
  "drain_yaml ya 0 y = Inr y"
| "drain_yaml ya (Suc k) y =
     (case y_next_event ya y of
        None \<Rightarrow> Inr y
      | Some (None, y') \<Rightarrow> drain_yaml ya k y'
      | Some (Some msg, y') \<Rightarrow> Inl (''yaml parse: '' @ (if msg \<noteq> [] then msg else ''error'')))"

primrec apply_paths :: "'y yaml \<Rightarrow> 'y \<Rightarrow> string list \<Rightarrow> cfg_bundle \<Rightarrow> cfg_bundle outcome" where
  "apply_paths ya y [] b = Inr b"
| "apply_paths ya y (path # paths) b =
     (case lookup_scalar ya y path of
        None \<Rightarrow> apply_paths ya y paths b
      | Some val \<Rightarrow>
          (case apply_scalar b path val of
             Inl msg \<Rightarrow> Inl (path @ '': '' @ msg)
           | Inr b' \<Rightarrow> apply_paths ya y paths b'))"

definition load_from_ctx :: "'y yaml \<Rightarrow> 'y \<Rightarrow> cfg_bundle \<Rightarrow> cfg_bundle outcome" where
  "load_from_ctx ya y0 b =
     (case drain_yaml ya (y_n_events ya y0) y0 of
        Inl msg \<Rightarrow> Inl msg
      | Inr y \<Rightarrow>
          (case apply_paths ya y g_paths b of
             Inl msg \<Rightarrow> Inl msg
           | Inr b1 \<Rightarrow>
               if backend_groups (bu_cfg b1) \<noteq> None then Inr b1
               else
                 (case join_groups_sequence ya y b1 of
                    None \<Rightarrow> Inl ''backend.groups sequence too long''
                  | Some b2 \<Rightarrow> Inr b2)))"

definition load_yaml_buf :: "'y yaml \<Rightarrow> string \<Rightarrow> cfg_bundle outcome" where
  "load_yaml_buf ya text =
     (case y_create ya of
        None \<Rightarrow> Inl ''yaml_create failed''
      | Some y \<Rightarrow>
          (let (n, y') = y_feed ya y text in
           if n = 0 \<and> text \<noteq> [] then Inl ''yaml_feed_input consumed 0'' else load_from_ctx ya y' bundle_init))"

text \<open>The file's contents, or \<open>None\<close> when it cannot be opened; an empty file gives the defaults.\<close>

definition load_yaml :: "'y yaml \<Rightarrow> string \<Rightarrow> string option \<Rightarrow> cfg_bundle outcome" where
  "load_yaml ya path contents =
     (case contents of
        None \<Rightarrow> Inl (''cannot open '' @ path)
      | Some text \<Rightarrow> if text = [] then Inr bundle_init else load_yaml_buf ya text)"

section \<open>The command line\<close>

datatype cli_stop = CliHelp | CliError string

definition parse_listen :: "string \<Rightarrow> cfg_bundle \<Rightarrow> cfg_bundle option" where
  "parse_listen s b =
     (case strrchr_pos CHR '':'' s of
        None \<Rightarrow> None
      | Some k \<Rightarrow>
          if k = 0 \<or> k \<ge> 256 then None
          else
            (case port_of (drop (Suc k) s) of
               None \<Rightarrow> None
             | Some p \<Rightarrow>
                 Some \<lparr>bu_cfg = (bu_cfg b)\<lparr>listen_host := Some (take k s), listen_port := p\<rparr>,
                       bu_owned = (if bu_owned b < 32 then bu_owned b + 1 else bu_owned b)\<rparr>))"

text \<open>The options without a value.\<close>

definition cli_flags :: "(string \<times> (config \<Rightarrow> config)) list" where
  "cli_flags =
    [(''--plain'', (\<lambda>c. c\<lparr>plain_mode := True, require_mtls := False\<rparr>)),
     (''--no-mtls'', (require_mtls_update (\<lambda>_. False))),
     (''--quiet'', (quiet_update (\<lambda>_. True))),
     (''--fair'', (fair_schedule_update (\<lambda>_. True))),
     (''--no-fair'', (fair_schedule_update (\<lambda>_. False))),
     (''--reject-simple-query'', (reject_simple_query_update (\<lambda>_. True))),
     (''--allow-simple-query'', (reject_simple_query_update (\<lambda>_. False))),
     (''--log-json'', (log_json_update (\<lambda>_. True))),
     (''--msg-zerocopy'', (msg_zerocopy_update (\<lambda>_. True))),
     (''--backend-group-login'', (backend_use_group_as_user_update (\<lambda>_. True))),
     (''--no-lazy-group'', (backend_lazy_group_update (\<lambda>_. False))),
     (''--ktls-prefer'', (prefer_tls12_ktls_update (\<lambda>_. True))),
     (''--no-ktls-prefer'', (prefer_tls12_ktls_update (\<lambda>_. False))),
     (''--no-metrics-http'', (metrics_http_port_update (\<lambda>_. 0)))]"

definition cli_flag :: "string \<Rightarrow> (config \<Rightarrow> config) option" where
  "cli_flag = map_of cli_flags"

definition cli_backend :: "string \<Rightarrow> config \<Rightarrow> config" where
  "cli_backend s c =
     (case strrchr_pos CHR '':'' s of
        Some k \<Rightarrow> c\<lparr>backend_host := Some (take k s), backend_port := to_uint16 (atoi (drop (Suc k) s))\<rparr>
      | None \<Rightarrow> c\<lparr>backend_host := Some s, backend_port := 5432\<rparr>)"

definition cli_metrics_http :: "string \<Rightarrow> config \<Rightarrow> config" where
  "cli_metrics_http s c =
     (case strrchr_pos CHR '':'' s of
        Some (Suc k) \<Rightarrow>
          c\<lparr>metrics_http_host := Some (take (Suc k) s), metrics_http_port := to_uint16 (atoi (drop (Suc (Suc k)) s))\<rparr>
      | _ \<Rightarrow>
          (let p = atoi s in
           if 0 < p \<and> p \<le> 65535 \<and> s \<noteq> [] \<and> is_digit (hd s) then c\<lparr>metrics_http_port := nat p\<rparr>
           else c\<lparr>metrics_http_host := Some s\<rparr>))"

text \<open>The options with a value: a change of the bundle, or the message of the error.\<close>

definition set_opt :: "(config \<Rightarrow> config) \<Rightarrow> cfg_bundle \<Rightarrow> cfg_bundle outcome" where
  "set_opt f b = Inr (b\<lparr>bu_cfg := f (bu_cfg b)\<rparr>)"

definition cli_values :: "(string \<times> (string \<Rightarrow> cfg_bundle \<Rightarrow> cfg_bundle outcome)) list" where
  "cli_values =
    [(''--listen'', (\<lambda>v b. case parse_listen v b of None \<Rightarrow> Inl ''invalid --listen'' | Some b' \<Rightarrow> Inr b')),
     (''--cert'', (\<lambda>v. set_opt (cert_file_update (\<lambda>_. Some v)))),
     (''--key'', (\<lambda>v. set_opt (key_file_update (\<lambda>_. Some v)))),
     (''--ca'', (\<lambda>v. set_opt (ca_file_update (\<lambda>_. Some v)))),
     (''--identity-slot'', (\<lambda>v. set_opt (cfg_identity_slot_update (\<lambda>_. to_int16 (atoi v))))),
     (''--identity-param'', (\<lambda>v. set_opt (identity_param_name_update (\<lambda>_. Some v)))),
     (''--backend'', (\<lambda>v. set_opt (cli_backend v))),
     (''--backend-user'', (\<lambda>v. set_opt (backend_user_update (\<lambda>_. Some v)))),
     (''--backend-password'', (\<lambda>v. set_opt (backend_password_update (\<lambda>_. Some v)))),
     (''--backend-database'', (\<lambda>v. set_opt (backend_database_update (\<lambda>_. Some v)))),
     (''--backend-pool'', (\<lambda>v. set_opt (backend_pool_size_update (\<lambda>_. nat (atoi v mod 18446744073709551616))))),
     (''--backend-groups'', (\<lambda>v. set_opt (backend_groups_update (\<lambda>_. Some v)))),
     (''--maintain-ms'', (\<lambda>v. set_opt (maintain_interval_ms_update (\<lambda>_. atoi v)))),
     (''--metrics-ms'', (\<lambda>v. set_opt (metrics_log_interval_ms_update (\<lambda>_. atoi v)))),
     (''--metrics-http-port'', (\<lambda>v b. let p = atoi v in if p < 0 \<or> p > 65535 then Inl ''invalid --metrics-http-port'' else set_opt (metrics_http_port_update (\<lambda>_. nat p)) b)),
     (''--metrics-http'', (\<lambda>v. set_opt (cli_metrics_http v)))]"

definition cli_value :: "string \<Rightarrow> (string \<Rightarrow> cfg_bundle \<Rightarrow> cfg_bundle outcome) option" where
  "cli_value = map_of cli_values"

text \<open>The second pass over the arguments: help, an error, or the bundle.\<close>

fun cli_loop :: "string list \<Rightarrow> cfg_bundle \<Rightarrow> cli_stop + cfg_bundle" where
  "cli_loop [] b = Inr b"
| "cli_loop (a # args) b =
     (if a = ''-h'' \<or> a = ''--help'' then Inl CliHelp
      else
        (case cli_flag a of
           Some f \<Rightarrow> cli_loop args (b\<lparr>bu_cfg := f (bu_cfg b)\<rparr>)
         | None \<Rightarrow>
             (case args of
                [] \<Rightarrow> Inl (CliError (''unknown argument: '' @ a))
              | v # args' \<Rightarrow>
                  if a = ''--config'' then cli_loop args' b
                  else
                    (case cli_value a of
                       None \<Rightarrow> Inl (CliError (''unknown argument: '' @ a))
                     | Some g \<Rightarrow>
                         (case g v b of Inl msg \<Rightarrow> Inl (CliError msg) | Inr b' \<Rightarrow> cli_loop args' b')))))"

text \<open>The first pass: the last \<open>--config\<close>.\<close>

fun find_config :: "string list \<Rightarrow> string option \<Rightarrow> string option" where
  "find_config (a # v # args) p =
     (if a = ''--config'' then find_config args (Some v) else find_config (v # args) p)"
| "find_config _ p = p"

definition run_config :: "config \<Rightarrow> cli_stop + config" where
  "run_config c =
     (if \<not> plain_mode c \<and> (cert_file c = None \<or> key_file c = None) then
        Inl (CliError ''pqproxy: provide --cert/--key or --plain (or set in --config)'')
      else if \<not> plain_mode c \<and> require_mtls c \<and> ca_file c = None then
        Inl (CliError ''pqproxy: mTLS requires --ca (or use --no-mtls)'')
      else Inr c)"

definition main_args :: "'y yaml \<Rightarrow> (string \<Rightarrow> string option) \<Rightarrow> string list \<Rightarrow> cli_stop + config" where
  "main_args ya files argv =
     (case (case find_config argv None of None \<Rightarrow> Inr bundle_init | Some path \<Rightarrow> load_yaml ya path (files path)) of
        Inl msg \<Rightarrow> Inl (CliError msg)
      | Inr b \<Rightarrow> (case cli_loop argv b of Inl e \<Rightarrow> Inl e | Inr b' \<Rightarrow> run_config (bu_cfg b')))"

end
