(* ===== verification/Config_Props.thy ===== *)
theory Config_Props
  imports Config
begin

text \<open>
  Properties of the configuration of \<open>Config\<close>: what a file or a command line can and cannot
  set.
\<close>

section \<open>Lemmas\<close>

text \<open>What each kind of setter leaves behind when it succeeds.\<close>

lemma with_simps:
  "with_string b val f = Inr b' \<longleftrightarrow> bu_owned b < 32 \<and> b' = \<lparr>bu_cfg = f (Some val) (bu_cfg b), bu_owned = bu_owned b + 1\<rparr>"
  "with_bool b val g = Inr b' \<longleftrightarrow> (\<exists>v. parse_bool val = Some v \<and> b' = b\<lparr>bu_cfg := g v (bu_cfg b)\<rparr>)"
  "with_port b val ok h = Inr b' \<longleftrightarrow> (\<exists>p. parse_u16 val = Some p \<and> ok p \<and> b' = b\<lparr>bu_cfg := h p (bu_cfg b)\<rparr>)"
  "with_int b val msg okv k = Inr b' \<longleftrightarrow> (\<exists>v. parse_int val = Some v \<and> okv v \<and> b' = b\<lparr>bu_cfg := k v (bu_cfg b)\<rparr>)"
  by (auto simp: with_string_def with_bool_def with_port_def with_int_def bundle_strdup_def split: option.splits)

lemma parse_u16_range: "parse_u16 s = Some p \<Longrightarrow> p < 65536"
  by (auto simp: parse_u16_def split: option.splits if_splits)

lemma port_of_range: "port_of s = Some p \<Longrightarrow> 0 < p \<and> p < 65536"
  by (auto simp: port_of_def Let_def split: if_splits)

lemma with_hostport_cases:
  assumes "with_hostport b val fh fp = Inr b'"
  shows "bu_owned b' = bu_owned b + 1 \<and> bu_owned b < 32 \<and>
    ((\<exists>h. bu_cfg b' = fh (Some h) (bu_cfg b)) \<or>
     (\<exists>h p. 0 < p \<and> p < 65536 \<and> bu_cfg b' = fp p (fh (Some h) (bu_cfg b))))"
proof -
  from assms obtain h p b1 where sh: "set_hostport b val = Some (h, p, b1)" and
    b': "b' = b1\<lparr>bu_cfg := (case p of None \<Rightarrow> fh (Some h) (bu_cfg b1) | Some q \<Rightarrow> fp q (fh (Some h) (bu_cfg b1)))\<rparr>"
    by (auto simp: with_hostport_def split: option.splits)
  from sh have "bu_owned b < 32 \<and> b1 = b\<lparr>bu_owned := bu_owned b + 1\<rparr> \<and> (\<forall>q. p = Some q \<longrightarrow> 0 < q \<and> q < 65536)"
    by (auto simp: set_hostport_def bundle_strdup_def dest: port_of_range split: option.splits if_splits)
  with b' show ?thesis by (cases p) auto
qed

text \<open>The ranges that the rest of the program relies on.\<close>

definition cfg_ok :: "config \<Rightarrow> bool" where
  "cfg_ok c \<longleftrightarrow> 0 < listen_port c \<and> listen_port c < 65536 \<and> backend_port c < 65536 \<and> metrics_http_port c < 65536 \<and>
     - 1 \<le> cfg_identity_slot c \<and> cfg_identity_slot c \<le> 32767 \<and> 0 \<le> maintain_interval_ms c \<and>
     0 \<le> metrics_log_interval_ms c"

lemma apply_rules_cases:
  "apply_rules rules b key val = Inr b' \<Longrightarrow> b' = b \<or> (\<exists>ks f. (ks, f) \<in> set rules \<and> key \<in> set ks \<and> f b val = Inr b')"
  by (induction rules b key val rule: apply_rules.induct) (auto split: if_splits)

text \<open>A property that every rule keeps is kept by applying a scalar.\<close>

lemma apply_scalar_cases:
  assumes "apply_scalar b key val = Inr b'"
    and "list_all (\<lambda>(ks, f). \<forall>b' . key \<in> set ks \<longrightarrow> f b val = Inr b' \<longrightarrow> P b') scalar_rules" and "P b"
  shows "P b'"
  using apply_rules_cases [of scalar_rules b key val b'] assms by (auto simp: apply_scalar_def list_all_iff)

lemma apply_scalar_ok:
  assumes "apply_scalar b key val = Inr b'" and "cfg_ok (bu_cfg b)"
  shows "cfg_ok (bu_cfg b')"
proof (rule apply_scalar_cases [where P = "\<lambda>b. cfg_ok (bu_cfg b)"])
  show "list_all (\<lambda>(ks, f). \<forall>b' . key \<in> set ks \<longrightarrow> f b val = Inr b' \<longrightarrow> cfg_ok (bu_cfg b')) scalar_rules"
    using assms(2) unfolding scalar_rules_simps list.pred_inject split
    by (intro conjI) (auto simp: with_simps cfg_ok_def dest!: parse_u16_range with_hostport_cases split: if_splits option.splits)
qed (use assms in auto)

text \<open>Keys other than those that name them leave the security settings alone.\<close>

definition tls_keys :: "string list" where
  "tls_keys = [''tls.plain'', ''plain'', ''tls.require_mtls'', ''require_mtls'']"

definition query_keys :: "string list" where
  "query_keys = [''reject_simple_query'', ''extended_only'', ''allow_simple_query'']"

definition keeps_security :: "string \<Rightarrow> config \<Rightarrow> config \<Rightarrow> bool" where
  "keeps_security key c c' \<longleftrightarrow>
     (key \<notin> set tls_keys \<longrightarrow> plain_mode c' = plain_mode c \<and> require_mtls c' = require_mtls c) \<and>
     (key \<notin> set query_keys \<longrightarrow> reject_simple_query c' = reject_simple_query c)"

lemma apply_scalar_secure:
  assumes "apply_scalar b key val = Inr b'"
  shows "keeps_security key (bu_cfg b) (bu_cfg b')"
proof (rule apply_scalar_cases [OF assms, where P = "\<lambda>b'. keeps_security key (bu_cfg b) (bu_cfg b')"])
  show "list_all (\<lambda>(ks, f). \<forall>b' . key \<in> set ks \<longrightarrow> f b val = Inr b' \<longrightarrow> keeps_security key (bu_cfg b) (bu_cfg b')) scalar_rules"
    unfolding scalar_rules_simps list.pred_inject split
    by (intro conjI) (auto simp: with_simps keeps_security_def tls_keys_def query_keys_def
        dest!: with_hostport_cases split: if_splits option.splits)
qed (simp add: keeps_security_def)

lemma apply_paths_keep:
  assumes "\<And>path val b b'. lookup_scalar ya y path = Some val \<Longrightarrow> apply_scalar b path val = Inr b' \<Longrightarrow> P b \<Longrightarrow> P b'"
  shows "apply_paths ya y paths b = Inr b' \<Longrightarrow> P b \<Longrightarrow> P b'"
proof (induction paths arbitrary: b)
  case (Cons path paths)
  show ?case
  proof (cases "lookup_scalar ya y path")
    case None
    with Cons show ?thesis by simp
  next
    case (Some val)
    with Cons.prems(1) obtain b1 where b1: "apply_scalar b path val = Inr b1" "apply_paths ya y paths b1 = Inr b'"
      by (auto split: sum.splits)
    with Cons.IH [OF b1(2)] assms [OF Some b1(1) Cons.prems(2)] show ?thesis by simp
  qed
qed simp

text \<open>What a property of the configuration needs to hold after loading a file.\<close>

lemma load_yaml_keep:
  assumes "load_yaml ya path contents = Inr b" and "P (bu_cfg bundle_init)"
    and scalar: "\<And>y path val b b'. lookup_scalar ya y path = Some val \<Longrightarrow> apply_scalar b path val = Inr b' \<Longrightarrow> P (bu_cfg b) \<Longrightarrow> P (bu_cfg b')"
    and groups: "\<And>c g. P c \<Longrightarrow> P (c\<lparr>backend_groups := g\<rparr>)"
  shows "P (bu_cfg b)"
proof -
  obtain ct where ct: "contents = Some ct" using assms(1) by (cases contents) (simp_all add: load_yaml_def)
  show ?thesis
  proof (cases "ct = []")
    case True
    with ct assms(1,2) show ?thesis by (simp add: load_yaml_def)
  next
    case False
    with ct assms(1) have "load_yaml_buf ya ct = Inr b" by (simp add: load_yaml_def)
    then obtain y where "load_from_ctx ya y bundle_init = Inr b"
      unfolding load_yaml_buf_def Let_def by (cases "y_create ya") (auto simp: case_prod_beta split: if_splits)
    then obtain y' b1 where a: "apply_paths ya y' g_paths bundle_init = Inr b1" and
      b: "b = b1 \<or> join_groups_sequence ya y' b1 = Some b"
      unfolding load_from_ctx_def by (fastforce split: sum.splits option.splits if_splits)
    have "P (bu_cfg b1)"
      using apply_paths_keep [where P = "\<lambda>b. P (bu_cfg b)", OF _ a assms(2)] scalar by blast
    then show ?thesis
      using b groups by (auto simp: join_groups_sequence_def bundle_strdup_def Let_def split: option.splits if_splits)
  qed
qed

lemma config_defaults_ok: "cfg_ok (bu_cfg bundle_init)"
  by (simp add: bundle_init_def config_defaults_def cfg_ok_def)

section \<open>Properties\<close>

text \<open>C37. A configuration file that loads leaves every number in its range: the listening port between 1 and
  65535, the other ports below 65536, the identity slot a non-negative 16-bit integer or -1, both
  intervals non-negative, whatever text the file holds; a value out of range is refused.\<close>

theorem load_yaml_in_range:
  assumes "load_yaml ya path contents = Inr b"
  shows "cfg_ok (bu_cfg b)"
  using assms config_defaults_ok by (rule load_yaml_keep [where P = cfg_ok]) (blast intro: apply_scalar_ok, simp add: cfg_ok_def)


text \<open>The command line: what a flag, and an option with a value, leaves of the security settings.\<close>

definition same_security :: "cfg_bundle \<Rightarrow> cfg_bundle \<Rightarrow> bool" where
  "same_security b b' \<longleftrightarrow> plain_mode (bu_cfg b') = plain_mode (bu_cfg b) \<and>
     require_mtls (bu_cfg b') = require_mtls (bu_cfg b) \<and> reject_simple_query (bu_cfg b') = reject_simple_query (bu_cfg b)"

lemma cli_flags_secure:
  "list_all (\<lambda>(a, f). a = ''--plain'' \<or> a = ''--no-mtls'' \<or> a = ''--allow-simple-query'' \<or>
     (\<forall>b. same_security b (b\<lparr>bu_cfg := f (bu_cfg b)\<rparr>) \<or> reject_simple_query (f (bu_cfg b)) \<and>
        plain_mode (f (bu_cfg b)) = plain_mode (bu_cfg b) \<and> require_mtls (f (bu_cfg b)) = require_mtls (bu_cfg b))) cli_flags"
  unfolding cli_flags_def list.pred_inject split same_security_def by (intro conjI) simp_all

lemma cli_flag_secure:
  assumes "cli_flag a = Some f" and "a \<noteq> ''--plain''" and "a \<noteq> ''--no-mtls''" and "a \<noteq> ''--allow-simple-query''"
  shows "same_security b (b\<lparr>bu_cfg := f (bu_cfg b)\<rparr>) \<or> reject_simple_query (f (bu_cfg b)) \<and>
    plain_mode (f (bu_cfg b)) = plain_mode (bu_cfg b) \<and> require_mtls (f (bu_cfg b)) = require_mtls (bu_cfg b)"
  using cli_flags_secure map_of_SomeD [OF assms(1) [unfolded cli_flag_def]] assms(2-4) unfolding list_all_iff by blast

lemma option_values_secure [simp]:
  "same_security b (b\<lparr>bu_cfg := cli_backend v (bu_cfg b)\<rparr>)"
  "same_security b (b\<lparr>bu_cfg := cli_metrics_http v (bu_cfg b)\<rparr>)"
  by (simp_all add: same_security_def cli_backend_def cli_metrics_http_def Let_def split: option.split nat.split)

lemma parse_listen_secure: "parse_listen v b = Some b' \<Longrightarrow> same_security b b'"
  by (auto simp: parse_listen_def same_security_def split: option.splits if_splits)

lemma cli_values_secure:
  "list_all (\<lambda>(a, g). \<forall>v b b'. g v b = Inr b' \<longrightarrow> same_security b b') cli_values"
  unfolding cli_values_def list.pred_inject split set_opt_def
  by (intro conjI allI impI)
    (auto simp: Let_def simp del: same_security_def dest: parse_listen_secure split: option.splits if_splits;
     simp add: same_security_def)+

lemma cli_value_secure: "cli_value a = Some g \<Longrightarrow> g v b = Inr b' \<Longrightarrow> same_security b b'"
  using cli_values_secure map_of_SomeD [of cli_values a g] by (auto simp: cli_value_def list_all_iff)

definition secure :: "config \<Rightarrow> bool" where
  "secure c \<longleftrightarrow> \<not> plain_mode c \<and> require_mtls c \<and> reject_simple_query c"

lemma cli_loop_secure:
  "cli_loop args b = Inr b' \<Longrightarrow> set args \<inter> {''--plain'', ''--no-mtls'', ''--allow-simple-query''} = {} \<Longrightarrow>
    secure (bu_cfg b) \<Longrightarrow> secure (bu_cfg b')"
proof (induction args b rule: cli_loop.induct)
  case (2 a args b)
  have nh: "\<not> (a = ''-h'' \<or> a = ''--help'')" using "2.prems"(1) by auto
  then have na: "a \<noteq> ''-h''" "a \<noteq> ''--help''" by simp_all
  show ?case
  proof (cases "cli_flag a")
    case (Some f)
    have "secure (f (bu_cfg b))" using cli_flag_secure [OF Some, of b] "2.prems"(2,3) by (auto simp: secure_def same_security_def)
    then show ?thesis using "2.IH"(3) [OF nh Some] "2.prems"(1,2) na Some by simp
  next
    case None
    then obtain v args' where args: "args = v # args'" using "2.prems"(1) na by (cases args) auto
    show ?thesis
    proof (cases "a = ''--config''")
      case True
      then show ?thesis using "2.IH"(1) [OF nh None args] "2.prems" na None args by simp
    next
      case False
      then obtain g b1 where g: "cli_value a = Some g" "g v b = Inr b1" "cli_loop args' b1 = Inr b'"
        using "2.prems"(1) na None args by (auto split: option.splits sum.splits)
      have "secure (bu_cfg b1)" using cli_value_secure [OF g(1,2)] "2.prems"(3) by (simp add: secure_def same_security_def)
      then show ?thesis using "2.IH"(2) [OF nh None args False g(1,2)] g(3) "2.prems"(2) args by simp
    qed
  qed
qed simp

text \<open>The proxy starts without client certificates, or forwards simple queries, only when asked to: on any
  command line that starts it without \<open>--plain\<close>, \<open>--no-mtls\<close>, \<open>--allow-simple-query\<close> and
  a configuration file, TLS and the client certificate are required, a certificate, a key and a CA are
  configured, and simple queries are rejected.\<close>

lemma main_args_secure:
  assumes "main_args ya files argv = Inr c"
    and "set argv \<inter> {''--plain'', ''--no-mtls'', ''--allow-simple-query''} = {}" and "find_config argv None = None"
  shows "secure c \<and> cert_file c \<noteq> None \<and> key_file c \<noteq> None \<and> ca_file c \<noteq> None"
proof -
  obtain b where b: "cli_loop argv bundle_init = Inr b" "run_config (bu_cfg b) = Inr c"
    using assms(1,3) by (cases "cli_loop argv bundle_init")
      (simp_all add: main_args_def)
  have "secure (bu_cfg bundle_init)" by (simp add: secure_def bundle_init_def config_defaults_def)
  with cli_loop_secure [OF b(1) assms(2)] b(2) show ?thesis
    by (auto simp: run_config_def secure_def split: if_splits)
qed

text \<open>A HOST:PORT value sets exactly that host and that port, whatever colons the host holds (an IPv6
  address in full), for a host of 1 to 255 characters and a port between 1 and 65535.\<close>

theorem hostport_round_trip:
  assumes "h \<noteq> []" and "length h < 256" and "0 < p" and "p < 65536" and "bu_owned b < 32"
  shows "set_hostport b (h @ CHR '':'' # show_nat p) = Some (h, Some p, b\<lparr>bu_owned := bu_owned b + 1\<rparr>)"
proof -
  have ds: "show_nat p \<noteq> []" "\<forall>c \<in> set (show_nat p). is_digit c" "length (show_nat p) \<le> 9"
    using show_nat_digits length_show_nat [of p 9] assms(4) by auto
  have "CHR '':'' \<notin> set (show_nat p)" using ds(2) by (auto simp: is_digit_def code_of_def)
  then have k: "strrchr_pos CHR '':'' (h @ CHR '':'' # show_nat p) = Some (length h)" by (rule strrchr_pos_app)
  have "port_of (show_nat p) = Some p"
    using atoi_digits [OF ds] assms(3,4) by (simp add: port_of_def dec_value_show_nat Let_def)
  with k assms(1,2,5) show ?thesis by (simp add: set_hostport_def bundle_strdup_def)
qed

section \<open>Witnesses\<close>

definition demo_yaml :: "unit yaml" where
  "demo_yaml = \<lparr>y_create = Some (), y_feed = (\<lambda>_ s. (length s, ())), y_next_event = (\<lambda>_. None), y_n_events = (\<lambda>_. 0),
     y_lookup = (\<lambda>_ k. if k = ''listen.port'' then Some ''7000'' else None), y_children = (\<lambda>_ _. 0)\<rparr>"

lemma demo_yaml_load: "\<exists>b. load_yaml demo_yaml ''pq.yaml'' (Some ''x'') = Inr b \<and> listen_port (bu_cfg b) = 7000"
proof -
  have p: "parse_u16 ''7000'' = Some 7000"
    by (simp add: parse_u16_def strtol10_def is_space_def is_digit_def code_of_def digit_val_def clamp_long_def Let_def)
  have a: "apply_scalar b ''listen.port'' ''7000'' = Inr (b\<lparr>bu_cfg := (bu_cfg b)\<lparr>listen_port := 7000\<rparr>\<rparr>)" for b
    by (simp add: apply_scalar_def scalar_rules_simps with_port_def p)
  have l: "lookup_scalar demo_yaml y k = (if k = ''listen.port'' then Some ''7000'' else None)" for y k
    by (simp add: lookup_scalar_def demo_yaml_def)
  have "apply_paths demo_yaml () g_paths bundle_init = Inr (bundle_init\<lparr>bu_cfg := (bu_cfg bundle_init)\<lparr>listen_port := 7000\<rparr>\<rparr>)"
    by (simp add: g_paths_def l a)
  moreover have "join_groups_sequence demo_yaml () b = Some b" for b
    by (simp add: join_groups_sequence_def demo_yaml_def)
  ultimately show ?thesis
    by (simp add: load_yaml_def load_yaml_buf_def load_from_ctx_def demo_yaml_def [THEN arg_cong [where f = y_create]]
        demo_yaml_def [THEN arg_cong [where f = y_feed]] demo_yaml_def [THEN arg_cong [where f = y_n_events]] split: option.split)
qed

theorem load_yaml_in_range_witness:
  "\<exists>b. load_yaml demo_yaml ''pq.yaml'' (Some ''x'') = Inr b \<and> cfg_ok (bu_cfg b) \<and> listen_port (bu_cfg b) = 7000"
  using demo_yaml_load load_yaml_in_range by blast


theorem hostport_round_trip_witness:
  "set_hostport bundle_init (''::1'' @ CHR '':'' # show_nat 6432) = Some (''::1'', Some 6432, bundle_init\<lparr>bu_owned := 1\<rparr>)"
  using hostport_round_trip [of "''::1''" 6432 bundle_init] by (simp add: bundle_init_def)

end
