(* ===== verification/Tls.thy ===== *)
theory Tls
  imports Config Identity
begin

text \<open>
  The TLS adapters (src/tls_mtls.c, src/ktls.c): the context that every connection is made from,
  what the handshake, read and write wrappers make of the results of OpenSSL, the identity of the
  peer, and the kTLS query. OpenSSL is a parameter: whether it can load a certificate chain, a key
  or a list of authorities is an argument of the context, and the result of each call on a
  connection is an argument of its wrapper.
\<close>

section \<open>The context\<close>

datatype tls_version = TLS1_2 | TLS1_3

text \<open>What the settings of an \<open>SSL_CTX\<close> are: the versions, the cipher list when one was set, the two
  modes, kTLS, the files loaded, the verification of the peer.\<close>

record tls_ctx =
  tc_min :: tls_version
  tc_max :: tls_version
  tc_ciphers :: "string option"
  tc_partial_write :: bool
  tc_moving_buffer :: bool
  tc_ktls :: bool
  tc_chain :: "string option"
  tc_key :: "string option"
  tc_ca :: "string option"
  tc_verify_peer :: bool
  tc_fail_if_no_peer_cert :: bool
  tc_depth :: nat

text \<open>OpenSSL: \<open>SSL_CTX_new\<close>, the ciphers, the chain file, the key file, whether a key belongs to a chain,
  the authorities.\<close>

record ssl_lib =
  sl_new :: bool
  sl_ciphers :: "string \<Rightarrow> bool"
  sl_chain :: "string \<Rightarrow> bool"
  sl_key :: "string \<Rightarrow> bool"
  sl_key_fits :: "string \<Rightarrow> string \<Rightarrow> bool"
  sl_ca :: "string \<Rightarrow> bool"

definition ktls_ciphers :: string where
  "ktls_ciphers = ''ECDHE-RSA-AES128-GCM-SHA256:ECDHE-RSA-AES256-GCM-SHA384:AES128-GCM-SHA256:AES256-GCM-SHA384''"

definition tls_ctx_new :: tls_ctx where
  "tls_ctx_new = \<lparr>tc_min = TLS1_2, tc_max = TLS1_3, tc_ciphers = None, tc_partial_write = False, tc_moving_buffer = False,
     tc_ktls = False, tc_chain = None, tc_key = None, tc_ca = None, tc_verify_peer = False, tc_fail_if_no_peer_cert = False,
     tc_depth = 0\<rparr>"

definition tls_enable_ktls_ctx :: "tls_ctx \<Rightarrow> tls_ctx" where
  "tls_enable_ktls_ctx ctx = ctx\<lparr>tc_ktls := True\<rparr>"

text \<open>The versions, ciphers and modes. A cipher list that is refused is only a warning.\<close>

definition tls_ctx_protocol :: "ssl_lib \<Rightarrow> config \<Rightarrow> tls_ctx \<Rightarrow> tls_ctx" where
  "tls_ctx_protocol lib cfg ctx0 =
     (let ctx1 = ctx0\<lparr>tc_min := TLS1_2\<rparr>;
          ctx2 = (if prefer_tls12_ktls cfg then
                    ctx1\<lparr>tc_max := TLS1_2, tc_ciphers := (if sl_ciphers lib ktls_ciphers then Some ktls_ciphers else tc_ciphers ctx1)\<rparr>
                  else ctx1\<lparr>tc_max := TLS1_3\<rparr>)
      in tls_enable_ktls_ctx (ctx2\<lparr>tc_partial_write := True, tc_moving_buffer := True\<rparr>))"

text \<open>The verification of the client.\<close>

definition tls_ctx_verify :: "ssl_lib \<Rightarrow> config \<Rightarrow> tls_ctx \<Rightarrow> tls_ctx option" where
  "tls_ctx_verify lib cfg ctx =
     (if require_mtls cfg then
        (case ca_file cfg of
           None \<Rightarrow> None
         | Some ca \<Rightarrow>
             if \<not> sl_ca lib ca then None
             else Some (ctx\<lparr>tc_ca := Some ca, tc_verify_peer := True, tc_fail_if_no_peer_cert := True, tc_depth := 4\<rparr>))
      else Some ctx)"

definition tls_ctx_create :: "ssl_lib \<Rightarrow> config \<Rightarrow> tls_ctx option" where
  "tls_ctx_create lib cfg =
     (if plain_mode cfg then None
      else
        (case (cert_file cfg, key_file cfg) of
           (Some cert, Some key) \<Rightarrow>
             if \<not> sl_new lib then None
             else
               (let ctx = tls_ctx_protocol lib cfg tls_ctx_new in
                if \<not> sl_chain lib cert then None
                else if \<not> sl_key lib key then None
                else if \<not> sl_key_fits lib cert key then None
                else tls_ctx_verify lib cfg (ctx\<lparr>tc_chain := Some cert, tc_key := Some key\<rparr>))
         | _ \<Rightarrow> None))"

section \<open>Connections\<close>

text \<open>The errors of \<open>SSL_get_error\<close> that the wrappers tell apart.\<close>

datatype ssl_error = SslWantRead | SslWantWrite | SslZeroReturn | SslWantClientHello | SslOther

text \<open>Whether there is a connection; \<open>ssl_ok\<close>: \<open>SSL_new\<close> and \<open>SSL_set_fd\<close> both succeed.\<close>

definition tls_conn_new_fd :: "tls_ctx option \<Rightarrow> int \<Rightarrow> bool \<Rightarrow> bool" where
  "tls_conn_new_fd ctx fd ssl_ok \<longleftrightarrow> \<not> (ctx = None \<or> fd < 0) \<and> ssl_ok"

text \<open>1 finished, 0 more input or output needed, -1 error.\<close>

definition handshake_rc :: "bool \<Rightarrow> int \<Rightarrow> ssl_error \<Rightarrow> int" where
  "handshake_rc finished ret err =
     (if finished then 1
      else if ret = 1 then 1
      else if err = SslWantRead \<or> err = SslWantWrite then 0
      else - 1)"

text \<open>\<open>SSL_read\<close> gave the bytes \<open>d\<close>, at most the buffer's; none when it returned 0 or less. -2: the peer
  closed the connection.\<close>

definition read_plain_rc :: "nat \<Rightarrow> bytes \<Rightarrow> ssl_error \<Rightarrow> int \<times> bytes" where
  "read_plain_rc cap d err =
     (if cap = 0 then (- 1, [])
      else if d \<noteq> [] then (1, take cap d)
      else if err = SslWantRead \<or> err = SslWantWrite \<or> err = SslWantClientHello then (0, [])
      else if err = SslZeroReturn then (- 2, [])
      else (- 1, []))"

text \<open>\<open>SSL_write\<close> returned \<open>n\<close>, at most the bytes it was given.\<close>

definition write_plain_rc :: "nat \<Rightarrow> int \<Rightarrow> ssl_error \<Rightarrow> int \<times> nat" where
  "write_plain_rc len n err =
     (if len = 0 then (1, 0)
      else if n > 0 then (1, min (nat n) len)
      else if err = SslWantRead \<or> err = SslWantWrite then (0, 0)
      else (- 1, 0))"

text \<open>The certificate of a peer is what the accessors of OpenSSL give on it.\<close>

type_synonym peer_cert = "(unit, unit, int, string) x509_api"

definition peer_identity :: "('c, 'n, 'e, 's) x509_api \<Rightarrow> 'c option \<Rightarrow> identity option" where
  "peer_identity x peer = (case peer of None \<Rightarrow> None | Some cert \<Rightarrow> identity_from_x509 x cert)"

text \<open>Whether the kernel has taken over a direction.\<close>

definition ktls_on :: "bool \<Rightarrow> bool \<Rightarrow> bool" where
  "ktls_on tx rx \<longleftrightarrow> tx \<or> rx"

text \<open>What is noted after the handshake, and its line on the standard error. \<open>zc\<close>: whether OpenSSL was
  built with zero-copy \<open>sendfile\<close>.\<close>

definition ktls_note_after_handshake :: "bool \<Rightarrow> string option \<Rightarrow> bool \<Rightarrow> bool \<Rightarrow> bool \<Rightarrow> int \<times> string" where
  "ktls_note_after_handshake zc cipher silent tx rx =
     (let digit = (\<lambda>b. if b then ''1'' else ''0'') in
      (if tx \<or> rx then 1 else 0,
       if silent then []
       else ''pqproxy: TLS handshake ok cipher='' @ (case cipher of None \<Rightarrow> ''?'' | Some c \<Rightarrow> c) @ '' ktls_tx='' @ digit tx @
         '' ktls_rx='' @ digit rx @ '' ktls_tx_zerocopy_sendfile='' @ digit zc @ [CHR 0x0A]))"

lemma ktls_note_on: "fst (ktls_note_after_handshake zc cipher silent tx rx) > 0 \<longleftrightarrow> ktls_on tx rx"
  by (simp add: ktls_note_after_handshake_def ktls_on_def Let_def)

section \<open>Connections over memory buffers\<close>

text \<open>The memory buffers of OpenSSL are a parameter: a write of the first \<open>n\<close> bytes with its
  result, and a read of at most \<open>n\<close> bytes (none when it returned 0 or less). A connection is in the
  accepting state or not and has its two buffers, if any.\<close>

record 'b bio_api =
  bio_write :: "'b \<Rightarrow> bytes \<Rightarrow> int \<Rightarrow> int \<times> 'b"
  bio_read :: "'b \<Rightarrow> int \<Rightarrow> bytes \<times> 'b"

record 'b mem_conn =
  mc_rbio :: "'b option"
  mc_wbio :: "'b option"
  mc_accepting :: bool

text \<open>\<open>ssl_ok\<close>: \<open>SSL_new\<close> succeeds; \<open>rbio\<close>, \<open>wbio\<close>: what the two calls of \<open>BIO_new\<close> give.\<close>

definition tls_conn_new :: "tls_ctx option \<Rightarrow> bool \<Rightarrow> 'b option \<Rightarrow> 'b option \<Rightarrow> 'b mem_conn option" where
  "tls_conn_new ctx ssl_ok rbio wbio =
     (if ctx = None \<or> \<not> ssl_ok then None
      else if rbio = None \<or> wbio = None then None
      else Some \<lparr>mc_rbio = rbio, mc_wbio = wbio, mc_accepting = True\<rparr>)"

text \<open>The length goes through an \<open>int\<close> of 32 bits.\<close>

definition tls_feed_encrypted :: "'b bio_api \<Rightarrow> bytes \<Rightarrow> 'b mem_conn \<Rightarrow> int \<times> 'b mem_conn" where
  "tls_feed_encrypted api data c =
     (if data = [] then (0, c)
      else
        (case mc_rbio c of
           None \<Rightarrow> (- 1, c)
         | Some b \<Rightarrow>
             (let (n, b') = bio_write api b data (to_int32 (int (length data)))
              in (if n \<le> 0 \<or> nat n \<noteq> length data then - 1 else 0, c\<lparr>mc_rbio := Some b'\<rparr>))))"

definition tls_drain_encrypted :: "'b bio_api \<Rightarrow> nat \<Rightarrow> 'b mem_conn \<Rightarrow> int \<times> bytes \<times> 'b mem_conn" where
  "tls_drain_encrypted api cap c =
     (if cap = 0 then (- 1, [], c)
      else
        (case mc_wbio c of
           None \<Rightarrow> (- 1, [], c)
         | Some b \<Rightarrow>
             (let (out, b') = bio_read api b (to_int32 (int cap))
              in (if out \<noteq> [] then 1 else 0, out, c\<lparr>mc_wbio := Some b'\<rparr>))))"

text \<open>A memory buffer is documented to be a queue of bytes.\<close>

definition bio_queue :: "'b bio_api \<Rightarrow> ('b \<Rightarrow> bytes) \<Rightarrow> bool" where
  "bio_queue api content \<longleftrightarrow>
     (\<forall>b data n. case bio_write api b data n of (k, b') \<Rightarrow>
        if 0 < n \<and> 0 < k then k \<le> n \<and> content b' = content b @ take (nat k) data else k \<le> 0 \<and> content b' = content b) \<and>
     (\<forall>b n. case bio_read api b n of (out, b') \<Rightarrow> out = take (nat n) (content b) \<and> content b' = drop (nat n) (content b))"

lemma bio_queueD:
  assumes "bio_queue api content"
  shows "bio_write api b data n = (k, b') \<Longrightarrow> 0 < k \<Longrightarrow> content b' = content b @ take (nat k) data"
    "bio_read api b n = (out, b') \<Longrightarrow> out = take (nat n) (content b) \<and> content b' = drop (nat n) (content b)"
proof -
  note q = assms [unfolded bio_queue_def]
  show "bio_write api b data n = (k, b') \<Longrightarrow> 0 < k \<Longrightarrow> content b' = content b @ take (nat k) data"
    using q [THEN conjunct1, THEN spec [of _ b], THEN spec [of _ data], THEN spec [of _ n]] by (auto split: if_splits)
  show "bio_read api b n = (out, b') \<Longrightarrow> out = take (nat n) (content b) \<and> content b' = drop (nat n) (content b)"
    using q [THEN conjunct2, THEN spec [of _ b], THEN spec [of _ n]] by simp
qed

text \<open>Feeding succeeds only with all of the bytes behind what is there, and does not touch what is to be
  sent.\<close>

lemma tls_feed_whole:
  assumes "bio_queue api content" and "mc_rbio c = Some b" and "tls_feed_encrypted api data c = (0, c')"
  shows "\<exists>b'. mc_rbio c' = Some b' \<and> content b' = content b @ data \<and> mc_wbio c' = mc_wbio c \<and> mc_accepting c' = mc_accepting c"
proof (cases "data = []")
  case True
  then show ?thesis using assms by (simp add: tls_feed_encrypted_def)
next
  case False
  obtain k b' where w: "bio_write api b data (to_int32 (int (length data))) = (k, b')" by fastforce
  then have "k > 0 \<and> nat k = length data \<and> c' = c\<lparr>mc_rbio := Some b'\<rparr>"
    using assms(2,3) False by (auto simp: tls_feed_encrypted_def split: if_splits)
  moreover have "content b' = content b @ take (nat k) data"
    using bio_queueD(1) [OF assms(1) w] calculation by blast
  ultimately show ?thesis by simp
qed

text \<open>Draining takes the next bytes, in order, and ends with 0 exactly when nothing is left.\<close>

lemma tls_drain_next:
  assumes "bio_queue api content" and "mc_wbio c = Some b" and "0 < cap" "cap < 2 ^ 31"
    and "tls_drain_encrypted api cap c = (rc, out, c')"
  shows "out = take cap (content b) \<and> (rc = (if content b = [] then 0 else 1)) \<and>
    (\<exists>b'. mc_wbio c' = Some b' \<and> content b = out @ content b') \<and> mc_rbio c' = mc_rbio c"
proof -
  have cap: "nat (to_int32 (int cap)) = cap" using assms(4) by (simp add: to_int32_def)
  obtain o' b' where r: "bio_read api b (to_int32 (int cap)) = (o', b')" by fastforce
  then have "o' = take cap (content b) \<and> content b' = drop cap (content b)"
    using bio_queueD(2) [OF assms(1) r] cap by simp
  then show ?thesis using assms(2,3,5) r by (auto simp: tls_drain_encrypted_def)
qed

lemma peer_identity_wf:
  "peer_identity x peer = Some ident \<Longrightarrow>
    group_name ident \<noteq> [] \<and> length (group_name ident) < 64 \<and> length (router_id ident) < 128"
  by (auto simp: peer_identity_def x509_identity_wf split: option.splits)

lemma read_plain_bound: "length (snd (read_plain_rc cap d err)) \<le> cap"
  by (simp add: read_plain_rc_def)

lemma write_plain_bound: "snd (write_plain_rc len n err) \<le> len"
  by (simp add: write_plain_rc_def)

section \<open>What a context demands\<close>

lemma tls_ctx_secure:
  assumes "tls_ctx_create lib cfg = Some ctx"
  shows "\<not> plain_mode cfg \<and> tc_min ctx = TLS1_2 \<and>
    (require_mtls cfg \<longrightarrow> tc_verify_peer ctx \<and> tc_fail_if_no_peer_cert ctx \<and> tc_ca ctx = ca_file cfg \<and> ca_file cfg \<noteq> None)"
  using assms
  by (auto simp: tls_ctx_create_def tls_ctx_verify_def tls_ctx_protocol_def tls_enable_ktls_ctx_def Let_def split: option.splits if_splits)

text \<open>The context is what the configuration asks for: when one is created, it is not plain mode, the
  chain and the key of the configuration are loaded and belong together, no version below TLS
  1.2 is accepted, and a client certificate is verified, and its absence refused, exactly when mutual
  TLS is required, then against the configured authorities. It is created exactly
  when every file that is needed is configured and can be loaded.\<close>

theorem tls_ctx_as_configured:
  "(case tls_ctx_create lib cfg of
      None \<Rightarrow> plain_mode cfg \<or> cert_file cfg = None \<or> key_file cfg = None \<or> \<not> sl_new lib \<or>
        \<not> sl_chain lib (the (cert_file cfg)) \<or> \<not> sl_key lib (the (key_file cfg)) \<or>
        \<not> sl_key_fits lib (the (cert_file cfg)) (the (key_file cfg)) \<or>
        require_mtls cfg \<and> (ca_file cfg = None \<or> \<not> sl_ca lib (the (ca_file cfg)))
    | Some ctx \<Rightarrow> \<not> plain_mode cfg \<and> tc_chain ctx = cert_file cfg \<and> tc_key ctx = key_file cfg \<and>
        sl_key_fits lib (the (tc_chain ctx)) (the (tc_key ctx)) \<and>
        tc_min ctx = TLS1_2 \<and> tc_max ctx = (if prefer_tls12_ktls cfg then TLS1_2 else TLS1_3) \<and>
        tc_verify_peer ctx = require_mtls cfg \<and> tc_fail_if_no_peer_cert ctx = require_mtls cfg \<and>
        tc_ca ctx = (if require_mtls cfg then ca_file cfg else None) \<and>
        tc_partial_write ctx \<and> tc_moving_buffer ctx \<and> tc_ktls ctx)"
  by (auto simp: tls_ctx_create_def tls_ctx_verify_def tls_ctx_protocol_def tls_enable_ktls_ctx_def tls_ctx_new_def Let_def
      split: option.splits)

definition demo_ssl :: ssl_lib where
  "demo_ssl = \<lparr>sl_new = True, sl_ciphers = (\<lambda>_. True), sl_chain = (\<lambda>f. f = ''server.crt''), sl_key = (\<lambda>f. f = ''server.key''),
     sl_key_fits = (\<lambda>c k. c = ''server.crt'' \<and> k = ''server.key''), sl_ca = (\<lambda>f. f = ''ca.crt'')\<rparr>"

definition demo_mtls :: config where
  "demo_mtls = config_defaults\<lparr>cert_file := Some ''server.crt'', key_file := Some ''server.key'', ca_file := Some ''ca.crt''\<rparr>"

lemma demo_mtls_ctx: "\<exists>ctx. tls_ctx_create demo_ssl demo_mtls = Some ctx"
  by (simp add: tls_ctx_create_def tls_ctx_verify_def demo_mtls_def demo_ssl_def config_defaults_def Let_def)

theorem tls_ctx_as_configured_witness:
  "\<exists>ctx. tls_ctx_create demo_ssl demo_mtls = Some ctx \<and> tc_verify_peer ctx \<and> tc_fail_if_no_peer_cert ctx \<and> tc_ca ctx = Some ''ca.crt''"
  using demo_mtls_ctx tls_ctx_as_configured [of demo_mtls demo_ssl] by (auto simp: demo_mtls_def config_defaults_def)

end
