(* ===== verification/Server_State.thy ===== *)
theory Server_State
  imports Tls Backend_Async Fe_Queue
begin

text \<open>
  The state of the event loop (src/iouring_loop.c): the record of a frontend connection
  (\<open>conn_t\<close>), the server (\<open>server_t\<close>), the ring of submissions, and the operations that
  submit to the ring or queue bytes for a frontend. A pointer to a connection is its index in
  the table. The kernel side of io_uring is the list of entries in flight; \<open>io_uring_get_sqe\<close>
  fails when 512 entries wait to be submitted. The calls of OpenSSL on a connection answer from
  a script, as the sockets of \<open>Backend_Io\<close> do. The clock is a field that every step may move.
\<close>

section \<open>Records\<close>

datatype conn_state = CS_FREE | CS_TLS_HS | CS_ACTIVE | CS_CLOSING

datatype be_wait = BE_IDLE | BE_SENDING | BE_READING | BE_WAITING_POOL

datatype uring_op = OP_ACCEPT | OP_RECV | OP_SEND | OP_POLL | OP_BE_SEND | OP_BE_RECV

primrec op_code :: "uring_op \<Rightarrow> 32 word" where
  "op_code OP_ACCEPT = 1"
| "op_code OP_RECV = 2"
| "op_code OP_SEND = 3"
| "op_code OP_POLL = 4"
| "op_code OP_BE_SEND = 5"
| "op_code OP_BE_RECV = 6"

text \<open>A submission: its user data, the descriptor, the events of a poll or the flags of a send, and the
  bytes of a send.\<close>

record sub =
  su_ud :: "64 word"
  su_fd :: int
  su_flags :: int
  su_data :: bytes

text \<open>\<open>fc_send\<close> and \<open>fc_be_resp\<close> are the filled parts of the buffers of \<open>PQPROXY_IO_BUF\<close>
  bytes. The receive buffers hold data only between a completion and its handler.\<close>

record 'w fconn =
  fc_fd :: int
  fc_state :: conn_state
  fc_ssl :: bool
  fc_ktls_on :: bool
  fc_frontend :: "'w option"
  fc_id :: identity
  fc_cache :: stmt_cache
  fc_identity_ready :: bool
  fc_send :: bytes
  fc_send_off :: nat
  fc_send_pending :: bool
  fc_recv_pending :: bool
  fc_poll_pending :: bool
  fc_want_poll_out :: bool
  fc_zerocopy_ok :: bool
  fc_be :: "nat option"
  fc_be_wait :: be_wait
  fc_be_send_pending :: bool
  fc_be_recv_pending :: bool
  fc_got_execute :: bool
  fc_got_sync :: bool
  fc_be_start_ns :: u64
  fc_be_resp :: bytes
  fc_q :: fe_queue
  fc_draining :: bool
  fc_slot :: nat

text \<open>What the calls of OpenSSL on a connection return, in order: whether the handshake is finished
  already, else the result and the error of \<open>SSL_do_handshake\<close>, and the error that the loop asks for
  again; the certificate of the peer, if any; the bytes of \<open>SSL_read\<close>, or its error; the result and
  the error of \<open>SSL_write\<close>; what the kernel has taken over.\<close>

datatype tls_res =
    THandshake bool int ssl_error ssl_error
  | TIdentity "peer_cert option"
  | TRead bytes ssl_error
  | TWrite int ssl_error
  | TKtls bool bool

record 'w server =
  sv_cfg :: config
  sv_tls :: "tls_ctx option"
  sv_pool :: "'w be_pool option"
  sv_async :: bool
  sv_fair :: bool
  sv_conns :: "'w fconn list"
  sv_last_maintain_ms :: u64
  sv_last_metrics_ms :: u64
  sv_wait :: wait_ring
  sv_now_ns :: u64
  sv_world :: world
  sv_ssl :: "tls_res list"
  sv_sq :: "sub list"
  sv_flight :: "sub list"

abbreviation (input) IO_BUF :: nat where "IO_BUF \<equiv> 16384"
abbreviation (input) URING_ENTRIES :: nat where "URING_ENTRIES \<equiv> 512"

text \<open>A zeroed connection (\<open>calloc\<close>, \<open>memset\<close>).\<close>

definition fconn_zero :: "'w fconn" where
  "fconn_zero = \<lparr>fc_fd = 0, fc_state = CS_FREE, fc_ssl = False, fc_ktls_on = False, fc_frontend = None,
     fc_id = \<lparr>router_id = [], group_name = [], identity_slot = 0\<rparr>, fc_cache = stmt_cache_init,
     fc_identity_ready = False, fc_send = [], fc_send_off = 0, fc_send_pending = False, fc_recv_pending = False,
     fc_poll_pending = False, fc_want_poll_out = False, fc_zerocopy_ok = False, fc_be = None,
     fc_be_wait = BE_IDLE, fc_be_send_pending = False, fc_be_recv_pending = False, fc_got_execute = False,
     fc_got_sync = False, fc_be_start_ns = 0, fc_be_resp = [], fc_q = feq_empty, fc_draining = False, fc_slot = 0\<rparr>"

section \<open>Access\<close>

definition cn :: "'w server \<Rightarrow> nat \<Rightarrow> 'w fconn" where
  "cn srv i = sv_conns srv ! i"

definition upd :: "nat \<Rightarrow> ('w fconn \<Rightarrow> 'w fconn) \<Rightarrow> 'w server \<Rightarrow> 'w server" where
  "upd i f srv = srv\<lparr>sv_conns := (sv_conns srv)[i := f (sv_conns srv ! i)]\<rparr>"

definition count :: "(metrics \<Rightarrow> metrics) \<Rightarrow> 'w server \<Rightarrow> 'w server" where
  "count f srv = srv\<lparr>sv_world := (sv_world srv)\<lparr>w_metrics := f (w_metrics (sv_world srv))\<rparr>\<rparr>"

text \<open>A call of libpqwire on the frontend context of a connection.\<close>

definition fe_call :: "('w \<Rightarrow> int \<times> 'w) \<Rightarrow> nat \<Rightarrow> 'w server \<Rightarrow> int \<times> 'w server" where
  "fe_call f i srv =
     (case fc_frontend (cn srv i) of
        None \<Rightarrow> (ERR, srv)
      | Some w \<Rightarrow> (let (rc, w') = f w in (rc, upd i (\<lambda>c. c\<lparr>fc_frontend := Some w'\<rparr>) srv)))"

text \<open>The backend connection that a frontend owns: its index, the pool, its record.\<close>

definition sv_be :: "'w server \<Rightarrow> nat \<Rightarrow> (nat \<times> 'w be_pool \<times> 'w be_conn) option" where
  "sv_be srv i =
     (case (fc_be (cn srv i), sv_pool srv) of
        (Some b, Some p) \<Rightarrow> Some (b, p, po_conns p ! b)
      | _ \<Rightarrow> None)"

definition set_pool :: "'w be_pool \<Rightarrow> world \<Rightarrow> 'w server \<Rightarrow> 'w server" where
  "set_pool p w srv = srv\<lparr>sv_pool := Some p, sv_world := w\<rparr>"

text \<open>\<open>mono_ms\<close> from \<open>mono_ns\<close>.\<close>

definition mono_ms :: "'w server \<Rightarrow> u64" where
  "mono_ms srv = sv_now_ns srv div 1000000"

definition count_active_frontends :: "'w server \<Rightarrow> nat" where
  "count_active_frontends srv = length (filter (\<lambda>c. fc_state c \<noteq> CS_FREE) (sv_conns srv))"

section \<open>Submissions\<close>

definition add_sqe :: "uring_op \<Rightarrow> nat \<Rightarrow> int \<Rightarrow> int \<Rightarrow> bytes \<Rightarrow> 'w server \<Rightarrow> 'w server option" where
  "add_sqe opc slot fd flags data srv =
     (if length (sv_sq srv) \<ge> URING_ENTRIES then None
      else Some (srv\<lparr>sv_sq := sv_sq srv @
        [\<lparr>su_ud = pack_ud (op_code opc) (word_of_nat slot), su_fd = fd, su_flags = flags, su_data = data\<rparr>]\<rparr>))"

text \<open>\<open>MSG_ZEROCOPY\<close> for a long send on a socket that takes it; \<open>POLLIN\<close> is 1, \<open>POLLOUT\<close> is 4.\<close>

definition send_flags :: "'w fconn \<Rightarrow> int" where
  "send_flags c = (if fc_zerocopy_ok c \<and> length (fc_send c) - fc_send_off c \<ge> 4096 then 0x4000000 else 0)"

definition poll_mask :: "'w fconn \<Rightarrow> int" where
  "poll_mask c = (if fc_want_poll_out c \<or> length (fc_send c) > fc_send_off c then 5 else 1)"

definition submit_recv :: "nat \<Rightarrow> 'w server \<Rightarrow> int \<times> 'w server" where
  "submit_recv i srv =
     (let c = cn srv i in
      if fc_ssl c \<or> fc_recv_pending c \<or> fc_state c = CS_CLOSING \<or> fc_state c = CS_FREE then (OK, srv)
      else
        (case add_sqe OP_RECV (fc_slot c) (fc_fd c) 0 [] srv of
           None \<Rightarrow> (ERR, srv)
         | Some srv1 \<Rightarrow> (OK, upd i (\<lambda>c. c\<lparr>fc_recv_pending := True\<rparr>) srv1)))"

definition submit_send :: "nat \<Rightarrow> 'w server \<Rightarrow> int \<times> 'w server" where
  "submit_send i srv =
     (let c = cn srv i in
      if fc_ssl c \<or> fc_send_pending c \<or> fc_send_off c \<ge> length (fc_send c) then (OK, srv)
      else
        (case add_sqe OP_SEND (fc_slot c) (fc_fd c) (send_flags c) (drop (fc_send_off c) (fc_send c)) srv of
           None \<Rightarrow> (ERR, srv)
         | Some srv1 \<Rightarrow> (OK, upd i (\<lambda>c. c\<lparr>fc_send_pending := True\<rparr>) srv1)))"

definition submit_poll :: "nat \<Rightarrow> 'w server \<Rightarrow> int \<times> 'w server" where
  "submit_poll i srv =
     (let c = cn srv i in
      if \<not> fc_ssl c \<or> fc_poll_pending c \<or> fc_state c = CS_FREE then (OK, srv)
      else
        (case add_sqe OP_POLL (fc_slot c) (fc_fd c) (poll_mask c) [] srv of
           None \<Rightarrow> (ERR, srv)
         | Some srv1 \<Rightarrow> (OK, upd i (\<lambda>c. c\<lparr>fc_poll_pending := True\<rparr>) srv1)))"

text \<open>Descriptor 0 stands for the listening socket.\<close>

definition submit_accept :: "'w server \<Rightarrow> int \<times> 'w server" where
  "submit_accept srv =
     (case add_sqe OP_ACCEPT 0 0 0 [] srv of None \<Rightarrow> (ERR, srv) | Some srv1 \<Rightarrow> (OK, srv1))"

text \<open>Appending to the send buffer; a full buffer is rewound when all of it has been sent. What is
  appended is never longer than a buffer, so a rewound buffer takes it.\<close>

definition append_send :: "bytes \<Rightarrow> 'w fconn \<Rightarrow> 'w fconn option" where
  "append_send data c =
     (let c1 = (if length (fc_send c) + length data > IO_BUF \<and> fc_send_off c = length (fc_send c)
                then c\<lparr>fc_send := [], fc_send_off := 0\<rparr> else c)
      in if length (fc_send c1) + length data > IO_BUF then None
         else Some (c1\<lparr>fc_send := fc_send c1 @ data\<rparr>))"

definition queue_plain_send :: "nat \<Rightarrow> bytes \<Rightarrow> 'w server \<Rightarrow> int \<times> 'w server" where
  "queue_plain_send i data srv =
     (if data = [] then (OK, srv)
      else
        (case append_send data (cn srv i) of
           None \<Rightarrow> (ERR, srv)
         | Some c \<Rightarrow>
             if fc_ssl (cn srv i) then submit_poll i (upd i (\<lambda>_. c\<lparr>fc_want_poll_out := True\<rparr>) srv)
             else submit_send i (upd i (\<lambda>_. c) srv)))"

fun drain_out_loop :: "'w pqwire \<Rightarrow> nat \<Rightarrow> nat \<Rightarrow> 'w server \<Rightarrow> int \<times> 'w server" where
  "drain_out_loop pw 0 i srv = (OK, srv)"
| "drain_out_loop pw (Suc k) i srv =
     (case fc_frontend (cn srv i) of
        None \<Rightarrow> (OK, srv)
      | Some w \<Rightarrow>
          (let (out, w') = w_get_output pw w IO_BUF;
               srv1 = upd i (\<lambda>c. c\<lparr>fc_frontend := Some w'\<rparr>) srv
           in if out = [] then (OK, srv1)
              else
                (let (rc, srv2) = queue_plain_send i out srv1 in
                 if rc \<noteq> 0 then (ERR, srv2) else drain_out_loop pw k i srv2)))"

text \<open>The fuel is the number of bytes the context holds: under \<open>wire_finite\<close> each turn takes some.\<close>

definition drain_frontend_out :: "'w pqwire \<Rightarrow> nat \<Rightarrow> 'w server \<Rightarrow> int \<times> 'w server" where
  "drain_frontend_out pw i srv =
     (case fc_frontend (cn srv i) of
        None \<Rightarrow> (OK, srv)
      | Some w \<Rightarrow> drain_out_loop pw (w_n_output pw w) i srv)"

section \<open>The rings\<close>

text \<open>An operation of the request queue of a connection, with its effect on the metrics.\<close>

definition on_queue :: "(fe_queue \<Rightarrow> metrics \<Rightarrow> int \<times> fe_queue \<times> metrics) \<Rightarrow> nat \<Rightarrow> 'w server \<Rightarrow> int \<times> 'w server" where
  "on_queue f i srv =
     (let (rc, q, m) = f (fc_q (cn srv i)) (w_metrics (sv_world srv))
      in (rc, count (\<lambda>_. m) (upd i (\<lambda>c. c\<lparr>fc_q := q\<rparr>) srv)))"

definition sv_waiters_push :: "nat \<Rightarrow> 'w server \<Rightarrow> int \<times> 'w server" where
  "sv_waiters_push i srv =
     (let (rc, r, m) = waiters_push (sv_fair srv) (sv_wait srv) (fc_slot (cn srv i)) (w_metrics (sv_world srv))
      in (rc, count (\<lambda>_. m) (srv\<lparr>sv_wait := r\<rparr>)))"

definition sv_waiters_remove :: "nat \<Rightarrow> 'w server \<Rightarrow> 'w server" where
  "sv_waiters_remove slot srv =
     (let (r, m) = waiters_remove (sv_wait srv) slot (w_metrics (sv_world srv))
      in count (\<lambda>_. m) (srv\<lparr>sv_wait := r\<rparr>))"

definition park_for_backend :: "nat \<Rightarrow> 'w server \<Rightarrow> int \<times> 'w server" where
  "park_for_backend i srv =
     (let (rc, srv1) = sv_waiters_push i (upd i (\<lambda>c. c\<lparr>fc_be_wait := BE_WAITING_POOL\<rparr>) srv) in
      if rc \<noteq> 0 then (ERR, upd i (\<lambda>c. c\<lparr>fc_be_wait := BE_IDLE\<rparr>) srv1) else (OK, srv1))"

section \<open>Connection slots\<close>

definition alloc_conn :: "'w server \<Rightarrow> (nat \<times> 'w server) option" where
  "alloc_conn srv =
     (case find (\<lambda>i. fc_state (cn srv i) = CS_FREE) [0..<length (sv_conns srv)] of
        None \<Rightarrow> None
      | Some i \<Rightarrow>
          Some (i, upd i (\<lambda>_. fconn_zero\<lparr>fc_slot := i, fc_fd := - 1, fc_id := identity_clear,
            fc_cache := stmt_cache_init\<rparr>) srv))"

end
