(* ===== verification/Server_Backend.thy ===== *)
theory Server_Backend
  imports Server_State
begin

text \<open>
  The backend side of the event loop (src/iouring_loop.c): the submissions on a backend
  connection, the end of a pipeline, the fair scheduling of waiting frontends, starting a
  pipeline from an event or from the request queue, draining that queue, and closing a
  connection. \<open>drain_fe_queue\<close>, \<open>backend_async_fail\<close>, \<open>after_backend_release\<close> and
  \<open>fair_schedule_waiters\<close> call each other: each is written over the one it calls back,
  \<open>rel\<close>, and the circle is closed by a fuel on the nesting. A drain marks its connection and
  a marked connection is not drained again, so the nesting is at most the number of
  connections and the fuel of 257 is enough.
\<close>

type_synonym 'w handler = "nat \<Rightarrow> 'w server \<Rightarrow> int \<times> 'w server"

section \<open>Submissions on a backend connection\<close>

definition submit_be_recv :: "'w handler" where
  "submit_be_recv i srv =
     (case sv_be srv i of
        None \<Rightarrow> (OK, srv)
      | Some (b, p, bc) \<Rightarrow>
          if fc_be_recv_pending (cn srv i) then (OK, srv)
          else
            (case add_sqe OP_BE_RECV (fc_slot (cn srv i)) (be_fd bc) 0 [] srv of
               None \<Rightarrow> (ERR, srv)
             | Some srv1 \<Rightarrow>
                 (OK, upd i (\<lambda>c. c\<lparr>fc_be_recv_pending := True, fc_be_wait := BE_READING\<rparr>) srv1)))"

definition submit_be_send :: "'w handler" where
  "submit_be_send i srv =
     (case sv_be srv i of
        None \<Rightarrow> (OK, srv)
      | Some (b, p, bc) \<Rightarrow>
          if fc_be_send_pending (cn srv i) then (OK, srv)
          else
            (case async_send_ptr bc of
               None \<Rightarrow> submit_be_recv i (upd i (\<lambda>c. c\<lparr>fc_be_wait := BE_READING\<rparr>) srv)
             | Some ptr \<Rightarrow>
                 (case add_sqe OP_BE_SEND (fc_slot (cn srv i)) (be_fd bc) 0 ptr srv of
                    None \<Rightarrow> (ERR, srv)
                  | Some srv1 \<Rightarrow>
                      (OK, upd i (\<lambda>c. c\<lparr>fc_be_send_pending := True, fc_be_wait := BE_SENDING\<rparr>) srv1))))"

section \<open>The end of a pipeline\<close>

definition note_wait :: "nat \<Rightarrow> 'w server \<Rightarrow> 'w server" where
  "note_wait i srv =
     (let t = fc_be_start_ns (cn srv i) in
      if t \<noteq> 0 then
        upd i (\<lambda>c. c\<lparr>fc_be_start_ns := 0\<rparr>) (count (metrics_note_backend_wait_ns (sv_now_ns srv - t)) srv)
      else srv)"

definition finish_be :: "'w pqwire \<Rightarrow> scram_crypto \<Rightarrow> bool \<Rightarrow> nat \<Rightarrow> 'w server \<Rightarrow> 'w server" where
  "finish_be pw cr failed i srv =
     (case sv_be srv i of
        None \<Rightarrow> srv
      | Some (b, p, bc) \<Rightarrow>
          (let (p', w') = async_finish pw cr b failed p (sv_world srv)
           in upd i (\<lambda>c. c\<lparr>fc_be := None\<rparr>) (set_pool p' w' srv)))"

definition backend_async_fail :: "'w pqwire \<Rightarrow> scram_crypto \<Rightarrow> 'w handler \<Rightarrow> 'w handler" where
  "backend_async_fail pw cr rel i srv =
     (let srv1 = count metrics_inc_be_fail (note_wait i srv);
          srv2 = upd i (\<lambda>c. c\<lparr>fc_be_resp := []\<rparr>) (finish_be pw cr True i srv1);
          srv3 = snd (fe_call (\<lambda>w. w_send_error_response pw w ''ERROR'' ''08006'' ''backend pipeline failed'') i srv2);
          srv4 = snd (fe_call (w_send_ready_for_query pw) i srv3);
          (rc, srv5) = drain_frontend_out pw i srv4
      in if rc \<noteq> 0 then (ERR, srv5) else rel i srv5)"

text \<open>The bytes for the frontend at the end of a pipeline: nothing yet when the client has not sent its
  Sync and there was no error.\<close>

definition deliver_response :: "'w pqwire \<Rightarrow> bool \<Rightarrow> 'w handler" where
  "deliver_response pw had_error i srv =
     (let c = cn srv i in
      if fc_got_sync c \<and> fc_be_resp c \<noteq> [] then
        (let (rc, srv1) = queue_plain_send i (fc_be_resp c) srv
         in if rc \<noteq> 0 then (ERR, srv1) else (OK, upd i (\<lambda>c. c\<lparr>fc_be_resp := []\<rparr>) srv1))
      else if had_error \<and> fc_be_resp c \<noteq> [] then
        (let (rc, srv1) = queue_plain_send i (fc_be_resp c) srv
         in if rc \<noteq> 0 then (ERR, srv1) else (OK, upd i (\<lambda>c. c\<lparr>fc_be_resp := [], fc_got_sync := False\<rparr>) srv1))
      else if fc_got_sync c then
        (let (rc, srv1) = fe_call (w_send_ready_for_query pw) i srv in if rc \<noteq> 0 then (ERR, srv1) else (OK, srv1))
      else (OK, srv))"

definition backend_async_complete :: "'w pqwire \<Rightarrow> scram_crypto \<Rightarrow> 'w handler \<Rightarrow> 'w handler" where
  "backend_async_complete pw cr rel i srv =
     (let srv1 = note_wait i srv;
          had_error = (case sv_be srv1 i of None \<Rightarrow> False | Some (b, p, bc) \<Rightarrow> ps_saw_error (be_pipe bc));
          srv2 = (if had_error
                  then upd i (\<lambda>c. c\<lparr>fc_q := feq_clear_all (fc_q c), fc_got_execute := False\<rparr>) (count metrics_inc_be_fail srv1)
                  else count metrics_inc_be_ok srv1);
          (rc, srv3) = (if had_error then (OK, srv2) else fe_call (w_send_bind_complete pw) i srv2)
      in if rc \<noteq> 0 then (ERR, srv3)
         else
           (let (rc, srv4) = deliver_response pw had_error i srv3 in
            if rc \<noteq> 0 then (ERR, srv4)
            else
              (let (rc, srv5) = drain_frontend_out pw i srv4 in
               if rc \<noteq> 0 then (ERR, srv5) else rel i (finish_be pw cr False i srv5))))"

section \<open>Starting a pipeline\<close>

text \<open>\<open>pqproxy_backend_async_begin\<close> on the pool of the server; the caller fills in the connection.\<close>

definition begin_be :: "'w pqwire \<Rightarrow> scram_crypto \<Rightarrow> pq_bind \<Rightarrow> nat \<Rightarrow> 'w server \<Rightarrow> nat option \<times> 'w server" where
  "begin_be pw cr b i srv =
     (case sv_pool srv of
        None \<Rightarrow> (None, srv)
      | Some p \<Rightarrow>
          (let (got, p', w') = async_begin pw cr (fc_cache (cn srv i)) b (fc_id (cn srv i)) p (sv_world srv)
           in (got, set_pool p' w' srv)))"

definition start_async_bind_from_event :: "'w pqwire \<Rightarrow> scram_crypto \<Rightarrow> 'w handler \<Rightarrow> pq_bind \<Rightarrow> 'w handler" where
  "start_async_bind_from_event pw cr rel b i srv =
     (let (got, srv1) = begin_be pw cr b i srv in
      case got of
        None \<Rightarrow> (ERR, srv1)
      | Some k \<Rightarrow>
          (let srv2 = upd i (\<lambda>c. c\<lparr>fc_be := Some k, fc_be_resp := [], fc_be_start_ns := sv_now_ns srv\<rparr>) srv1;
               (rc, srv3) = submit_be_send i srv2
           in if rc \<noteq> 0 then backend_async_fail pw cr rel i srv3 else (OK, srv3)))"

definition start_async_bind_from_queue :: "'w pqwire \<Rightarrow> scram_crypto \<Rightarrow> 'w handler \<Rightarrow> feq_item \<Rightarrow> 'w handler" where
  "start_async_bind_from_queue pw cr rel it i srv =
     (let b = bind_of_item pw it in
      if stmt_cache_get (fc_cache (cn srv i)) (b_statement b) = None then (ERR, srv)
      else
        (let (got, srv1) = begin_be pw cr b i srv in
         case got of
           None \<Rightarrow> (ERR, srv1)
         | Some k \<Rightarrow>
             (let srv2 = upd i (\<lambda>c. c\<lparr>fc_be := Some k, fc_be_resp := [], fc_got_execute := False,
                                 fc_got_sync := False, fc_be_start_ns := sv_now_ns srv\<rparr>) srv1;
                  (rc, srv3) = submit_be_send i srv2
              in if rc \<noteq> 0 then backend_async_fail pw cr rel i srv3 else (OK, srv3))))"

section \<open>Blocking requests\<close>

text \<open>A blocking round trip writes into the response buffer of the connection, also when it fails, and
  leaves the length of the response; the caller sets it on success.\<close>

definition overlay :: "bytes \<Rightarrow> 'w fconn \<Rightarrow> 'w fconn" where
  "overlay out c = c\<lparr>fc_be_resp := take (length (fc_be_resp c)) (out @ drop (length out) (fc_be_resp c))\<rparr>"

definition blocking_bind :: "'w pqwire \<Rightarrow> scram_crypto \<Rightarrow> pq_bind \<Rightarrow> nat \<Rightarrow> 'w server \<Rightarrow> int \<times> bytes \<times> 'w server" where
  "blocking_bind pw cr b i srv =
     (case sv_pool srv of
        None \<Rightarrow> (ERR, [], srv)
      | Some p \<Rightarrow>
          (let (rc, out, st, p', w') =
                 exec_bind_ex pw cr (fc_cache (cn srv i)) b (fc_id (cn srv i)) IO_BUF p (sv_world srv)
           in (rc, out, upd i (overlay out) (set_pool p' w' srv))))"

definition blocking_query :: "'w pqwire \<Rightarrow> scram_crypto \<Rightarrow> string \<Rightarrow> nat \<Rightarrow> 'w server \<Rightarrow> int \<times> bytes \<times> 'w server" where
  "blocking_query pw cr sql i srv =
     (case sv_pool srv of
        None \<Rightarrow> (ERR, [], srv)
      | Some p \<Rightarrow>
          (let (rc, out, st, p', w') =
                 exec_query pw cr (group_name (fc_id (cn srv i))) sql IO_BUF p (sv_world srv)
           in (rc, out, upd i (overlay out) (set_pool p' w' srv))))"

text \<open>A simple query: refused, or forwarded.\<close>

definition query_refused :: "nat \<Rightarrow> 'w server \<Rightarrow> bool" where
  "query_refused i srv \<longleftrightarrow> reject_simple_query (sv_cfg srv) \<or> sv_pool srv = None \<or> \<not> fc_identity_ready (cn srv i)"

definition send_query_error :: "'w pqwire \<Rightarrow> 'w handler" where
  "send_query_error pw i srv =
     (let (rc, srv1) = fe_call (\<lambda>w. w_send_error_response pw w ''ERROR'' ''08006'' ''simple Query backend forward failed'') i srv
      in if rc \<noteq> 0 then (ERR, srv1)
         else (let (rc, srv2) = fe_call (w_send_ready_for_query pw) i srv1 in if rc \<noteq> 0 then (ERR, srv2) else (OK, srv2)))"

section \<open>Draining the request queue\<close>

text \<open>The slot for the identity that a Parse falls back to.\<close>

definition parse_slot :: "nat \<Rightarrow> 'w server \<Rightarrow> int" where
  "parse_slot i srv =
     (if identity_slot (fc_id (cn srv i)) \<ge> 0 then identity_slot (fc_id (cn srv i)) else cfg_identity_slot (sv_cfg srv))"

definition frontend_parse :: "'w pqwire \<Rightarrow> pq_parse \<Rightarrow> 'w handler" where
  "frontend_parse pw prs i srv =
     (case fc_frontend (cn srv i) of
        None \<Rightarrow> (ERR, srv)
      | Some w \<Rightarrow>
          (let (rc, w', cache') = on_parse_ex pw w (fc_cache (cn srv i)) prs (parse_slot i srv) (identity_param_name (sv_cfg srv));
               srv1 = upd i (\<lambda>c. c\<lparr>fc_frontend := Some w', fc_cache := cache'\<rparr>) srv
           in if rc \<noteq> 0 then
                (OK, snd (fe_call (w_send_ready_for_query pw) i
                       (snd (fe_call (\<lambda>w. w_send_error_response pw w ''ERROR'' ''26000'' ''prepared statement cache full'') i srv1))))
              else (OK, srv1)))"

text \<open>One item of the queue. \<open>Inl\<close> leaves the loop with the function's result, \<open>Inr\<close> goes on.\<close>

definition drain_bind :: "'w pqwire \<Rightarrow> scram_crypto \<Rightarrow> 'w handler \<Rightarrow> feq_item \<Rightarrow> nat \<Rightarrow> 'w server \<Rightarrow>
    (int \<times> 'w server) + 'w server" where
  "drain_bind pw cr rel it i srv =
     (let ready = (sv_pool srv \<noteq> None \<and> fc_identity_ready (cn srv i));
          blocking = (\<lambda>srv.
            (if ready then
               (let (rc, out, srv1) = blocking_bind pw cr ((bind_of_item pw it)\<lparr>b_portal := []\<rparr>) i srv;
                    srv2 = (if rc = 0 then upd i (\<lambda>c. c\<lparr>fc_be_resp := out\<rparr>) srv1 else srv1)
                in Inr (snd (fe_call (w_send_bind_complete pw) i srv2)))
             else Inr (snd (fe_call (w_send_bind_complete pw) i srv))))
      in if ready \<and> sv_async srv then
           (let (rc, srv1) = start_async_bind_from_queue pw cr rel it i srv in
            if rc = 0 then Inl (drain_frontend_out pw i (upd i (\<lambda>c. c\<lparr>fc_draining := False\<rparr>) srv1))
            else if sv_fair srv1 \<and> q_count (fc_q (cn srv1 i)) < FE_Q_MAX then
              (let srv2 = upd i (\<lambda>c. c\<lparr>fc_q := feq_push_front (fc_q c) it\<rparr>) srv1;
                   srv3 = snd (park_for_backend i srv2)
               in Inl (drain_frontend_out pw i (upd i (\<lambda>c. c\<lparr>fc_draining := False\<rparr>) srv3)))
            else blocking srv1)
         else blocking srv)"

definition drain_item :: "'w pqwire \<Rightarrow> scram_crypto \<Rightarrow> 'w handler \<Rightarrow> feq_item \<Rightarrow> nat \<Rightarrow> 'w server \<Rightarrow>
    (int \<times> 'w server) + 'w server" where
  "drain_item pw cr rel it i srv =
     (case it_kind it of
        FEQ_PARSE \<Rightarrow> Inr (snd (frontend_parse pw (it_parse it) i srv))
      | FEQ_BIND \<Rightarrow> drain_bind pw cr rel it i srv
      | FEQ_EXECUTE \<Rightarrow>
          Inr (if sv_pool srv = None \<or> fc_be_resp (cn srv i) = []
               then snd (fe_call (\<lambda>w. w_send_command_complete pw w ''SELECT 0'') i srv) else srv)
      | FEQ_SYNC \<Rightarrow>
          Inr (if fc_be_resp (cn srv i) \<noteq> []
               then upd i (\<lambda>c. c\<lparr>fc_be_resp := []\<rparr>) (snd (queue_plain_send i (fc_be_resp (cn srv i)) srv))
               else snd (fe_call (w_send_ready_for_query pw) i srv))
      | FEQ_QUERY \<Rightarrow>
          Inr (if query_refused i srv
               then snd (fe_call (\<lambda>w. on_simple_query pw w (reject_simple_query (sv_cfg srv)) (it_query_sql it)) i srv)
               else
                 (let (rc, out, srv1) = blocking_query pw cr (it_query_sql it) i srv in
                  if rc = 0 \<and> out \<noteq> [] then snd (queue_plain_send i out srv1)
                  else snd (fe_call (w_send_ready_for_query pw) i
                         (snd (fe_call (\<lambda>w. w_send_error_response pw w ''ERROR'' ''08006'' ''simple Query backend forward failed'') i srv1)))))
      | FEQ_TERMINATE \<Rightarrow> Inr (upd i (\<lambda>c. c\<lparr>fc_state := CS_CLOSING\<rparr>) srv)
      | FEQ_NONE \<Rightarrow> Inr srv)"

text \<open>The loop takes at most as many items as the queue holds when it starts: nothing adds to the
  queue of a connection that is being drained.\<close>

primrec drain_loop :: "'w pqwire \<Rightarrow> scram_crypto \<Rightarrow> 'w handler \<Rightarrow> nat \<Rightarrow> nat \<Rightarrow> 'w server \<Rightarrow> int \<times> 'w server" where
  "drain_loop pw cr rel 0 i srv = drain_frontend_out pw i (upd i (\<lambda>c. c\<lparr>fc_draining := False\<rparr>) srv)"
| "drain_loop pw cr rel (Suc k) i srv =
     (case (if fc_be_wait (cn srv i) = BE_IDLE then feq_pop (fc_q (cn srv i)) else None) of
        None \<Rightarrow> drain_frontend_out pw i (upd i (\<lambda>c. c\<lparr>fc_draining := False\<rparr>) srv)
      | Some (it, q) \<Rightarrow>
          (case drain_item pw cr rel it i (upd i (\<lambda>c. c\<lparr>fc_q := q\<rparr>) srv) of
             Inl r \<Rightarrow> r
           | Inr srv1 \<Rightarrow> drain_loop pw cr rel k i srv1))"

definition drain_queue :: "'w pqwire \<Rightarrow> scram_crypto \<Rightarrow> 'w handler \<Rightarrow> 'w handler" where
  "drain_queue pw cr rel i srv =
     (if fc_draining (cn srv i) then (OK, srv)
      else drain_loop pw cr rel (q_count (fc_q (cn srv i))) i (upd i (\<lambda>c. c\<lparr>fc_draining := True\<rparr>) srv))"

section \<open>Fair scheduling\<close>

text \<open>One turn for the slot taken off the head of the ring: the number of pipelines started.\<close>

definition schedule_one :: "'w handler \<Rightarrow> nat \<Rightarrow> 'w server \<Rightarrow> nat \<times> 'w server" where
  "schedule_one drain slot srv =
     (if slot \<ge> MAX_CONNS then (0, srv)
      else if fc_state (cn srv slot) = CS_FREE \<or> fc_be_wait (cn srv slot) \<noteq> BE_WAITING_POOL then (0, srv)
      else
        (let srv1 = upd slot (\<lambda>c. c\<lparr>fc_be_wait := BE_IDLE\<rparr>) srv in
         if q_count (fc_q (cn srv slot)) = 0 then (0, srv1)
         else
           (let (rc, srv2) = drain slot srv1; wc = cn srv2 slot in
            if rc \<noteq> 0 then (0, srv2)
            else if fc_be_wait wc = BE_SENDING \<or> fc_be_wait wc = BE_READING then
              (1, count metrics_inc_fair_schedules srv2)
            else if fc_be_wait wc = BE_IDLE \<and> q_count (fc_q wc) > 0 then (0, snd (park_for_backend slot srv2))
            else (0, srv2))))"

primrec fair_loop :: "'w handler \<Rightarrow> nat \<Rightarrow> nat \<Rightarrow> 'w server \<Rightarrow> nat \<times> 'w server" where
  "fair_loop drain 0 started srv = (started, srv)"
| "fair_loop drain (Suc k) started srv =
     (case waiters_pop (sv_wait srv) of
        None \<Rightarrow> (started, srv)
      | Some (slot, r) \<Rightarrow>
          (let (n, srv1) = schedule_one drain slot
                 (count (metrics_set_pool_waiters (r_count r)) (srv\<lparr>sv_wait := r\<rparr>))
           in fair_loop drain k (started + n) srv1))"

definition schedule_waiters :: "'w handler \<Rightarrow> 'w server \<Rightarrow> nat \<times> 'w server" where
  "schedule_waiters drain srv =
     (if \<not> sv_fair srv \<or> sv_pool srv = None \<or> \<not> sv_async srv then (0, srv)
      else fair_loop drain (r_count (sv_wait srv)) 0 srv)"

text \<open>\<open>after_backend_release\<close> over the drain that it calls, and the closed circle.\<close>

definition release_step :: "'w pqwire \<Rightarrow> 'w handler \<Rightarrow> 'w handler" where
  "release_step pw drain i srv =
     (let srv1 = upd i (\<lambda>c. c\<lparr>fc_be_wait := BE_IDLE, fc_got_execute := False, fc_got_sync := False\<rparr>) srv;
          srv2 = (if sv_fair srv1 \<and> r_count (sv_wait srv1) > 0 then snd (schedule_waiters drain srv1) else srv1)
      in if fc_be_wait (cn srv2 i) = BE_IDLE \<and> q_count (fc_q (cn srv2 i)) > 0 then drain i srv2
         else drain_frontend_out pw i srv2)"

primrec release :: "'w pqwire \<Rightarrow> scram_crypto \<Rightarrow> nat \<Rightarrow> 'w handler" where
  "release pw cr 0 = (\<lambda>i srv. (ERR, srv))"
| "release pw cr (Suc k) = release_step pw (drain_queue pw cr (release pw cr k))"

definition after_backend_release :: "'w pqwire \<Rightarrow> scram_crypto \<Rightarrow> 'w handler" where
  "after_backend_release pw cr = release pw cr 257"

definition drain_fe_queue :: "'w pqwire \<Rightarrow> scram_crypto \<Rightarrow> 'w handler" where
  "drain_fe_queue pw cr = drain_queue pw cr (after_backend_release pw cr)"

definition fair_schedule_waiters :: "'w pqwire \<Rightarrow> scram_crypto \<Rightarrow> 'w server \<Rightarrow> nat \<times> 'w server" where
  "fair_schedule_waiters pw cr = schedule_waiters (drain_fe_queue pw cr)"

section \<open>Completions on a backend connection\<close>

text \<open>\<open>be\<close> of the frontend record, with the backend connection replaced in the pool.\<close>

definition set_be_conn :: "nat \<Rightarrow> 'w be_conn \<Rightarrow> 'w server \<Rightarrow> 'w server" where
  "set_be_conn b bc srv = srv\<lparr>sv_pool := map_option (set_conn b bc) (sv_pool srv)\<rparr>"

text \<open>A result of \<open>-EAGAIN\<close> (which is \<open>-EWOULDBLOCK\<close>) is -11.\<close>

definition on_be_send_cqe :: "'w pqwire \<Rightarrow> scram_crypto \<Rightarrow> int \<Rightarrow> 'w handler" where
  "on_be_send_cqe pw cr res i srv0 =
     (let srv = upd i (\<lambda>c. c\<lparr>fc_be_send_pending := False\<rparr>) srv0 in
      if res < 0 then
        (if res = - 11 then submit_be_send i srv else backend_async_fail pw cr (after_backend_release pw cr) i srv)
      else
        (case sv_be srv i of
           None \<Rightarrow> submit_be_send i srv
         | Some (b, p, bc) \<Rightarrow> submit_be_send i (set_be_conn b (async_send_advance bc (nat res)) srv)))"

text \<open>\<open>data\<close> are the bytes received; the end of the stream is the empty list.\<close>

definition on_be_recv_cqe :: "'w pqwire \<Rightarrow> scram_crypto \<Rightarrow> int \<Rightarrow> bytes \<Rightarrow> 'w handler" where
  "on_be_recv_cqe pw cr res data i srv0 =
     (let srv = upd i (\<lambda>c. c\<lparr>fc_be_recv_pending := False\<rparr>) srv0;
          fail = backend_async_fail pw cr (after_backend_release pw cr) i
      in if res \<le> 0 then fail srv
         else
           (case sv_be srv i of
              None \<Rightarrow> fail srv
            | Some (b, p, bc) \<Rightarrow>
                (let (rc, complete, bc', out) = async_on_recv pw bc data (fc_be_resp (cn srv i)) IO_BUF;
                     srv1 = upd i (\<lambda>c. c\<lparr>fc_be_resp := out\<rparr>) (set_be_conn b bc' srv)
                 in if rc \<noteq> 0 then fail srv1
                    else if complete then backend_async_complete pw cr (after_backend_release pw cr) i srv1
                    else submit_be_recv i srv1)))"

section \<open>Closing a connection\<close>

definition close_conn :: "'w pqwire \<Rightarrow> scram_crypto \<Rightarrow> nat \<Rightarrow> 'w server \<Rightarrow> 'w server" where
  "close_conn pw cr i srv =
     (if fc_state (cn srv i) = CS_FREE then srv
      else
        (let srv1 = sv_waiters_remove (fc_slot (cn srv i)) srv;
             srv2 = (if fc_be (cn srv1 i) \<noteq> None \<and> sv_pool srv1 \<noteq> None
                     then snd (fair_schedule_waiters pw cr (finish_be pw cr True i srv1)) else srv1)
         in count metrics_inc_closes
              (upd i (\<lambda>c. c\<lparr>fc_ssl := False, fc_frontend := None, fc_fd := - 1, fc_state := CS_FREE,
                 fc_send_pending := False, fc_recv_pending := False, fc_poll_pending := False,
                 fc_be_send_pending := False, fc_be_recv_pending := False, fc_be_wait := BE_IDLE,
                 fc_be_start_ns := 0, fc_q := feq_clear_all (fc_q c)\<rparr>) srv2)))"

end
