(* ===== verification/Server_Frontend.thy ===== *)
theory Server_Frontend
  imports Server_Backend
begin

text \<open>
  The frontend side of the event loop (src/iouring_loop.c): the handling of the protocol events of
  a client (\<open>process_frontend\<close>), the TLS connection (\<open>tls_on_handshake_done\<close>,
  \<open>tls_drive_read\<close>, \<open>tls_drive_write\<close>, \<open>on_tls_poll\<close>) and the acceptance of a connection.
\<close>

section \<open>Protocol events\<close>

definition queue_full_error :: "'w pqwire \<Rightarrow> 'w \<Rightarrow> int \<times> 'w" where
  "queue_full_error pw w = w_send_error_response pw w ''ERROR'' ''53300'' ''frontend request queue full''"

text \<open>A call whose failure ends the handler with -1.\<close>

definition must :: "int \<times> 'w server \<Rightarrow> int \<times> 'w server" where
  "must r = (case r of (rc, srv) \<Rightarrow> (if rc \<noteq> 0 then ERR else OK, srv))"

definition on_ev_startup :: "'w pqwire \<Rightarrow> 'w handler" where
  "on_ev_startup pw i srv =
     (let (rc, srv1) = fe_call (w_send_auth_ok pw) i srv in
      if rc \<noteq> 0 then (ERR, srv1) else must (fe_call (w_send_ready_for_query pw) i srv1))"

definition on_ev_parse :: "'w pqwire \<Rightarrow> pq_parse \<Rightarrow> 'w handler" where
  "on_ev_parse pw prs i srv =
     (if fc_be_wait (cn srv i) \<noteq> BE_IDLE then
        (let (rc, srv1) = on_queue (\<lambda>q. feq_push_parse q prs) i srv
         in (OK, if rc \<noteq> 0 then snd (fe_call (queue_full_error pw) i srv1) else srv1))
      else frontend_parse pw prs i srv)"

text \<open>The two ways a Bind can go when it cannot start asynchronously: a blocking round trip, or a
  BindComplete of the proxy's own.\<close>

definition bind_blocking :: "'w pqwire \<Rightarrow> scram_crypto \<Rightarrow> pq_bind \<Rightarrow> 'w handler" where
  "bind_blocking pw cr b i srv =
     (if sv_pool srv \<noteq> None \<and> fc_identity_ready (cn srv i) then
        (let (rc, out, srv1) = blocking_bind pw cr b i srv;
             srv2 = (if rc = 0 then upd i (\<lambda>c. c\<lparr>fc_be_resp := out\<rparr>) srv1 else srv1)
         in must (fe_call (w_send_bind_complete pw) i srv2))
      else must (fe_call (w_send_bind_complete pw) i srv))"

definition on_ev_bind :: "'w pqwire \<Rightarrow> scram_crypto \<Rightarrow> pq_bind \<Rightarrow> 'w handler" where
  "on_ev_bind pw cr b i srv0 =
     (if fc_be_wait (cn srv0 i) \<noteq> BE_IDLE then
        (let (rc, srv1) = on_queue (\<lambda>q. feq_push_bind pw q b) i srv0
         in (OK, if rc \<noteq> 0 then snd (fe_call (w_send_ready_for_query pw) i (snd (fe_call (queue_full_error pw) i srv1)))
                 else srv1))
      else
        (let srv = upd i (\<lambda>c. c\<lparr>fc_be_resp := [], fc_got_execute := False, fc_got_sync := False\<rparr>) srv0 in
         if sv_pool srv \<noteq> None \<and> fc_identity_ready (cn srv i) \<and> sv_async srv then
           (let (rc, srv1) = start_async_bind_from_event pw cr (after_backend_release pw cr) b i srv in
            if rc = 0 then (OK, srv1)
            else if sv_fair srv1 then
              (let (rc2, srv2) = on_queue (\<lambda>q. feq_push_bind pw q b) i srv1 in
               if rc2 = 0 then
                 (let (rc3, srv3) = park_for_backend i srv2 in
                  if rc3 = 0 then (OK, srv3) else bind_blocking pw cr b i srv3)
               else bind_blocking pw cr b i srv2)
            else bind_blocking pw cr b i srv1)
         else bind_blocking pw cr b i srv))"

definition on_ev_execute :: "'w pqwire \<Rightarrow> 'w handler" where
  "on_ev_execute pw i srv =
     (if fc_be_wait (cn srv i) \<noteq> BE_IDLE then
        (let (rc, srv1) = on_queue (\<lambda>q. feq_push q (feq_zero\<lparr>it_kind := FEQ_EXECUTE\<rparr>)) i srv
         in (OK, if rc \<noteq> 0 then upd i (\<lambda>c. c\<lparr>fc_got_execute := True\<rparr>) srv1 else srv1))
      else if sv_pool srv = None \<or> fc_be_resp (cn srv i) = [] then
        must (fe_call (\<lambda>w. w_send_command_complete pw w ''SELECT 0'') i srv)
      else (OK, srv))"

definition on_ev_sync :: "'w pqwire \<Rightarrow> 'w handler" where
  "on_ev_sync pw i srv =
     (if fc_be_wait (cn srv i) \<noteq> BE_IDLE then
        (OK, upd i (\<lambda>c. c\<lparr>fc_got_sync := True\<rparr>)
               (snd (on_queue (\<lambda>q. feq_push q (feq_zero\<lparr>it_kind := FEQ_SYNC\<rparr>)) i srv)))
      else if fc_be_resp (cn srv i) \<noteq> [] then
        (let (rc, srv1) = queue_plain_send i (fc_be_resp (cn srv i)) srv
         in if rc \<noteq> 0 then (ERR, srv1) else (OK, upd i (\<lambda>c. c\<lparr>fc_be_resp := []\<rparr>) srv1))
      else must (fe_call (w_send_ready_for_query pw) i srv))"

definition on_ev_query :: "'w pqwire \<Rightarrow> scram_crypto \<Rightarrow> string option \<Rightarrow> 'w handler" where
  "on_ev_query pw cr sql i srv =
     (if fc_be_wait (cn srv i) \<noteq> BE_IDLE then
        (let it = feq_zero\<lparr>it_kind := FEQ_QUERY,
                 it_query_sql := (case sql of None \<Rightarrow> [] | Some s \<Rightarrow> strncpy_arr (max_query_len pw) s)\<rparr>;
             (rc, srv1) = on_queue (\<lambda>q. feq_push q it) i srv
         in (OK, if rc \<noteq> 0 then snd (fe_call (w_send_ready_for_query pw) i (snd (fe_call (queue_full_error pw) i srv1)))
                 else srv1))
      else if query_refused i srv then
        must (fe_call (\<lambda>w. on_simple_query pw w (reject_simple_query (sv_cfg srv)) (case sql of None \<Rightarrow> [] | Some s \<Rightarrow> s)) i srv)
      else
        (let (rc, out, srv1) = blocking_query pw cr (case sql of None \<Rightarrow> [] | Some s \<Rightarrow> s) i srv in
         if rc = 0 \<and> out \<noteq> [] then must (queue_plain_send i out srv1) else send_query_error pw i srv1))"

definition on_event :: "'w pqwire \<Rightarrow> scram_crypto \<Rightarrow> protocol_event \<Rightarrow> 'w handler" where
  "on_event pw cr ev i srv =
     (case ev of
        EvStartup \<Rightarrow> on_ev_startup pw i srv
      | EvParse prs \<Rightarrow> on_ev_parse pw prs i srv
      | EvBind b \<Rightarrow> on_ev_bind pw cr b i srv
      | EvExecute \<Rightarrow> on_ev_execute pw i srv
      | EvSync \<Rightarrow> on_ev_sync pw i srv
      | EvTerminate \<Rightarrow> (OK, upd i (\<lambda>c. c\<lparr>fc_state := CS_CLOSING\<rparr>) srv)
      | EvQuery sql \<Rightarrow> on_ev_query pw cr sql i srv
      | _ \<Rightarrow> (OK, srv))"

text \<open>The loop over the events; the fuel is the number of complete events that the context holds.\<close>

fun event_loop :: "'w pqwire \<Rightarrow> scram_crypto \<Rightarrow> nat \<Rightarrow> 'w handler" where
  "event_loop pw cr 0 i srv = drain_frontend_out pw i srv"
| "event_loop pw cr (Suc k) i srv =
     (case fc_frontend (cn srv i) of
        None \<Rightarrow> drain_frontend_out pw i srv
      | Some w \<Rightarrow>
          (case w_next_event pw w of
             None \<Rightarrow> drain_frontend_out pw i srv
           | Some (ev, w') \<Rightarrow>
               (let (rc, srv1) = on_event pw cr ev i (upd i (\<lambda>c. c\<lparr>fc_frontend := Some w'\<rparr>) srv) in
                if rc \<noteq> 0 then (ERR, srv1) else event_loop pw cr k i srv1)))"

definition process_frontend :: "'w pqwire \<Rightarrow> scram_crypto \<Rightarrow> 'w handler" where
  "process_frontend pw cr i srv =
     (case fc_frontend (cn srv i) of
        None \<Rightarrow> drain_frontend_out pw i srv
      | Some w \<Rightarrow> event_loop pw cr (w_n_events pw w) i srv)"

definition feed_plain :: "'w pqwire \<Rightarrow> scram_crypto \<Rightarrow> bytes \<Rightarrow> 'w handler" where
  "feed_plain pw cr data i srv =
     (if data = [] then (OK, srv)
      else process_frontend pw cr i (upd i (\<lambda>c. c\<lparr>fc_frontend := map_option (\<lambda>w. w_feed_input pw w data) (fc_frontend c)\<rparr>) srv))"

definition on_recv_plain :: "'w pqwire \<Rightarrow> scram_crypto \<Rightarrow> bytes \<Rightarrow> 'w handler" where
  "on_recv_plain pw cr data i srv =
     (if data = [] then (OK, upd i (\<lambda>c. c\<lparr>fc_state := CS_CLOSING\<rparr>) srv) else feed_plain pw cr data i srv)"

section \<open>TLS\<close>

text \<open>Each call takes the head of the script; a script that does not fit is an error of the call. A read
  gives at most a buffer, a write takes at most the bytes it is given.\<close>

definition tls_handshake :: "'w server \<Rightarrow> int \<times> bool \<times> 'w server" where
  "tls_handshake srv =
     (case sv_ssl srv of
        THandshake fin ret err again # s \<Rightarrow> (handshake_rc fin ret err, again = SslWantWrite, srv\<lparr>sv_ssl := s\<rparr>)
      | _ \<Rightarrow> (- 1, False, srv))"

text \<open>\<open>pqproxy_tls_identity\<close> on the identity of the connection, with its result code: without a certificate
  the identity stays, a certificate that cannot be read leaves a cleared one with slot 0.\<close>

definition tls_identity :: "identity \<Rightarrow> 'w server \<Rightarrow> int \<times> identity \<times> 'w server" where
  "tls_identity old srv =
     (case sv_ssl srv of
        TIdentity None # s \<Rightarrow> (ERR, old, srv\<lparr>sv_ssl := s\<rparr>)
      | TIdentity (Some x) # s \<Rightarrow>
          (case peer_identity x (Some ()) of
             None \<Rightarrow> (ERR, identity_clear\<lparr>identity_slot := 0\<rparr>, srv\<lparr>sv_ssl := s\<rparr>)
           | Some ident \<Rightarrow> (OK, ident, srv\<lparr>sv_ssl := s\<rparr>))
      | _ \<Rightarrow> (ERR, old, srv))"

definition tls_read_plain :: "'w server \<Rightarrow> int \<times> bytes \<times> 'w server" where
  "tls_read_plain srv =
     (case sv_ssl srv of
        TRead d err # s \<Rightarrow> (let (rc, data) = read_plain_rc IO_BUF d err in (rc, data, srv\<lparr>sv_ssl := s\<rparr>))
      | _ \<Rightarrow> (- 1, [], srv))"

definition tls_write_plain :: "nat \<Rightarrow> 'w server \<Rightarrow> int \<times> nat \<times> 'w server" where
  "tls_write_plain len srv =
     (case sv_ssl srv of
        TWrite n err # s \<Rightarrow> (let (rc, wr) = write_plain_rc len n err in (rc, wr, srv\<lparr>sv_ssl := s\<rparr>))
      | _ \<Rightarrow> (- 1, 0, srv))"

definition ktls_query :: "'w server \<Rightarrow> bool \<times> 'w server" where
  "ktls_query srv = (case sv_ssl srv of TKtls tx rx # s \<Rightarrow> (ktls_on tx rx, srv\<lparr>sv_ssl := s\<rparr>) | _ \<Rightarrow> (False, srv))"

text \<open>The identity of the peer, with the configured slot.\<close>

definition with_identity :: "identity \<Rightarrow> nat \<Rightarrow> 'w server \<Rightarrow> 'w server" where
  "with_identity ident i srv =
     upd i (\<lambda>c. c\<lparr>fc_id := ident\<lparr>identity_slot := cfg_identity_slot (sv_cfg srv)\<rparr>, fc_identity_ready := True\<rparr>) srv"

definition tls_on_handshake_done :: "'w handler" where
  "tls_on_handshake_done i srv =
     (let (on, srv1) = ktls_query (upd i (\<lambda>c. c\<lparr>fc_state := CS_ACTIVE\<rparr>) srv);
          srv2 = upd i (\<lambda>c. c\<lparr>fc_ktls_on := on\<rparr>) srv1;
          (rc, ident, srv3) = tls_identity (fc_id (cn srv2 i)) srv2
      in if rc = 0 then (OK, with_identity ident i srv3)
         else (if require_mtls (sv_cfg srv3) then ERR else OK, upd i (\<lambda>c. c\<lparr>fc_id := ident\<rparr>) srv3))"

text \<open>The fuel of the two loops is the length of the script.\<close>

fun tls_write_loop :: "nat \<Rightarrow> 'w handler" where
  "tls_write_loop 0 i srv = (ERR, srv)"
| "tls_write_loop (Suc k) i srv =
     (let c = cn srv i in
      if fc_send_off c < length (fc_send c) then
        (let (rc, wr, srv1) = tls_write_plain (length (fc_send c) - fc_send_off c) srv in
         if rc < 0 then (ERR, srv1)
         else if rc = 0 then (OK, upd i (\<lambda>c. c\<lparr>fc_want_poll_out := True\<rparr>) srv1)
         else
           (let srv2 = upd i (\<lambda>c. c\<lparr>fc_send_off := fc_send_off c + wr\<rparr>) srv1;
                (on, srv3) = (if fc_ktls_on (cn srv2 i) then (True, srv2) else ktls_query srv2)
            in tls_write_loop k i (upd i (\<lambda>c. c\<lparr>fc_ktls_on := on\<rparr>) srv3)))
      else (OK, upd i (\<lambda>c. c\<lparr>fc_send := [], fc_send_off := 0, fc_want_poll_out := False\<rparr>) srv))"

definition tls_drive_write :: "'w handler" where
  "tls_drive_write i srv = tls_write_loop (Suc (length (sv_ssl srv))) i srv"

fun tls_read_loop :: "'w pqwire \<Rightarrow> scram_crypto \<Rightarrow> nat \<Rightarrow> 'w handler" where
  "tls_read_loop pw cr 0 i srv = (ERR, srv)"
| "tls_read_loop pw cr (Suc k) i srv =
     (let (rc, data, srv1) = tls_read_plain srv in
      if rc = 1 \<and> data \<noteq> [] then
        (let (rc2, srv2) = feed_plain pw cr data i srv1 in
         if rc2 \<noteq> 0 then (ERR, srv2) else tls_read_loop pw cr k i srv2)
      else if rc = - 2 then (OK, upd i (\<lambda>c. c\<lparr>fc_state := CS_CLOSING\<rparr>) srv1)
      else if rc < 0 then (ERR, srv1)
      else (OK, srv1))"

definition tls_drive_read :: "'w pqwire \<Rightarrow> scram_crypto \<Rightarrow> 'w handler" where
  "tls_drive_read pw cr i srv = tls_read_loop pw cr (Suc (length (sv_ssl srv))) i srv"

text \<open>The events of a poll: an error or hang-up, writable, readable.\<close>

record poll_events =
  pe_error :: bool
  pe_out :: bool
  pe_in :: bool

text \<open>The reading and writing part of \<open>on_tls_poll\<close>.\<close>

definition tls_transfer :: "'w pqwire \<Rightarrow> scram_crypto \<Rightarrow> poll_events \<Rightarrow> 'w handler" where
  "tls_transfer pw cr ev i srv =
     (let (rc1, srv1) = (if pe_out ev then tls_drive_write i srv else (OK, srv)) in
      if rc1 \<noteq> 0 then (ERR, srv1)
      else
        (let (rc2, srv2) = (if pe_in ev then tls_drive_read pw cr i srv1 else (OK, srv1)) in
         if rc2 \<noteq> 0 then (ERR, srv2)
         else
           (let (rc3, srv3) = (if length (fc_send (cn srv2 i)) > fc_send_off (cn srv2 i)
                               then tls_drive_write i srv2 else (OK, srv2))
            in if rc3 \<noteq> 0 then (ERR, srv3)
               else if fc_state (cn srv3 i) = CS_CLOSING \<and> fc_send (cn srv3 i) = [] then (ERR, srv3)
               else submit_poll i srv3)))"

definition on_tls_poll :: "'w pqwire \<Rightarrow> scram_crypto \<Rightarrow> poll_events \<Rightarrow> 'w handler" where
  "on_tls_poll pw cr ev i srv =
     (if pe_error ev then (ERR, srv)
      else if fc_state (cn srv i) = CS_TLS_HS then
        (let (rc, ww, srv1) = tls_handshake srv in
         if rc < 0 then (ERR, srv1)
         else if rc = 0 then submit_poll i (upd i (\<lambda>c. c\<lparr>fc_want_poll_out := ww\<rparr>) srv1)
         else
           (let (rc2, srv2) = tls_on_handshake_done i srv1 in
            if rc2 \<noteq> 0 then (ERR, srv2) else tls_transfer pw cr ev i srv2))
      else tls_transfer pw cr ev i srv)"

section \<open>Accepting a connection\<close>

text \<open>The two kinds of connection; when setting one up fails, it is closed. \<open>zc\<close>: the socket takes
  zero-copy sends; \<open>ssl_ok\<close>: OpenSSL has given a connection.\<close>

definition accept_tls :: "bool \<Rightarrow> 'w handler" where
  "accept_tls ssl_ok i srv =
     (if \<not> tls_conn_new_fd (sv_tls srv) (fc_fd (cn srv i)) ssl_ok then (ERR, srv)
      else
        (let (rc, ww, srv1) = tls_handshake (upd i (\<lambda>c. c\<lparr>fc_ssl := True, fc_state := CS_TLS_HS\<rparr>) srv);
             (rc1, srv2) = (if rc = 1 then tls_on_handshake_done i srv1
                            else if rc < 0 then (ERR, srv1) else (OK, srv1))
         in if rc1 \<noteq> 0 then (ERR, srv2) else submit_poll i srv2))"

definition accept_plain :: "'w handler" where
  "accept_plain i srv =
     submit_recv i
       (with_identity (identity_from_cert_subject ''plain-dev:default'') i (upd i (\<lambda>c. c\<lparr>fc_state := CS_ACTIVE\<rparr>) srv))"

definition accept_setup :: "'w pqwire \<Rightarrow> bool \<Rightarrow> 'w handler" where
  "accept_setup pw ssl_ok i srv =
     (case w_create_server pw of
        None \<Rightarrow> (ERR, srv)
      | Some w \<Rightarrow>
          (let srv1 = upd i (\<lambda>c. c\<lparr>fc_frontend := Some w\<rparr>) srv
           in if sv_tls srv1 \<noteq> None then accept_tls ssl_ok i srv1 else accept_plain i srv1))"

definition accept_one :: "'w pqwire \<Rightarrow> scram_crypto \<Rightarrow> int \<Rightarrow> bool \<Rightarrow> bool \<Rightarrow> 'w server \<Rightarrow> int \<times> 'w server" where
  "accept_one pw cr fd zc ssl_ok srv =
     (if fd < 0 then (ERR, srv)
      else
        (case alloc_conn srv of
           None \<Rightarrow> (OK, srv)
         | Some (i, srv1) \<Rightarrow>
             (let (rc, srv2) = accept_setup pw ssl_ok i
                    (upd i (\<lambda>c. c\<lparr>fc_fd := fd, fc_zerocopy_ok := (msg_zerocopy (sv_cfg srv1) \<and> zc)\<rparr>)
                      (count metrics_inc_accepts srv1))
              in if rc \<noteq> 0 then (ERR, close_conn pw cr i srv2) else (OK, srv2))))"

end
