(* ===== verification/Server_Run.thy ===== *)
theory Server_Run
  imports Server_Frontend
begin

text \<open>
  The run of the event loop (src/iouring_loop.c): the periodic work (\<open>server_tick\<close>), the
  dispatch of a completion, the start and the end of \<open>pqproxy_run\<close>, and its loop as a step
  relation. A turn of the loop waits for a completion of one of the submissions in flight; which
  one, its result and the received bytes are the kernel's choice. Between two turns the clock
  moves and the outcomes of the system calls and of OpenSSL are arbitrary.
\<close>

section \<open>The periodic work\<close>

text \<open>The difference of the clock readings is at 64 bits; an interval that is not positive is off.\<close>

definition interval_over :: "int \<Rightarrow> u64 \<Rightarrow> u64 \<Rightarrow> bool" where
  "interval_over interval since now \<longleftrightarrow> interval > 0 \<and> word_of_int interval \<le> now - since"

definition tick_maintain :: "'w pqwire \<Rightarrow> scram_crypto \<Rightarrow> 'w server \<Rightarrow> 'w server" where
  "tick_maintain pw cr srv =
     (case sv_pool srv of
        None \<Rightarrow> srv
      | Some p \<Rightarrow>
          if interval_over (maintain_interval_ms (sv_cfg srv)) (sv_last_maintain_ms srv) (mono_ms srv) then
            (let (n, p', w') = pool_maintain pw cr p (sv_world srv)
             in (set_pool p' w' srv)\<lparr>sv_last_maintain_ms := mono_ms srv\<rparr>)
          else srv)"

text \<open>The gauges and, as a result, the line that goes to the standard error.\<close>

definition tick_metrics :: "'w server \<Rightarrow> string option \<times> 'w server" where
  "tick_metrics srv =
     (if interval_over (metrics_log_interval_ms (sv_cfg srv)) (sv_last_metrics_ms srv) (mono_ms srv) then
        (let live = (case sv_pool srv of None \<Rightarrow> 0 | Some p \<Rightarrow> live_count p);
             srv1 = count (metrics_set_gauges live (count_active_frontends srv)) srv;
             m = w_metrics (sv_world srv1)
         in (Some (if log_json (sv_cfg srv) then metrics_format_json m 768 else metrics_format m 768),
             srv1\<lparr>sv_last_metrics_ms := mono_ms srv\<rparr>))
      else (None, srv))"

definition server_tick :: "'w pqwire \<Rightarrow> scram_crypto \<Rightarrow> 'w server \<Rightarrow> string option \<times> 'w server" where
  "server_tick pw cr srv = tick_metrics (tick_maintain pw cr srv)"

text \<open>How long a turn waits at most.\<close>

definition wait_ms :: "config \<Rightarrow> int" where
  "wait_ms cfg =
     (let w0 = 1000;
          w1 = (if maintain_interval_ms cfg > 0 \<and> maintain_interval_ms cfg < w0 then maintain_interval_ms cfg else w0);
          w2 = (if metrics_log_interval_ms cfg > 0 \<and> metrics_log_interval_ms cfg < w1 then metrics_log_interval_ms cfg else w1)
      in if w2 < 100 then 100 else w2)"

section \<open>Completions\<close>

text \<open>A completion: its user data and result, the bytes that a receive has put into the buffer of
  its slot, and for an accept what the socket and OpenSSL answer.\<close>

record cqe =
  cq_ud :: "64 word"
  cq_res :: int
  cq_data :: bytes
  cq_zc :: bool
  cq_ssl_ok :: bool

definition close_if :: "'w pqwire \<Rightarrow> scram_crypto \<Rightarrow> nat \<Rightarrow> int \<times> 'w server \<Rightarrow> 'w server" where
  "close_if pw cr i r = (case r of (rc, srv) \<Rightarrow> if rc \<noteq> 0 then close_conn pw cr i srv else srv)"

definition on_recv_cqe :: "'w pqwire \<Rightarrow> scram_crypto \<Rightarrow> int \<Rightarrow> bytes \<Rightarrow> nat \<Rightarrow> 'w server \<Rightarrow> 'w server" where
  "on_recv_cqe pw cr res data i srv0 =
     (let srv = upd i (\<lambda>c. c\<lparr>fc_recv_pending := False\<rparr>) srv0 in
      if res < 0 then close_conn pw cr i srv
      else
        (let (rc, srv1) = on_recv_plain pw cr (take (nat res) data) i srv in
         if rc \<noteq> 0 \<or> fc_state (cn srv1 i) = CS_CLOSING then close_conn pw cr i srv1
         else close_if pw cr i (submit_recv i srv1)))"

definition on_send_cqe :: "'w pqwire \<Rightarrow> scram_crypto \<Rightarrow> int \<Rightarrow> nat \<Rightarrow> 'w server \<Rightarrow> 'w server" where
  "on_send_cqe pw cr res i srv0 =
     (let srv = upd i (\<lambda>c. c\<lparr>fc_send_pending := False\<rparr>) srv0 in
      if res < 0 then close_conn pw cr i srv
      else
        (let srv1 = upd i (\<lambda>c. c\<lparr>fc_send_off := fc_send_off c + nat res\<rparr>) srv;
             srv2 = (if fc_send_off (cn srv1 i) \<ge> length (fc_send (cn srv1 i))
                     then upd i (\<lambda>c. c\<lparr>fc_send := [], fc_send_off := 0\<rparr>) srv1
                     else snd (submit_send i srv1))
         in if fc_state (cn srv2 i) = CS_CLOSING \<and> fc_send (cn srv2 i) = [] then close_conn pw cr i srv2 else srv2))"

text \<open>The result of a poll is the mask of its events.\<close>

definition poll_of :: "int \<Rightarrow> poll_events" where
  "poll_of res = \<lparr>pe_error = bit res 3 \<or> bit res 4 \<or> bit res 5, pe_out = bit res 2, pe_in = bit res 0\<rparr>"

definition on_poll_cqe :: "'w pqwire \<Rightarrow> scram_crypto \<Rightarrow> int \<Rightarrow> nat \<Rightarrow> 'w server \<Rightarrow> 'w server" where
  "on_poll_cqe pw cr res i srv0 =
     (let srv = upd i (\<lambda>c. c\<lparr>fc_poll_pending := False\<rparr>) srv0 in
      if res < 0 then close_conn pw cr i srv else close_if pw cr i (on_tls_poll pw cr (poll_of res) i srv))"

definition on_accept_cqe :: "'w pqwire \<Rightarrow> scram_crypto \<Rightarrow> cqe \<Rightarrow> 'w server \<Rightarrow> 'w server" where
  "on_accept_cqe pw cr q srv =
     snd (submit_accept
       (if cq_res q \<ge> 0 then snd (accept_one pw cr (cq_res q) (cq_zc q) (cq_ssl_ok q) srv) else srv))"

text \<open>The handlers of a frontend run on a slot that is in use, those of a backend where a pipeline runs.\<close>

definition on_slot :: "32 word \<Rightarrow> ('w fconn \<Rightarrow> bool) \<Rightarrow> (nat \<Rightarrow> 'w server \<Rightarrow> 'w server) \<Rightarrow> 'w server \<Rightarrow> 'w server" where
  "on_slot slot P f srv =
     (if unat slot < MAX_CONNS \<and> fc_state (cn srv (unat slot)) \<noteq> CS_FREE \<and> P (cn srv (unat slot))
      then f (unat slot) srv else srv)"

definition dispatch :: "'w pqwire \<Rightarrow> scram_crypto \<Rightarrow> cqe \<Rightarrow> 'w server \<Rightarrow> 'w server" where
  "dispatch pw cr q srv =
     (let (opc, slot) = unpack_ud (cq_ud q); any = (\<lambda>_. True); has_be = (\<lambda>c. fc_be c \<noteq> None) in
      if opc = op_code OP_ACCEPT then on_accept_cqe pw cr q srv
      else if opc = op_code OP_RECV then on_slot slot any (on_recv_cqe pw cr (cq_res q) (cq_data q)) srv
      else if opc = op_code OP_SEND then on_slot slot any (on_send_cqe pw cr (cq_res q)) srv
      else if opc = op_code OP_POLL then on_slot slot any (on_poll_cqe pw cr (cq_res q)) srv
      else if opc = op_code OP_BE_SEND then
        on_slot slot has_be (\<lambda>i s. close_if pw cr i (on_be_send_cqe pw cr (cq_res q) i s)) srv
      else if opc = op_code OP_BE_RECV then
        on_slot slot has_be (\<lambda>i s. close_if pw cr i (on_be_recv_cqe pw cr (cq_res q) (cq_data q) i s)) srv
      else srv)"

text \<open>\<open>io_uring_submit\<close>: the submissions are in flight from now on.\<close>

definition uring_submit :: "'w server \<Rightarrow> 'w server" where
  "uring_submit srv = srv\<lparr>sv_flight := sv_flight srv @ sv_sq srv, sv_sq := []\<rparr>"

section \<open>Start and end\<close>

definition or_default :: "string \<Rightarrow> string option \<Rightarrow> string" where
  "or_default d x = (case x of None \<Rightarrow> d | Some s \<Rightarrow> s)"

definition backend_config_of :: "config \<Rightarrow> be_config" where
  "backend_config_of cfg = backend_config_defaults\<lparr>
     cf_host := or_default [] (backend_host cfg),
     cf_port := (if backend_port cfg \<noteq> 0 then backend_port cfg else 5432),
     cf_user := or_default ''postgres'' (backend_user cfg),
     cf_password := or_default [] (backend_password cfg),
     cf_database := or_default ''postgres'' (backend_database cfg),
     cf_use_group_as_user := backend_use_group_as_user cfg,
     cf_groups := or_default [] (backend_groups cfg),
     cf_lazy_group_connect := backend_lazy_group cfg,
     cf_pool_size := (if backend_pool_size cfg \<noteq> 0 then backend_pool_size cfg else 4),
     cf_quiet := quiet cfg\<rparr>"

text \<open>The listening socket: what \<open>socket\<close> gives, whether its option can be set, whether a host is an
  address, and whether \<open>bind\<close>, \<open>listen\<close> and the two calls of \<open>fcntl\<close> succeed.\<close>

record listen_env =
  le_socket :: int
  le_reuse :: bool
  le_pton :: "string \<Rightarrow> bool"
  le_bind :: bool
  le_listen :: bool
  le_getfl :: bool
  le_setfl :: bool

text \<open>The descriptor with the host and the port it is bound to; \<open>None\<close> for the host is any address. On a
  failure the descriptor is closed.\<close>

definition create_listen_socket :: "listen_env \<Rightarrow> config \<Rightarrow> (int \<times> string option \<times> nat) option" where
  "create_listen_socket le cfg =
     (let addr = (case listen_host cfg of None \<Rightarrow> None | Some h \<Rightarrow> if h = ''0.0.0.0'' then None else Some h) in
      if le_socket le < 0 then None
      else if \<not> le_reuse le then None
      else if addr \<noteq> None \<and> \<not> le_pton le (the addr) then None
      else if \<not> le_bind le then None
      else if \<not> le_listen le then None
      else if \<not> (le_getfl le \<and> le_setfl le) then None
      else Some (le_socket le, addr, listen_port cfg))"

text \<open>What the outside answers at the start: OpenSSL, whether a socket of the pool can be made
  non-blocking, the listening socket, the ring.\<close>

record start_env =
  en_ssl :: ssl_lib
  en_fcntl :: "int \<Rightarrow> bool"
  en_listen :: listen_env
  en_uring_ok :: bool

definition server_zero :: "config \<Rightarrow> u64 \<Rightarrow> world \<Rightarrow> tls_res list \<Rightarrow> 'w server" where
  "server_zero cfg now w ssl = \<lparr>sv_cfg = cfg, sv_tls = None, sv_pool = None, sv_async = False, sv_fair = fair_schedule cfg,
     sv_conns = replicate MAX_CONNS fconn_zero, sv_last_maintain_ms = 0, sv_last_metrics_ms = 0, sv_wait = wait_empty,
     sv_now_ns = now, sv_world = w, sv_ssl = ssl, sv_sq = [], sv_flight = []\<rparr>"

definition start_pool :: "'w pqwire \<Rightarrow> scram_crypto \<Rightarrow> start_env \<Rightarrow> 'w server \<Rightarrow> 'w server" where
  "start_pool pw cr en srv =
     (if backend_host (sv_cfg srv) = None \<or> backend_host (sv_cfg srv) = Some [] then srv
      else
        (let (p, w') = pool_create pw cr (backend_config_of (sv_cfg srv)) (sv_world srv)
         in srv\<lparr>sv_pool := p, sv_world := w', sv_async := (case p of None \<Rightarrow> False | Some po \<Rightarrow> pool_set_nonblock (en_fcntl en) po = 0)\<rparr>))"

text \<open>The server at the head of its loop; \<open>None\<close> when it returns 1.\<close>

definition server_start :: "'w pqwire \<Rightarrow> scram_crypto \<Rightarrow> start_env \<Rightarrow> config \<Rightarrow> u64 \<Rightarrow> world \<Rightarrow> tls_res list \<Rightarrow>
    'w server option" where
  "server_start pw cr en cfg now w ssl =
     (let tls = (if plain_mode cfg then None else tls_ctx_create (en_ssl en) cfg) in
      if \<not> plain_mode cfg \<and> tls = None then None
      else
        (let srv1 = start_pool pw cr en ((server_zero cfg now w ssl)\<lparr>sv_tls := tls\<rparr>) in
         if create_listen_socket (en_listen en) cfg = None then None
         else if \<not> en_uring_ok en then None
         else
           (let (rc, srv2) = submit_accept srv1 in
            if rc \<noteq> 0 then None
            else Some ((uring_submit srv2)\<lparr>sv_last_maintain_ms := mono_ms srv2, sv_last_metrics_ms := mono_ms srv2\<rparr>))))"

text \<open>The end of the loop: every connection is closed, then the ring and the pool are given up. The
  result has the descriptors of the pool that are closed.\<close>

definition server_shutdown :: "'w pqwire \<Rightarrow> scram_crypto \<Rightarrow> 'w server \<Rightarrow> 'w server \<times> int list" where
  "server_shutdown pw cr srv =
     (let srv1 = fold (close_conn pw cr) [0..<MAX_CONNS] srv
      in (srv1\<lparr>sv_pool := None, sv_tls := None, sv_sq := [], sv_flight := []\<rparr>,
          case sv_pool srv1 of None \<Rightarrow> [] | Some p \<Rightarrow> pool_destroy p))"

section \<open>The loop\<close>

text \<open>What ends the wait of a turn: the time, a signal, or the completion of the \<open>k\<close>-th submission
  in flight.\<close>

datatype wake = WTimeout | WIntr | WDone nat cqe

definition take_flight :: "nat \<Rightarrow> 'w server \<Rightarrow> 'w server" where
  "take_flight k srv = srv\<lparr>sv_flight := take k (sv_flight srv) @ drop (Suc k) (sv_flight srv)\<rparr>"

primrec loop_turn :: "'w pqwire \<Rightarrow> scram_crypto \<Rightarrow> wake \<Rightarrow> 'w server \<Rightarrow> 'w server" where
  "loop_turn pw cr WTimeout srv = snd (server_tick pw cr srv)"
| "loop_turn pw cr WIntr srv = srv"
| "loop_turn pw cr (WDone k q) srv = uring_submit (dispatch pw cr q (snd (server_tick pw cr (take_flight k srv))))"

text \<open>A completion belongs to a submission; a send takes at most its bytes and a receive fills at
  most its buffer.\<close>

definition completes :: "cqe \<Rightarrow> sub \<Rightarrow> bool" where
  "completes q s \<longleftrightarrow> cq_ud q = su_ud s \<and>
     (let opc = fst (unpack_ud (su_ud s)) in
      if opc = op_code OP_RECV \<or> opc = op_code OP_BE_RECV then
        cq_res q < 0 \<or> length (cq_data q) = nat (cq_res q) \<and> length (cq_data q) \<le> IO_BUF
      else if opc = op_code OP_SEND \<or> opc = op_code OP_BE_SEND then cq_res q \<le> int (length (su_data s))
      else True)"

definition set_env :: "u64 \<Rightarrow> io list \<Rightarrow> tls_res list \<Rightarrow> 'w server \<Rightarrow> 'w server" where
  "set_env now ios ssl srv =
     srv\<lparr>sv_now_ns := now, sv_ssl := ssl, sv_world := (sv_world srv)\<lparr>w_io := ios\<rparr>\<rparr>"

inductive server_step :: "'w pqwire \<Rightarrow> scram_crypto \<Rightarrow> 'w server \<Rightarrow> 'w server \<Rightarrow> bool" for pw cr where
  time_over: "server_step pw cr srv (loop_turn pw cr WTimeout (set_env now ios ssl srv))"
| interrupted: "server_step pw cr srv (loop_turn pw cr WIntr (set_env now ios ssl srv))"
| completion: "k < length (sv_flight srv) \<Longrightarrow> completes q (sv_flight srv ! k) \<Longrightarrow>
    server_step pw cr srv (loop_turn pw cr (WDone k q) (set_env now ios ssl srv))"

inductive reachable :: "'w pqwire \<Rightarrow> scram_crypto \<Rightarrow> config \<Rightarrow> 'w server \<Rightarrow> bool" for pw cr cfg where
  start: "server_start pw cr en cfg now w ssl = Some srv \<Longrightarrow> reachable pw cr cfg srv"
| step: "reachable pw cr cfg srv \<Longrightarrow> server_step pw cr srv srv' \<Longrightarrow> reachable pw cr cfg srv'"

end
