(* ===== verification/Server_Inv.thy ===== *)
theory Server_Inv
  imports Server_Run Pool_Lease
begin

text \<open>
  The invariant of the event loop and its primitive operations. \<open>Inv pw E X U A D srv\<close> says that the table
  has 256 connections, each well-formed in its own slot with its buffers within bounds and, when mutual
  TLS is required, in service only with an identity, that every
  backend connection a frontend owns is marked in use in the pool, is owned by that frontend alone,
  is logged in as its group and carries a pipeline rewritten for its identity, and that every frontend that
  waits for a backend is in the ring of
  waiters. The frontends of \<open>E\<close> are exempt from having an identity (one whose handshake is just over),
  those of \<open>X\<close> from being in the ring, those of \<open>U\<close> own no backend and are
  not in the ring (one that is being closed), those of \<open>A\<close> are known to be in use, and \<open>D\<close> are the drain
  marks of the connections.
\<close>

section \<open>The invariant\<close>

definition conn_wf :: "nat \<Rightarrow> 'w fconn \<Rightarrow> bool" where
  "conn_wf i c \<longleftrightarrow> (fc_state c \<noteq> CS_FREE \<longrightarrow> fc_slot c = i) \<and> length (fc_send c) \<le> 16384 \<and>
     fc_send_off c \<le> length (fc_send c) \<and> length (fc_be_resp c) \<le> 16384 \<and> feq_inv (fc_q c) \<and>
     (fc_be c \<noteq> None \<longrightarrow> fc_identity_ready c \<and> fc_state c \<noteq> CS_FREE) \<and>
     (fc_state c = CS_TLS_HS \<longrightarrow> \<not> fc_identity_ready c) \<and> (fc_state c = CS_FREE \<longrightarrow> fc_be_wait c \<noteq> BE_WAITING_POOL)"

text \<open>An identity is one that a certificate gives, with the configured slot; under mutual TLS no
  connection is in service without one.\<close>

definition id_wf :: "config \<Rightarrow> 'w fconn \<Rightarrow> bool" where
  "id_wf cfg c \<longleftrightarrow> (fc_identity_ready c \<longrightarrow> group_name (fc_id c) \<noteq> [] \<and> length (group_name (fc_id c)) < 64 \<and>
     length (router_id (fc_id c)) < 128 \<and> identity_slot (fc_id c) = cfg_identity_slot cfg)"

definition authed :: "config \<Rightarrow> 'w fconn \<Rightarrow> bool" where
  "authed cfg c \<longleftrightarrow> (require_mtls cfg \<and> fc_state c = CS_ACTIVE \<longrightarrow> fc_identity_ready c)"

definition lease_wf :: "'w pqwire \<Rightarrow> 'w fconn list \<Rightarrow> 'w be_pool option \<Rightarrow> bool" where
  "lease_wf pw cs po \<longleftrightarrow>
     (case po of
        None \<Rightarrow> \<forall>c \<in> set cs. fc_be c = None
      | Some p \<Rightarrow> pool_inv p \<and>
          (\<forall>c \<in> set cs. \<forall>b. fc_be c = Some b \<longrightarrow> b \<in> busy_set p \<and> serves pw p b (fc_id c)) \<and>
          (\<forall>i < length cs. \<forall>j < length cs. \<forall>b. fc_be (cs ! i) = Some b \<and> fc_be (cs ! j) = Some b \<longrightarrow> i = j))"

definition waits_wf :: "nat set \<Rightarrow> 'w fconn list \<Rightarrow> wait_ring \<Rightarrow> bool" where
  "waits_wf X cs r \<longleftrightarrow> wait_inv r \<and> (\<forall>s \<in> set (waiting r). s < 256) \<and>
     (\<forall>i < length cs. i \<notin> X \<and> fc_be_wait (cs ! i) = BE_WAITING_POOL \<longrightarrow> i \<in> set (waiting r))"

text \<open>A server that is not in plain mode has a TLS context, which demands a certificate of every client when
  mutual TLS is required.\<close>

definition tls_wf :: "config \<Rightarrow> tls_ctx option \<Rightarrow> bool" where
  "tls_wf cfg tls \<longleftrightarrow> (tls = None \<longleftrightarrow> plain_mode cfg) \<and>
     (\<forall>ctx. tls = Some ctx \<longrightarrow> tc_min ctx = TLS1_2 \<and>
        (require_mtls cfg \<longrightarrow> tc_verify_peer ctx \<and> tc_fail_if_no_peer_cert ctx \<and> tc_ca ctx = ca_file cfg \<and> ca_file cfg \<noteq> None))"

definition Inv :: "'w pqwire \<Rightarrow> nat set \<Rightarrow> nat set \<Rightarrow> nat set \<Rightarrow> nat set \<Rightarrow> bool list \<Rightarrow> 'w server \<Rightarrow> bool" where
  "Inv pw E X U A D srv \<longleftrightarrow> length (sv_conns srv) = 256 \<and> map fc_draining (sv_conns srv) = D \<and>
     tls_wf (sv_cfg srv) (sv_tls srv) \<and> (\<forall>i < 256. conn_wf i (cn srv i)) \<and>
     (\<forall>i < 256. id_wf (sv_cfg srv) (cn srv i) \<and> (i \<notin> E \<longrightarrow> authed (sv_cfg srv) (cn srv i))) \<and>
     lease_wf pw (sv_conns srv) (sv_pool srv) \<and> waits_wf X (sv_conns srv) (sv_wait srv) \<and>
     (\<forall>i \<in> A. i < 256 \<and> fc_state (cn srv i) \<noteq> CS_FREE) \<and>
     (\<forall>i \<in> U. i \<notin> A \<and> i \<notin> set (waiting (sv_wait srv)) \<and> (i < 256 \<longrightarrow> fc_be (cn srv i) = None))"

lemma InvD:
  assumes "Inv pw E X U A D srv"
  shows "length (sv_conns srv) = 256" "map fc_draining (sv_conns srv) = D" "length D = 256"
    "i < 256 \<Longrightarrow> conn_wf i (cn srv i)" "lease_wf pw (sv_conns srv) (sv_pool srv)" "waits_wf X (sv_conns srv) (sv_wait srv)"
    "i \<in> A \<Longrightarrow> i < 256" "i \<in> A \<Longrightarrow> fc_state (cn srv i) \<noteq> CS_FREE" "i < 256 \<Longrightarrow> fc_draining (cn srv i) = D ! i"
    "i \<in> U \<Longrightarrow> i \<notin> A \<and> i \<notin> set (waiting (sv_wait srv))" "i \<in> U \<Longrightarrow> i < 256 \<Longrightarrow> fc_be (cn srv i) = None"
    "tls_wf (sv_cfg srv) (sv_tls srv)" "i < 256 \<Longrightarrow> id_wf (sv_cfg srv) (cn srv i)"
    "i < 256 \<Longrightarrow> i \<notin> E \<Longrightarrow> authed (sv_cfg srv) (cn srv i)"
  using assms by (auto simp: Inv_def cn_def)

text \<open>Only the table, the pool and the ring matter.\<close>

lemma Inv_irrelevant [simp]:
  "Inv pw E X U A D (count f srv) = Inv pw E X U A D srv"
  "Inv pw E X U A D (srv\<lparr>sv_world := w\<rparr>) = Inv pw E X U A D srv" "Inv pw E X U A D (srv\<lparr>sv_ssl := ssl\<rparr>) = Inv pw E X U A D srv"
  "Inv pw E X U A D (srv\<lparr>sv_sq := q\<rparr>) = Inv pw E X U A D srv" "Inv pw E X U A D (srv\<lparr>sv_flight := fl\<rparr>) = Inv pw E X U A D srv"
  "Inv pw E X U A D (srv\<lparr>sv_now_ns := t\<rparr>) = Inv pw E X U A D srv" "Inv pw E X U A D (srv\<lparr>sv_last_maintain_ms := t\<rparr>) = Inv pw E X U A D srv"
  "Inv pw E X U A D (srv\<lparr>sv_last_metrics_ms := t\<rparr>) = Inv pw E X U A D srv"
  by (simp_all add: Inv_def cn_def count_def)

lemma Inv_exempt: "Inv pw E X U A D srv \<Longrightarrow> E \<subseteq> F \<Longrightarrow> Inv pw F X U A D srv"
  unfolding Inv_def by (elim conjE, intro conjI) (assumption | blast)+

text \<open>A connection that has its identity, or is not in service, needs no exemption.\<close>

lemma Inv_unexempt:
  assumes "Inv pw (insert i E) X U A D srv" and "i < 256 \<Longrightarrow> authed (sv_cfg srv) (cn srv i)"
  shows "Inv pw E X U A D srv"
  using assms unfolding Inv_def by (elim conjE, intro conjI) (assumption | metis insertE)+

lemma Inv_weaken: "Inv pw E X U A D srv \<Longrightarrow> X \<subseteq> Y \<Longrightarrow> B \<subseteq> A \<Longrightarrow> V \<subseteq> U \<Longrightarrow> Inv pw E Y V B D srv"
  unfolding Inv_def waits_wf_def by (elim conjE, intro conjI) (assumption | blast)+

lemma Inv_in_use: "Inv pw E X U A D srv \<Longrightarrow> i < 256 \<Longrightarrow> fc_state (cn srv i) \<noteq> CS_FREE \<Longrightarrow> i \<notin> U \<Longrightarrow> Inv pw E X U (insert i A) D srv"
  by (auto simp: Inv_def)

section \<open>Changes of one connection\<close>

lemma cn_upd [simp]: "cn (upd i f srv) j = (if j = i \<and> i < length (sv_conns srv) then f (cn srv i) else cn srv j)"
  by (cases "i < length (sv_conns srv)") (auto simp: cn_def upd_def nth_list_update list_update_beyond)

lemma upd_sel [simp]:
  "sv_pool (upd i f srv) = sv_pool srv" "sv_wait (upd i f srv) = sv_wait srv" "sv_cfg (upd i f srv) = sv_cfg srv"
  "sv_world (upd i f srv) = sv_world srv" "sv_ssl (upd i f srv) = sv_ssl srv" "sv_fair (upd i f srv) = sv_fair srv"
  "sv_async (upd i f srv) = sv_async srv" "sv_tls (upd i f srv) = sv_tls srv" "sv_now_ns (upd i f srv) = sv_now_ns srv"
  "length (sv_conns (upd i f srv)) = length (sv_conns srv)"
  "sv_sq (upd i f srv) = sv_sq srv" "sv_flight (upd i f srv) = sv_flight srv"
  by (simp_all add: upd_def)

lemma count_sel [simp]:
  "sv_conns (count f srv) = sv_conns srv" "sv_pool (count f srv) = sv_pool srv" "sv_wait (count f srv) = sv_wait srv"
  "sv_cfg (count f srv) = sv_cfg srv" "sv_tls (count f srv) = sv_tls srv" "sv_fair (count f srv) = sv_fair srv" "sv_async (count f srv) = sv_async srv"
  "cn (count f srv) i = cn srv i"
  by (simp_all add: count_def cn_def)

text \<open>\<open>changes E X i r c c'\<close>: connection \<open>i\<close> may change from \<open>c\<close> to \<open>c'\<close> with the ring \<open>r\<close>.\<close>

definition changes :: "nat set \<Rightarrow> nat set \<Rightarrow> nat \<Rightarrow> wait_ring \<Rightarrow> 'w fconn \<Rightarrow> 'w fconn \<Rightarrow> bool" where
  "changes E X i r c c' \<longleftrightarrow> (conn_wf i c \<longrightarrow> conn_wf i c') \<and>
     (fc_be c' = None \<or> fc_be c' = fc_be c \<and> fc_id c' = fc_id c) \<and>
     (fc_identity_ready c' \<longrightarrow> fc_identity_ready c \<and> fc_id c' = fc_id c) \<and>
     (fc_state c' = CS_ACTIVE \<and> i \<notin> E \<longrightarrow> fc_state c = CS_ACTIVE \<and> (fc_identity_ready c \<longrightarrow> fc_identity_ready c')) \<and>
     (fc_be_wait c' = BE_WAITING_POOL \<longrightarrow> fc_be_wait c = BE_WAITING_POOL \<or> i \<in> X \<or> i \<in> set (waiting r))"

text \<open>A connection in use stays so.\<close>

definition moves :: "nat set \<Rightarrow> nat set \<Rightarrow> nat \<Rightarrow> wait_ring \<Rightarrow> 'w fconn \<Rightarrow> 'w fconn \<Rightarrow> bool" where
  "moves E X i r c c' \<longleftrightarrow> changes E X i r c c' \<and> (fc_state c \<noteq> CS_FREE \<longrightarrow> fc_state c' \<noteq> CS_FREE)"

lemma Inv_replace:
  assumes inv: "Inv pw E X U A D srv"
    and c: "i < 256 \<Longrightarrow> conn_wf i (f (cn srv i)) \<and> id_wf (sv_cfg srv) (f (cn srv i)) \<and> (i \<notin> E \<longrightarrow> authed (sv_cfg srv) (f (cn srv i)))"
    and m: "i < 256 \<Longrightarrow> fc_be (f (cn srv i)) = None \<or> fc_be (f (cn srv i)) = fc_be (cn srv i) \<and> fc_id (f (cn srv i)) = fc_id (cn srv i)"
    and w: "i < 256 \<Longrightarrow> fc_be_wait (f (cn srv i)) = BE_WAITING_POOL \<Longrightarrow>
      fc_be_wait (cn srv i) = BE_WAITING_POOL \<or> i \<in> X \<or> i \<in> set (waiting (sv_wait srv))"
    and st: "i \<in> A \<Longrightarrow> fc_state (f (cn srv i)) \<noteq> CS_FREE"
  shows "Inv pw E X U A (D[i := fc_draining (f (cn srv i))]) (upd i f srv)"
proof (cases "i < 256")
  case True
  let ?c = "cn srv i" and ?c' = "f (cn srv i)" and ?cs = "sv_conns srv"
  have len: "length ?cs = 256" and D: "D = map fc_draining ?cs" using inv by (auto simp: Inv_def)
  have cs: "sv_conns (upd i f srv) = ?cs[i := ?c']" by (simp add: upd_def cn_def)
  note m = m [OF True] and c = c [OF True] and w = w [OF True]
  have "lease_wf pw (?cs[i := ?c']) (sv_pool srv)"
  proof (cases "sv_pool srv")
    case None
    then show ?thesis using inv m len True
      by (auto simp: Inv_def lease_wf_def cn_def dest!: set_update_subset_insert [THEN subsetD])
  next
    case (Some p)
    then have l: "pool_inv p" "\<And>c b. c \<in> set ?cs \<Longrightarrow> fc_be c = Some b \<Longrightarrow> b \<in> busy_set p \<and> serves pw p b (fc_id c)"
      "\<And>k j b. k < 256 \<Longrightarrow> j < 256 \<Longrightarrow> fc_be (?cs ! k) = Some b \<Longrightarrow> fc_be (?cs ! j) = Some b \<Longrightarrow> k = j"
      using inv by (auto simp: Inv_def lease_wf_def)
    have in_cs: "?c \<in> set ?cs" using True len by (simp add: cn_def)
    have "b \<in> busy_set p \<and> serves pw p b (fc_id c)" if "c \<in> set (?cs[i := ?c'])" "fc_be c = Some b" for c b
      using set_update_subset_insert [THEN subsetD, OF that(1)] l(2) [of c b] l(2) [OF in_cs, of b] m that(2) by auto
    moreover have "fc_be (?cs ! k) = Some b" if "fc_be (?cs[i := ?c'] ! k) = Some b" for k b
      using that m True len by (cases "k = i") (auto simp: cn_def)
    then have "k = j" if "k < 256" "j < 256" "fc_be (?cs[i := ?c'] ! k) = Some b" "fc_be (?cs[i := ?c'] ! j) = Some b" for k j b
      using l(3) that by blast
    ultimately show ?thesis using Some l(1) len by (auto simp: lease_wf_def)
  qed
  moreover have "waits_wf X (?cs[i := ?c']) (sv_wait srv)"
    using inv w len True by (auto simp: Inv_def waits_wf_def nth_list_update cn_def)
  moreover have "\<forall>j \<in> A. j < 256 \<and> fc_state (cn (upd i f srv) j) \<noteq> CS_FREE" using InvD(7,8) [OF inv] st by simp
  moreover have "\<forall>j \<in> U. j \<notin> A \<and> j \<notin> set (waiting (sv_wait srv)) \<and> (j < 256 \<longrightarrow> fc_be (cn (upd i f srv) j) = None)"
    using InvD(10,11) [OF inv] m by auto
  moreover have "\<forall>j < 256. conn_wf j (cn (upd i f srv) j)" using InvD(4) [OF inv] c by simp
  moreover have "\<forall>j < 256. id_wf (sv_cfg srv) (cn (upd i f srv) j) \<and> (j \<notin> E \<longrightarrow> authed (sv_cfg srv) (cn (upd i f srv) j))"
    using InvD(13,14) [OF inv] c by simp
  ultimately show ?thesis
    using len True D InvD(12) [OF inv] by (simp add: Inv_def cs map_update)
next
  case False
  then have "D[i := x] = D" "upd i f srv = srv" for x
    using InvD(1,3) [OF inv] by (simp_all add: upd_def list_update_beyond)
  then show ?thesis using inv by simp
qed

lemma Inv_change:
  assumes inv: "Inv pw E X U A D srv" and m: "i < 256 \<Longrightarrow> changes E X i (sv_wait srv) (cn srv i) (f (cn srv i))"
    and st: "i \<in> A \<Longrightarrow> fc_state (f (cn srv i)) \<noteq> CS_FREE"
  shows "Inv pw E X U A (D[i := fc_draining (f (cn srv i))]) (upd i f srv)"
  using m InvD(4,13,14) [OF inv, of i] st by (intro Inv_replace [OF inv]) (auto simp: changes_def id_wf_def authed_def)

lemma Inv_upd:
  assumes inv: "Inv pw E X U A D srv" and m: "i < 256 \<Longrightarrow> moves E X i (sv_wait srv) (cn srv i) (f (cn srv i))"
  shows "Inv pw E X U A (D[i := fc_draining (f (cn srv i))]) (upd i f srv)"
  using m InvD(7,8) [OF inv] by (intro Inv_change [OF inv]) (auto simp: moves_def)

lemma Inv_upd_same:
  assumes inv: "Inv pw E X U A D srv" and m: "i < 256 \<Longrightarrow> moves E X i (sv_wait srv) (cn srv i) (f (cn srv i))"
    and "fc_draining (f (cn srv i)) = fc_draining (cn srv i)"
  shows "Inv pw E X U A D (upd i f srv)"
proof (cases "i < 256")
  case True
  then have "D[i := fc_draining (f (cn srv i))] = D" using assms(3) InvD(9) [OF inv True] by simp
  with Inv_upd [where f = f, OF inv m] show ?thesis by simp
next
  case False
  then have "upd i f srv = srv" using InvD(1) [OF inv] by (simp add: upd_def list_update_beyond)
  then show ?thesis using inv by simp
qed

section \<open>Submissions and output\<close>

text \<open>Rules of the form \<open>Inv pw E X U A D srv \<Longrightarrow> Inv pw E X U A D (snd (f i srv))\<close>, collected for the simplifier.\<close>

named_theorems keeps "operations that keep the invariant"

lemma add_sqe_Inv [keeps]: "add_sqe opc slot fd flags data srv = Some srv1 \<Longrightarrow> Inv pw E X U A D srv \<Longrightarrow> Inv pw E X U A D srv1"
  by (auto simp: add_sqe_def split: if_splits)

lemma add_sqe_sel: "add_sqe opc slot fd flags data srv = Some srv1 \<Longrightarrow> sv_conns srv1 = sv_conns srv \<and> sv_pool srv1 = sv_pool srv \<and>
    sv_wait srv1 = sv_wait srv \<and> cn srv1 i = cn srv i"
  by (auto simp: add_sqe_def cn_def split: if_splits)

lemma moves_flags [simp]:
  "moves E X i r c (c\<lparr>fc_recv_pending := b\<rparr>)" "moves E X i r c (c\<lparr>fc_send_pending := b\<rparr>)"
  "moves E X i r c (c\<lparr>fc_poll_pending := b\<rparr>)" "moves E X i r c (c\<lparr>fc_want_poll_out := b\<rparr>)"
  "moves E X i r c (c\<lparr>fc_frontend := w\<rparr>)" "moves E X i r c (c\<lparr>fc_be_send_pending := b\<rparr>)"
  "moves E X i r c (c\<lparr>fc_be_recv_pending := b\<rparr>)" "moves E X i r c (c\<lparr>fc_got_sync := b\<rparr>)"
  "moves E X i r c (c\<lparr>fc_got_execute := b\<rparr>)" "moves E X i r c (c\<lparr>fc_be_start_ns := t\<rparr>)"
  "moves E X i r c (c\<lparr>fc_ktls_on := b\<rparr>)" "moves E X i r c (c\<lparr>fc_be_resp := []\<rparr>)"
  "moves E X i r c (c\<lparr>fc_frontend := w, fc_cache := sc\<rparr>)" "moves E X i r c (c\<lparr>fc_draining := b\<rparr>)"
  "fc_state c \<noteq> CS_FREE \<Longrightarrow> moves E X i r c (c\<lparr>fc_state := CS_CLOSING\<rparr>)" "moves E X i r c (c\<lparr>fc_be := None\<rparr>)"
  "moves E X i r c (c\<lparr>fc_send := [], fc_send_off := 0\<rparr>)"
  "moves E X i r c (c\<lparr>fc_send := [], fc_send_off := 0, fc_want_poll_out := b\<rparr>)"
  "bw \<noteq> BE_WAITING_POOL \<Longrightarrow> moves E X i r c (c\<lparr>fc_be_wait := bw\<rparr>)"
  by (simp_all add: moves_def changes_def conn_wf_def)

lemma upd_flag_Inv [keeps]:
  assumes "Inv pw E X U A D srv" and "\<And>r. moves E X i r (cn srv i) (f (cn srv i))" and "fc_draining (f (cn srv i)) = fc_draining (cn srv i)"
  shows "Inv pw E X U A D (upd i f srv)"
  using assms by (intro Inv_upd_same) auto

lemma submits_Inv [keeps]:
  assumes "Inv pw E X U A D srv"
  shows "Inv pw E X U A D (snd (submit_recv i srv))" "Inv pw E X U A D (snd (submit_send i srv))" "Inv pw E X U A D (snd (submit_poll i srv))"
    "Inv pw E X U A D (snd (submit_accept srv))"
  using assms
  by (auto simp: submit_recv_def submit_send_def submit_poll_def submit_accept_def Let_def intro!: upd_flag_Inv
      dest: add_sqe_Inv split: option.splits)

lemma append_send_wf:
  assumes "append_send data c = Some c'"
  shows "\<exists>s off. c' = c\<lparr>fc_send := s, fc_send_off := off\<rparr> \<and> length s \<le> 16384 \<and>
    (fc_send_off c \<le> length (fc_send c) \<longrightarrow> off \<le> length s)"
  using assms by (cases c) (auto simp: append_send_def Let_def split: if_splits)

lemma append_send_moves:
  assumes "append_send data c = Some c'"
  shows "moves E X i r c c'" "moves E X i r c (c'\<lparr>fc_want_poll_out := b\<rparr>)" "fc_draining c' = fc_draining c"
  using append_send_wf [OF assms] by (auto simp: moves_def changes_def conn_wf_def)

lemma queue_plain_send_Inv [keeps]:
  "Inv pw E X U A D srv \<Longrightarrow> Inv pw E X U A D (snd (queue_plain_send i data srv))"
  by (auto simp: queue_plain_send_def append_send_moves intro!: submits_Inv upd_flag_Inv split: option.splits)

lemma fe_call_Inv [keeps]: "Inv pw E X U A D srv \<Longrightarrow> Inv pw E X U A D (snd (fe_call f i srv))"
  by (auto simp: fe_call_def case_prod_beta intro!: upd_flag_Inv split: option.splits)

lemma drain_out_loop_Inv [keeps]: "Inv pw E X U A D srv \<Longrightarrow> Inv pw E X U A D (snd (drain_out_loop pw k i srv))"
proof (induction k arbitrary: srv)
  case (Suc k)
  have "Inv pw E X U A D (upd i (\<lambda>c. c\<lparr>fc_frontend := w\<rparr>) srv)" for w using Suc.prems by (intro upd_flag_Inv) simp_all
  then show ?case
    using Suc by (auto simp: Let_def case_prod_beta intro!: Suc.IH queue_plain_send_Inv split: option.splits)
qed simp

lemma drain_frontend_out_Inv [keeps]: "Inv pw E X U A D srv \<Longrightarrow> Inv pw E X U A D (snd (drain_frontend_out pw i srv))"
  by (auto simp: drain_frontend_out_def intro: drain_out_loop_Inv split: option.splits)

lemma note_wait_Inv [keeps]: "Inv pw E X U A D srv \<Longrightarrow> Inv pw E X U A D (note_wait i srv)"
  by (auto simp: note_wait_def Let_def intro!: upd_flag_Inv)

section \<open>The rings\<close>

lemma on_queue_Inv [keeps]:
  assumes "Inv pw E X U A D srv" and "\<And>q m. feq_inv q \<Longrightarrow> feq_inv (fst (snd (f q m)))"
  shows "Inv pw E X U A D (snd (on_queue f i srv))"
  using assms by (auto simp: on_queue_def case_prod_beta Let_def moves_def changes_def conn_wf_def intro!: Inv_upd_same)

lemma feq_push_inv: "feq_inv q \<Longrightarrow> feq_inv (fst (snd (feq_push q x m)))"
  by (cases "q_count q < 32") (simp_all add: feq_push_items feq_push_full)

lemma feq_pushes_inv:
  "feq_inv q \<Longrightarrow> feq_inv (fst (snd (feq_push_parse q prs m)))" "feq_inv q \<Longrightarrow> feq_inv (fst (snd (feq_push_bind pw q b m)))"
  by (auto simp: feq_push_parse_def feq_push_bind_def Let_def feq_push_inv split: option.splits)

lemma Inv_ring:
  assumes "Inv pw E X U A D srv" and "wait_inv r" and "\<forall>s \<in> set (waiting r). s < 256"
    and "\<And>i. i < 256 \<Longrightarrow> i \<notin> Y \<Longrightarrow> fc_be_wait (cn srv i) = BE_WAITING_POOL \<Longrightarrow> i \<in> set (waiting r)"
    and "\<forall>i \<in> U. i \<notin> set (waiting r)"
  shows "Inv pw E Y U A D (srv\<lparr>sv_wait := r\<rparr>)"
proof -
  have "waits_wf Y (sv_conns srv) r"
    unfolding waits_wf_def InvD(1) [OF assms(1)] using assms(2,3) assms(4) [unfolded cn_def] by blast
  then show ?thesis using assms(1,5) by (simp add: Inv_def cn_def)
qed

lemma ring_sel [simp]: "cn (srv\<lparr>sv_wait := r\<rparr>) i = cn srv i"
  by (simp add: cn_def)

lemma Inv_ringD:
  assumes "Inv pw E X U A D srv"
  shows "wait_inv (sv_wait srv)" "s \<in> set (waiting (sv_wait srv)) \<Longrightarrow> s < 256"
    "i < 256 \<Longrightarrow> i \<notin> X \<Longrightarrow> fc_be_wait (cn srv i) = BE_WAITING_POOL \<Longrightarrow> i \<in> set (waiting (sv_wait srv))"
  using InvD(1,6) [OF assms] by (auto simp: waits_wf_def cn_def)

lemma Inv_slot: "Inv pw E X U A D srv \<Longrightarrow> i \<in> A \<Longrightarrow> fc_slot (cn srv i) = i"
  using InvD(4,7,8) [of pw E X U A D srv i] by (auto simp: conn_wf_def)

text \<open>A frontend that does not wait needs no exemption.\<close>

lemma Inv_not_waiting:
  "Inv pw E (insert i X) U A D srv \<Longrightarrow> fc_be_wait (cn srv i) \<noteq> BE_WAITING_POOL \<or> \<not> i < 256 \<Longrightarrow> Inv pw E X U A D srv"
  by (auto simp: Inv_def waits_wf_def cn_def)

text \<open>Pushing keeps the waiting frontends in the ring, and the one pushed is there on success.\<close>

lemma sv_waiters_push_Inv:
  assumes inv: "Inv pw E Y U A D srv" and i: "i \<in> A" and run: "sv_waiters_push i srv = (rc, srv')"
  shows "Inv pw E (if rc = 0 then Y - {i} else Y) U A D srv'" "cn srv' j = cn srv j"
proof -
  note R = Inv_ringD [OF inv] and i256 = InvD(7) [OF inv i] and slot = Inv_slot [OF inv i]
  obtain rc1 r m where p: "waiters_push (sv_fair srv) (sv_wait srv) i (w_metrics (sv_world srv)) = (rc1, r, m)"
    by (metis prod_cases3)
  have e: "rc = rc1" "srv' = count (\<lambda>_. m) (srv\<lparr>sv_wait := r\<rparr>)" using run slot p by (auto simp: sv_waiters_push_def)
  show "cn srv' j = cn srv j" by (simp add: e)
  have "wait_inv r \<and> set (waiting r) \<subseteq> insert i (set (waiting (sv_wait srv))) \<and> set (waiting (sv_wait srv)) \<subseteq> set (waiting r) \<and>
      (rc = 0 \<longrightarrow> i \<in> set (waiting r))"
  proof (cases "sv_fair srv")
    case True
    have "wait_inv r" "waiting r = list_push 256 (\<lambda>xs x. x \<notin> set xs) (waiting (sv_wait srv)) i"
      using waiters_push_items [OF R(1), of i "w_metrics (sv_world srv)"] p True by auto
    moreover have "rc = 0 \<Longrightarrow> r_count (sv_wait srv) < 256 \<or> i \<in> set (waiting (sv_wait srv))"
      using p True by (auto simp: waiters_push_def e split: if_splits)
    ultimately show ?thesis by (auto simp: list_push_def)
  next
    case False
    then show ?thesis using p R(1) by (auto simp: waiters_push_def e)
  qed
  then show "Inv pw E (if rc = 0 then Y - {i} else Y) U A D srv'"
    unfolding e(2) Inv_irrelevant using R(2,3) i256 i InvD(10) [OF inv] by (intro Inv_ring [OF inv]) (auto split: if_splits)
qed

lemma park_for_backend_Inv [keeps]:
  assumes inv: "Inv pw E X U A D srv" and i: "i \<in> A"
  shows "Inv pw E X U A D (snd (park_for_backend i srv))"
proof -
  let ?s = "upd i (\<lambda>c. c\<lparr>fc_be_wait := BE_WAITING_POOL\<rparr>) srv"
  obtain rc s1 where p: "sv_waiters_push i ?s = (rc, s1)" by fastforce
  have "Inv pw E (insert i X) U A D ?s"
    using InvD(8) [OF inv i] by (intro Inv_upd_same [OF Inv_weaken [OF inv]]) (auto simp: moves_def changes_def conn_wf_def)
  note q = sv_waiters_push_Inv [OF this i p]
  show ?thesis
  proof (cases "rc = 0")
    case True
    then have "Inv pw E X U A D s1" using Inv_weaken [OF q(1)] by auto
    then show ?thesis using p True by (simp add: park_for_backend_def)
  next
    case False
    let ?t = "upd i (\<lambda>c. c\<lparr>fc_be_wait := BE_IDLE\<rparr>) s1"
    have t: "Inv pw E (insert i X) U A D ?t" using q(1) False by (intro upd_flag_Inv) simp_all
    have "Inv pw E X U A D ?t" using InvD(1) [OF q(1)] by (intro Inv_not_waiting [OF t]) auto
    then show ?thesis using p False by (simp add: park_for_backend_def)
  qed
qed

lemma sv_waiters_remove_Inv:
  assumes inv: "Inv pw E X U A D srv"
  shows "Inv pw E (insert i X) U A D (sv_waiters_remove i srv)" "cn (sv_waiters_remove i srv) j = cn srv j"
    "sv_pool (sv_waiters_remove i srv) = sv_pool srv" "i \<notin> set (waiting (sv_wait (sv_waiters_remove i srv)))"
proof -
  note R = Inv_ringD [OF inv]
  obtain r m where p: "waiters_remove (sv_wait srv) i (w_metrics (sv_world srv)) = (r, m)" by fastforce
  have e: "sv_waiters_remove i srv = count (\<lambda>_. m) (srv\<lparr>sv_wait := r\<rparr>)" using p by (simp add: sv_waiters_remove_def)
  have r: "wait_inv r \<and> waiting r = filter (\<lambda>s. s \<noteq> i) (waiting (sv_wait srv))"
    using waiters_remove_items [OF R(1), of i "w_metrics (sv_world srv)"] p by auto
  show "i \<notin> set (waiting (sv_wait (sv_waiters_remove i srv)))" using r by (simp add: e)
  from r show "Inv pw E (insert i X) U A D (sv_waiters_remove i srv)"
    unfolding e Inv_irrelevant using R(2,3) InvD(10) [OF inv] by (intro Inv_ring [OF inv]) auto
  show "cn (sv_waiters_remove i srv) j = cn srv j" "sv_pool (sv_waiters_remove i srv) = sv_pool srv" by (simp_all add: e)
qed

lemma waiters_pop_Inv:
  assumes inv: "Inv pw E X U A D srv" and p: "waiters_pop (sv_wait srv) = Some (slot, r)"
  shows "Inv pw E (insert slot X) U A D (srv\<lparr>sv_wait := r\<rparr>)" "slot < 256" "slot \<notin> U"
proof -
  note R = Inv_ringD [OF inv]
  have w: "wait_inv r" "waiting (sv_wait srv) = slot # waiting r" using waiters_pop_items [OF R(1)] p by auto
  then show "slot < 256" using R(2) by simp
  show "Inv pw E (insert slot X) U A D (srv\<lparr>sv_wait := r\<rparr>)" using w R(2,3) InvD(10) [OF inv] by (intro Inv_ring [OF inv]) auto
  show "slot \<notin> U" using w InvD(10) [OF inv, of slot] by auto
qed

section \<open>The pool\<close>

lemma pool_sel [simp]:
  "cn (set_pool p w srv) i = cn srv i" "sv_conns (set_pool p w srv) = sv_conns srv" "sv_wait (set_pool p w srv) = sv_wait srv"
  "sv_pool (set_pool p w srv) = Some p" "sv_cfg (set_pool p w srv) = sv_cfg srv" "sv_tls (set_pool p w srv) = sv_tls srv" "sv_async (set_pool p w srv) = sv_async srv"
  "sv_fair (set_pool p w srv) = sv_fair srv" "sv_now_ns (set_pool p w srv) = sv_now_ns srv"
  by (simp_all add: set_pool_def cn_def)

lemma Inv_lease:
  assumes "Inv pw E X U A D srv" and "sv_pool srv = Some p"
  shows "pool_inv p" "i < 256 \<Longrightarrow> fc_be (cn srv i) = Some b \<Longrightarrow> b \<in> busy_set p \<and> serves pw p b (fc_id (cn srv i))"
    "i < 256 \<Longrightarrow> j < 256 \<Longrightarrow> fc_be (cn srv i) = Some b \<Longrightarrow> fc_be (cn srv j) = Some b \<Longrightarrow> i = j"
  using InvD(1,5) [OF assms(1)] assms(2) by (auto simp: lease_wf_def cn_def)

lemma Inv_set_pool:
  assumes inv: "Inv pw E X U A D srv" and p: "sv_pool srv = Some p" and "pool_inv p'"
    and own: "\<And>j b. j < 256 \<Longrightarrow> fc_be (cn srv j) = Some b \<Longrightarrow>
      b \<in> busy_set p' \<and> serves pw p' b (fc_id (cn srv j))"
  shows "Inv pw E X U A D (set_pool p' w srv)"
proof -
  have "fc_be c = Some b \<Longrightarrow> c \<in> set (sv_conns srv) \<Longrightarrow> b \<in> busy_set p' \<and> serves pw p' b (fc_id c)" for c b
    using own InvD(1) [OF inv] by (metis cn_def in_set_conv_nth)
  then have "lease_wf pw (sv_conns srv) (Some p')"
    using InvD(1,5) [OF inv] p assms(3) by (auto simp: lease_wf_def)
  then show ?thesis using inv by (simp add: Inv_def)
qed

lemma grants_serves: "grants p got p' \<Longrightarrow> b \<in> busy_set p \<Longrightarrow> serves pw p b ident \<Longrightarrow> b \<in> busy_set p' \<and> serves pw p' b ident"
  by (auto simp: grants_def same_setup_def serves_def logs_in_def)

lemma Inv_grants:
  assumes inv: "Inv pw E X U A D srv" and p: "sv_pool srv = Some p" and g: "grants p got p'"
  shows "Inv pw E X U A D (set_pool p' w srv)"
proof (rule Inv_set_pool [OF inv p])
  show "pool_inv p'" using g by (simp add: grants_def)
  show "b \<in> busy_set p' \<and> serves pw p' b (fc_id (cn srv j))" if "j < 256" "fc_be (cn srv j) = Some b" for j b
    using Inv_lease(2) [OF inv p that] grants_serves [OF g] by blast
qed

text \<open>A frontend takes a connection that nobody owns.\<close>

lemma Inv_own:
  assumes inv: "Inv pw E X U A D srv" and p: "sv_pool srv = Some p" and i: "i \<in> A" "fc_identity_ready (cn srv i)"
    and k: "k \<in> busy_set p" "serves pw p k (fc_id (cn srv i))" "\<And>j. j < 256 \<Longrightarrow> fc_be (cn srv j) \<noteq> Some k"
  shows "Inv pw E X U A D (upd i (\<lambda>c. c\<lparr>fc_be := Some k\<rparr>) srv)"
proof -
  let ?s = "upd i (\<lambda>c. c\<lparr>fc_be := Some k\<rparr>) srv"
  note len = InvD(1) [OF inv] and i256 = InvD(7) [OF inv i(1)] and st = InvD(8) [OF inv i(1)]
  have be: "fc_be (cn ?s j) = (if j = i then Some k else fc_be (cn srv j))" if "j < 256" for j using len i256 that by simp
  have idc: "fc_id (cn ?s j) = fc_id (cn srv j)" for j by simp
  have nth: "sv_conns ?s ! j = cn ?s j" for j by (simp add: cn_def)
  have wait: "fc_be_wait (cn ?s j) = fc_be_wait (cn srv j)" for j by simp
  have "lease_wf pw (sv_conns ?s) (Some p)"
    unfolding lease_wf_def option.case
  proof (intro conjI ballI allI impI)
    show "pool_inv p" by (rule Inv_lease(1) [OF inv p])
    show "b \<in> busy_set p" "serves pw p b (fc_id c)" if c: "c \<in> set (sv_conns ?s)" "fc_be c = Some b" for c b
    proof -
      obtain j where "j < length (sv_conns ?s)" "c = sv_conns ?s ! j" using c(1) by (auto simp: in_set_conv_nth simp del: upd_sel)
      then have "j < 256" "c = cn ?s j" using len unfolding nth upd_sel by simp_all
      with c(2) be [of j] k(1,2) Inv_lease(2) [OF inv p, of j b]
      show "b \<in> busy_set p" "serves pw p b (fc_id c)" by (auto simp: idc split: if_splits)
    qed
    show "l = j" if "l < length (sv_conns ?s)" "j < length (sv_conns ?s)"
      "fc_be (sv_conns ?s ! l) = Some b \<and> fc_be (sv_conns ?s ! j) = Some b" for l j b
      using that len be k(3) Inv_lease(3) [OF inv p, of l j b] unfolding nth by (auto split: if_splits)
  qed
  moreover have "conn_wf j (cn ?s j)" if "j < 256" for j
    using InvD(4) [OF inv that] i(2) st len i256 by (auto simp: conn_wf_def)
  moreover have "waits_wf X (sv_conns ?s) (sv_wait ?s)"
    unfolding waits_wf_def nth wait upd_sel len using Inv_ringD [OF inv] by blast
  moreover have "map fc_draining (sv_conns ?s) = D"
    using InvD(2) [OF inv] len i256 by (auto simp: upd_def map_update list_update_same_conv)
  moreover have "\<forall>j \<in> A. j < 256 \<and> fc_state (cn ?s j) \<noteq> CS_FREE" using InvD(7,8) [OF inv] by simp
  moreover have "\<forall>j \<in> U. j \<notin> A \<and> j \<notin> set (waiting (sv_wait srv)) \<and> (j < 256 \<longrightarrow> fc_be (cn ?s j) = None)"
    using InvD(10,11) [OF inv] i(1) by auto
  moreover have "\<forall>j < 256. id_wf (sv_cfg srv) (cn ?s j) \<and> (j \<notin> E \<longrightarrow> authed (sv_cfg srv) (cn ?s j))"
    using InvD(13,14) [OF inv] by (simp add: id_wf_def authed_def)
  ultimately show ?thesis
    unfolding Inv_def upd_sel p using len InvD(12) [OF inv] by (intro conjI allI impI) (assumption | blast)+
qed

text \<open>A frontend gives its connection up and the pool takes it back.\<close>

lemma finish_be_Inv [keeps]:
  assumes inv: "Inv pw E X U A D srv" and i: "i < 256"
  shows "Inv pw E X U A D (finish_be pw cr failed i srv)"
proof (cases "sv_be srv i")
  case None
  then show ?thesis using inv by (simp add: finish_be_def)
next
  case (Some x)
  then obtain b p where x: "fc_be (cn srv i) = Some b" "sv_pool srv = Some p"
    by (auto simp: sv_be_def split: option.splits)
  then have x': "sv_be srv i = Some (b, p, po_conns p ! b)" by (simp add: sv_be_def)
  obtain p' w' where f: "async_finish pw cr b failed p (sv_world srv) = (p', w')" by fastforce
  note L = Inv_lease [OF inv x(2)]
  have b: "b < po_max_conns p" using L(2) [OF i x(1)] by (simp add: busy_set_def)
  note F = async_finish_back [OF L(1) b f]
  let ?s = "upd i (\<lambda>c. c\<lparr>fc_be := None\<rparr>) srv"
  have inv1: "Inv pw E X U A D ?s" using inv by (intro upd_flag_Inv) simp_all
  have "Inv pw E X U A D (set_pool p' w' ?s)"
  proof (rule Inv_set_pool [OF inv1])
    show "sv_pool ?s = Some p" using x(2) by simp
    show "pool_inv p'" using F by blast
    show "c \<in> busy_set p' \<and> serves pw p' c (fc_id (cn ?s j))" if "j < 256" "fc_be (cn ?s j) = Some c" for j c
    proof -
      have j: "j \<noteq> i" "fc_be (cn srv j) = Some c" using that InvD(1) [OF inv] i by (auto split: if_splits)
      then have "c \<noteq> b" using L(3) [OF that(1) i, of b] x(1) by auto
      with F L(2) [OF that(1) j(2)] j(1) show ?thesis by (auto simp: serves_def logs_in_def same_setup_def)
    qed
  qed
  moreover have "finish_be pw cr failed i srv = set_pool p' w' ?s"
    using x' f by (simp add: finish_be_def set_pool_def upd_def)
  ultimately show ?thesis by simp
qed

lemma set_be_conn_Inv:
  assumes inv: "Inv pw E X U A D srv" and x: "sv_be srv i = Some (b, p, bc)" and l: "same_lease bc bc'"
  shows "Inv pw E X U A D (set_be_conn b bc' srv)"
proof -
  have p: "sv_pool srv = Some p" "bc = po_conns p ! b" using x by (auto simp: sv_be_def split: option.splits)
  note S = set_conn_same_lease [OF Inv_lease(1) [OF inv p(1)], of b bc'] 
  have "Inv pw E X U A D (set_pool (set_conn b bc' p) (sv_world srv) srv)"
    using S l p(2) Inv_lease(2) [OF inv p(1)] by (intro Inv_set_pool [OF inv p(1)]) auto
  moreover have "set_be_conn b bc' srv = set_pool (set_conn b bc' p) (sv_world srv) srv"
    using p(1) by (simp add: set_be_conn_def set_pool_def)
  ultimately show ?thesis by simp
qed

lemma set_be_conn_sel [simp]: "cn (set_be_conn b bc srv) i = cn srv i" "sv_conns (set_be_conn b bc srv) = sv_conns srv"
  by (simp_all add: set_be_conn_def cn_def)

end
