(* ===== verification/Server_Keeps.thy ===== *)
theory Server_Keeps
  imports Server_Inv
begin

text \<open>
  Every handler of the backend side keeps the invariant of \<open>Server_Inv\<close>. A handler that is called
  back (what runs after a connection has been released) is known by its contract, the locale \<open>kept\<close>;
  the nested handlers are proved to satisfy it by induction on the nesting, so that the contract
  holds of \<open>after_backend_release\<close> and of \<open>drain_fe_queue\<close>.
\<close>

section \<open>The contract of a handler\<close>

locale kept =
  fixes pw :: "'w pqwire" and h :: "'w handler"
  assumes keep: "i \<in> A \<Longrightarrow> Inv pw E X U A D srv \<Longrightarrow> Inv pw E X U A D (snd (h i srv))"

section \<open>Submissions on a backend connection\<close>

lemma submit_be_recv_Inv [keeps]: "Inv pw E X U A D srv \<Longrightarrow> Inv pw E X U A D (snd (submit_be_recv i srv))"
  by (auto simp: submit_be_recv_def moves_def changes_def conn_wf_def intro!: upd_flag_Inv dest: add_sqe_Inv split: option.splits)

lemma submit_be_send_Inv [keeps]: "Inv pw E X U A D srv \<Longrightarrow> Inv pw E X U A D (snd (submit_be_send i srv))"
  by (auto simp: submit_be_send_def moves_def changes_def conn_wf_def intro!: upd_flag_Inv submit_be_recv_Inv dest: add_sqe_Inv split: option.splits)

lemma deliver_response_Inv [keeps]: "Inv pw E X U A D srv \<Longrightarrow> Inv pw E X U A D (snd (deliver_response pw e i srv))"
  by (auto simp: deliver_response_def Let_def case_prod_beta moves_def changes_def conn_wf_def intro!: upd_flag_Inv queue_plain_send_Inv fe_call_Inv)

section \<open>Taking a connection\<close>

lemma upd_upd: "upd i f (upd i g srv) = upd i (\<lambda>c. f (g c)) srv"
  by (cases "i < length (sv_conns srv)") (simp_all add: upd_def list_update_beyond)

lemma begin_be_Inv:
  assumes inv: "Inv pw E X U A D srv" and run: "begin_be pw cr b i srv = (got, srv1)"
  shows "Inv pw E X U A D srv1" "cn srv1 j = cn srv j"
    "got = Some k \<Longrightarrow> \<exists>p. sv_pool srv1 = Some p \<and> k \<in> busy_set p \<and> serves pw p k (fc_id (cn srv i)) \<and>
      (\<forall>j < 256. fc_be (cn srv j) \<noteq> Some k)"
proof -
  have "Inv pw E X U A D srv1 \<and> (\<forall>j. cn srv1 j = cn srv j) \<and> (\<forall>k. got = Some k \<longrightarrow> (\<exists>p. sv_pool srv1 = Some p \<and> k \<in> busy_set p \<and>
    serves pw p k (fc_id (cn srv i)) \<and> (\<forall>j < 256. fc_be (cn srv j) \<noteq> Some k)))"
  proof (cases "sv_pool srv")
    case None
    then show ?thesis using run inv by (simp add: begin_be_def)
  next
    case (Some p)
    obtain p' w' where a: "async_begin pw cr (fc_cache (cn srv i)) b (fc_id (cn srv i)) p (sv_world srv) = (got, p', w')"
      "srv1 = set_pool p' w' srv" using run Some by (auto simp: begin_be_def split: prod.splits)
    note G = async_begin_grants [OF Inv_lease(1) [OF inv Some] a(1)]
    have "k \<in> busy_set p' \<and> k \<notin> busy_set p" if "got = Some k" for k using that G by (auto simp: grants_def)
    then show ?thesis using a(2) G Inv_grants [OF inv Some] Inv_lease(2) [OF inv Some] by auto
  qed
  then show "Inv pw E X U A D srv1" "cn srv1 j = cn srv j"
    "got = Some k \<Longrightarrow> \<exists>p. sv_pool srv1 = Some p \<and> k \<in> busy_set p \<and> serves pw p k (fc_id (cn srv i)) \<and>
      (\<forall>j < 256. fc_be (cn srv j) \<noteq> Some k)" by blast+
qed

text \<open>The frontend record after \<open>begin_be\<close>: the connection and cleared fields.\<close>

lemma begin_be_own:
  fixes f :: "'w fconn \<Rightarrow> 'w fconn"
  assumes inv: "Inv pw E X U A D srv" and run: "begin_be pw cr b i srv = (Some k, srv1)"
    and i: "i \<in> A" "fc_identity_ready (cn srv i)"
    and f: "\<And>r c. moves E X i r c ((f c)\<lparr>fc_be := None\<rparr>)" "\<And>c. fc_draining (f c) = fc_draining c" "\<And>c. fc_be (f c) = Some k"
      "\<And>c. fc_id (f c) = fc_id c" "\<And>c. fc_identity_ready (f c) = fc_identity_ready c"
  shows "Inv pw E X U A D (upd i f srv1)"
proof -
  note B = begin_be_Inv [OF inv run]
  obtain p where p: "sv_pool srv1 = Some p" "k \<in> busy_set p" "serves pw p k (fc_id (cn srv i))"
    "\<And>j. j < 256 \<Longrightarrow> fc_be (cn srv j) \<noteq> Some k" using B(3) by blast
  let ?s = "upd i (\<lambda>c. (f c)\<lparr>fc_be := None\<rparr>) srv1"
  have "Inv pw E X U A D ?s" using B(1) f(1,2) by (intro upd_flag_Inv) auto
  then have "Inv pw E X U A D (upd i (\<lambda>c. c\<lparr>fc_be := Some k\<rparr>) ?s)"
    by (rule Inv_own [where p = p]) (use p i f B(2) in auto)
  moreover have "(f c)\<lparr>fc_be := Some k\<rparr> = f c" for c using f(3) [of c] by (cases "f c") simp
  ultimately show ?thesis by (simp add: upd_upd)
qed

section \<open>Blocking requests\<close>

lemma overlay_Inv: "Inv pw E X U A D srv \<Longrightarrow> Inv pw E X U A D (upd i (overlay out) srv)"
  by (rule upd_flag_Inv) (auto simp: overlay_def moves_def changes_def conn_wf_def)

lemma blocking_bind_Inv:
  assumes inv: "Inv pw E X U A D srv" and run: "blocking_bind pw cr b i srv = (rc, out, srv1)"
  shows "Inv pw E X U A D srv1 \<and> length out \<le> 16384"
proof (cases "sv_pool srv")
  case None
  then show ?thesis using run inv by (simp add: blocking_bind_def)
next
  case (Some p)
  obtain st p' w' where e: "exec_bind_ex pw cr (fc_cache (cn srv i)) b (fc_id (cn srv i)) IO_BUF p (sv_world srv) = (rc, out, st, p', w')"
    "srv1 = upd i (overlay out) (set_pool p' w' srv)" using run Some by (auto simp: blocking_bind_def split: prod.splits)
  from exec_bind_grants [OF Inv_lease(1) [OF inv Some] e(1)] e(2) Inv_grants [OF inv Some] show ?thesis by (auto intro: overlay_Inv)
qed

lemma blocking_query_Inv:
  assumes inv: "Inv pw E X U A D srv" and run: "blocking_query pw cr sql i srv = (rc, out, srv1)"
  shows "Inv pw E X U A D srv1"
proof (cases "sv_pool srv")
  case None
  then show ?thesis using run inv by (simp add: blocking_query_def)
next
  case (Some p)
  obtain st p' w' where e: "exec_query pw cr (group_name (fc_id (cn srv i))) sql IO_BUF p (sv_world srv) = (rc, out, st, p', w')"
    "srv1 = upd i (overlay out) (set_pool p' w' srv)" using run Some by (auto simp: blocking_query_def split: prod.splits)
  from exec_query_grants [OF Inv_lease(1) [OF inv Some] e(1)] e(2) Inv_grants [OF inv Some] show ?thesis by (auto intro: overlay_Inv)
qed

lemma query_Inv [keeps]: "Inv pw E X U A D srv \<Longrightarrow> Inv pw E X U A D (snd (snd (blocking_query pw cr sql i srv)))"
  using blocking_query_Inv by (metis prod.collapse)

lemma send_query_error_Inv [keeps]: "Inv pw E X U A D srv \<Longrightarrow> Inv pw E X U A D (snd (send_query_error pw i srv))"
  by (auto simp: send_query_error_def Let_def case_prod_beta intro!: fe_call_Inv)

lemma frontend_parse_Inv [keeps]: "Inv pw E X U A D srv \<Longrightarrow> Inv pw E X U A D (snd (frontend_parse pw prs i srv))"
  by (auto simp: frontend_parse_def Let_def case_prod_beta intro!: fe_call_Inv upd_flag_Inv split: option.splits)

section \<open>The end and the start of a pipeline\<close>

lemma resp_Inv: "length out \<le> 16384 \<Longrightarrow> Inv pw E X U A D srv \<Longrightarrow> Inv pw E X U A D (upd i (\<lambda>c. c\<lparr>fc_be_resp := out\<rparr>) srv)"
  by (rule upd_flag_Inv) (auto simp: moves_def changes_def conn_wf_def)

lemma blocking_bind_keeps: "Inv pw E X U A D srv \<Longrightarrow> Inv pw E X U A D (snd (snd (blocking_bind pw cr b i srv)))"
  using blocking_bind_Inv by (metis prod.collapse)

lemma blocking_resp_Inv:
  "Inv pw E X U A D srv \<Longrightarrow> Inv pw E X U A D (upd i (\<lambda>c. c\<lparr>fc_be_resp := fst (snd (blocking_bind pw cr b i srv))\<rparr>) (snd (snd (blocking_bind pw cr b i srv))))"
  using blocking_bind_Inv [of pw E X U A D srv cr b i] by (intro resp_Inv blocking_bind_keeps) (metis prod.collapse)

lemma queue_Inv:
  assumes "Inv pw E X U A D srv" and "feq_inv (fc_q (cn srv i)) \<Longrightarrow> feq_inv (g (cn srv i))"
  shows "Inv pw E X U A D (upd i (\<lambda>c. c\<lparr>fc_q := g c\<rparr>) srv)"
  using assms by (intro Inv_upd_same) (auto simp: moves_def changes_def conn_wf_def)

lemma feq_clear_all_inv: "feq_inv q \<Longrightarrow> feq_inv (feq_clear_all q)"
  by (simp add: feq_inv_def feq_clear_all_def)

context kept
begin

lemma fail_Inv: "i \<in> A \<Longrightarrow> Inv pw E X U A D srv \<Longrightarrow> Inv pw E X U A D (snd (backend_async_fail pw cr h i srv))"
  by (auto simp: backend_async_fail_def Let_def case_prod_beta InvD(7)
      intro!: keep upd_flag_Inv drain_frontend_out_Inv fe_call_Inv finish_be_Inv note_wait_Inv)

lemma complete_Inv:
  assumes i: "i \<in> A" and inv: "Inv pw E X U A D srv"
  shows "Inv pw E X U A D (snd (backend_async_complete pw cr h i srv))"
proof -
  define s1 where "s1 = note_wait i srv"
  define e where "e = (case sv_be s1 i of None \<Rightarrow> False | Some (b, p, bc) \<Rightarrow> ps_saw_error (be_pipe bc))"
  define s2 where "s2 = (if e
      then upd i (\<lambda>c. c\<lparr>fc_q := feq_clear_all (fc_q c), fc_got_execute := False\<rparr>) (count metrics_inc_be_fail s1)
      else count metrics_inc_be_ok s1)"
  define r3 where "r3 = (if e then (OK, s2) else fe_call (w_send_bind_complete pw) i s2)"
  have "Inv pw E X U A D s1" using inv by (simp add: s1_def note_wait_Inv)
  then have "Inv pw E X U A D s2"
    by (auto simp: s2_def moves_def changes_def conn_wf_def feq_clear_all_inv intro!: Inv_upd_same)
  then have "Inv pw E X U A D (snd r3)" by (simp add: r3_def fe_call_Inv)
  then show ?thesis
    unfolding backend_async_complete_def Let_def s1_def [symmetric] e_def [symmetric] s2_def [symmetric] r3_def [symmetric]
    using i InvD(7) [OF inv i]
    by (auto simp: case_prod_beta intro!: keep drain_frontend_out_Inv deliver_response_Inv finish_be_Inv)
qed

lemma start_event_Inv:
  assumes i: "i \<in> A" and inv: "Inv pw E X U A D srv" and ready: "fc_identity_ready (cn srv i)"
  shows "Inv pw E X U A D (snd (start_async_bind_from_event pw cr h b i srv))"
proof -
  obtain got s1 where b: "begin_be pw cr b i srv = (got, s1)" by fastforce
  show ?thesis
  proof (cases got)
    case None
    then show ?thesis using begin_be_Inv(1) [OF inv b] b by (simp add: start_async_bind_from_event_def)
  next
    case (Some k)
    let ?t = "sv_now_ns srv"
    have "Inv pw E X U A D (upd i (\<lambda>c. c\<lparr>fc_be := Some k, fc_be_resp := [], fc_be_start_ns := ?t\<rparr>) s1)"
      using b Some by (intro begin_be_own [OF inv _ i ready, of cr b k]) (auto simp: moves_def changes_def conn_wf_def)
    then show ?thesis using b Some i
      by (auto simp: start_async_bind_from_event_def Let_def case_prod_beta intro!: fail_Inv submit_be_send_Inv)
  qed
qed

lemma start_queue_Inv:
  assumes i: "i \<in> A" and inv: "Inv pw E X U A D srv" and ready: "fc_identity_ready (cn srv i)"
  shows "Inv pw E X U A D (snd (start_async_bind_from_queue pw cr h it i srv))"
proof -
  let ?b = "bind_of_item pw it"
  obtain got s1 where b: "begin_be pw cr ?b i srv = (got, s1)" by fastforce
  show ?thesis
  proof (cases got)
    case None
    then show ?thesis using begin_be_Inv(1) [OF inv b] b inv by (auto simp: start_async_bind_from_queue_def Let_def)
  next
    case (Some k)
    let ?t = "sv_now_ns srv"
    have "Inv pw E X U A D (upd i (\<lambda>c. c\<lparr>fc_be := Some k, fc_be_resp := [], fc_got_execute := False, fc_got_sync := False,
        fc_be_start_ns := ?t\<rparr>) s1)"
      using b Some by (intro begin_be_own [OF inv _ i ready, of cr ?b k]) (auto simp: moves_def changes_def conn_wf_def)
    then show ?thesis using b Some i inv
      by (auto simp: start_async_bind_from_queue_def Let_def case_prod_beta intro!: fail_Inv submit_be_send_Inv)
  qed
qed

text \<open>An item of the queue. The drain mark is on while the loop goes on and off when it is left.\<close>

lemma drain_bind_Inv:
  assumes i: "i \<in> A" and inv: "Inv pw E X U A D srv"
  shows "case drain_bind pw cr h it i srv of Inl r \<Rightarrow> Inv pw E X U A (D[i := False]) (snd r) | Inr s \<Rightarrow> Inv pw E X U A D s"
proof -
  have off: "Inv pw E X U A (D[i := False]) (snd (drain_frontend_out pw i (upd i (\<lambda>c. c\<lparr>fc_draining := False\<rparr>) s)))" if "Inv pw E X U A D s" for s
    using Inv_upd [OF that, of i "\<lambda>c. c\<lparr>fc_draining := False\<rparr>"] by (intro drain_frontend_out_Inv) simp
  have q: "Inv pw E X U A D (upd i (\<lambda>c. c\<lparr>fc_q := feq_push_front (fc_q c) it\<rparr>) s)" if "Inv pw E X U A D s" "q_count (fc_q (cn s i)) < 32" for s
    using that feq_push_front_items by (intro queue_Inv) auto
  show ?thesis
  proof (cases "sv_pool srv \<noteq> None \<and> fc_identity_ready (cn srv i)")
    case False
    then show ?thesis using inv by (auto simp: drain_bind_def Let_def intro: fe_call_Inv)
  next
    case True
    note st = start_queue_Inv [OF i inv, of cr it]
    show ?thesis using True i st inv
      by (auto simp: drain_bind_def Let_def case_prod_beta intro!: off fe_call_Inv blocking_resp_Inv blocking_bind_keeps park_for_backend_Inv q)
  qed
qed

lemma drain_item_Inv:
  assumes i: "i \<in> A" and inv: "Inv pw E X U A D srv"
  shows "case drain_item pw cr h it i srv of Inl r \<Rightarrow> Inv pw E X U A (D[i := False]) (snd r) | Inr s \<Rightarrow> Inv pw E X U A D s"
proof (cases "it_kind it = FEQ_BIND")
  case True
  then show ?thesis using drain_bind_Inv [OF i inv, of cr it] by (simp add: drain_item_def)
next
  case False
  then show ?thesis using inv InvD(8) [OF inv i]
    by (cases "it_kind it")
      (auto simp: drain_item_def Let_def case_prod_beta
        intro!: fe_call_Inv queue_plain_send_Inv frontend_parse_Inv query_Inv upd_flag_Inv)
qed

lemma drain_loop_Inv: "i \<in> A \<Longrightarrow> Inv pw E X U A D srv \<Longrightarrow> Inv pw E X U A (D[i := False]) (snd (drain_loop pw cr h k i srv))"
proof (induction k arbitrary: srv)
  have off: "Inv pw E X U A (D[i := False]) (snd (drain_frontend_out pw i (upd i (\<lambda>c. c\<lparr>fc_draining := False\<rparr>) s)))" if "Inv pw E X U A D s" for s
    using Inv_upd [OF that, of i "\<lambda>c. c\<lparr>fc_draining := False\<rparr>"] by (intro drain_frontend_out_Inv) simp
  { case 0
    then show ?case using off by simp
  next
    case (Suc k)
    show ?case
    proof (cases "if fc_be_wait (cn srv i) = BE_IDLE then feq_pop (fc_q (cn srv i)) else None")
      case None
      then show ?thesis using off Suc.prems by simp
    next
      case (Some x)
      obtain it q where x: "x = (it, q)" by fastforce
      let ?s = "upd i (\<lambda>c. c\<lparr>fc_q := q\<rparr>) srv"
      have "Inv pw E X U A D ?s"
        using Some x feq_pop_items [of "fc_q (cn srv i)" it q] Suc.prems by (intro queue_Inv) (auto split: if_splits)
      from drain_item_Inv [OF Suc.prems(1) this, of cr it] Suc show ?thesis
        by (auto simp: Some x split: sum.splits)
    qed }
qed

lemma drain_queue_kept: "kept pw (drain_queue pw cr h)"
proof
  fix i A E X U D and srv :: "'w server"
  assume i: "i \<in> A" and inv: "Inv pw E X U A D srv"
  show "Inv pw E X U A D (snd (drain_queue pw cr h i srv))"
  proof (cases "fc_draining (cn srv i)")
    case False
    have i256: "i < 256" using InvD(7) [OF inv i] .
    have D: "D[i := False] = D" using InvD(9) [OF inv i256] False by (metis list_update_id)
    have "Inv pw E X U A (D[i := True]) (upd i (\<lambda>c. c\<lparr>fc_draining := True\<rparr>) srv)"
      using Inv_upd [OF inv, of i "\<lambda>c. c\<lparr>fc_draining := True\<rparr>"] by simp
    from drain_loop_Inv [OF i this, of cr "q_count (fc_q (cn srv i))"] D False show ?thesis
      by (simp add: drain_queue_def)
  qed (use inv in \<open>simp add: drain_queue_def\<close>)
qed

end

section \<open>Scheduling\<close>

context kept
begin

lemma schedule_one_Inv:
  assumes inv: "Inv pw E (insert slot X) U A D srv" and slot: "slot < 256" "slot \<notin> U"
  shows "Inv pw E X U A D (snd (schedule_one h slot srv))"
proof (cases "fc_state (cn srv slot) = CS_FREE \<or> fc_be_wait (cn srv slot) \<noteq> BE_WAITING_POOL")
  case True
  then have "fc_be_wait (cn srv slot) \<noteq> BE_WAITING_POOL" using InvD(4) [OF inv slot(1)] by (auto simp: conn_wf_def)
  with Inv_not_waiting [OF inv] have "Inv pw E X U A D srv" by blast
  with True slot show ?thesis by (auto simp: schedule_one_def)
next
  case False
  let ?B = "insert slot A" and ?s = "upd slot (\<lambda>c. c\<lparr>fc_be_wait := BE_IDLE\<rparr>) srv"
  have "Inv pw E (insert slot X) U ?B D srv" using Inv_in_use [OF inv slot(1)] slot(2) False by blast
  then have "Inv pw E (insert slot X) U ?B D ?s" by (intro upd_flag_Inv) simp_all
  then have s: "Inv pw E X U ?B D ?s" using InvD(1) [OF inv] slot by (intro Inv_not_waiting [of _ _ slot X]) auto
  have k: "Inv pw E X U ?B D (snd (h slot ?s))" by (rule keep [OF insertI1 s])
  have "Inv pw E X U ?B D (snd (schedule_one h slot srv))"
    using False slot s k by (auto simp: schedule_one_def Let_def case_prod_beta intro: park_for_backend_Inv)
  then show ?thesis by (rule Inv_weaken) auto
qed

lemma fair_loop_Inv: "Inv pw E X U A D srv \<Longrightarrow> Inv pw E X U A D (snd (fair_loop h k n srv))"
proof (induction k arbitrary: n srv)
  case (Suc k)
  show ?case
  proof (cases "waiters_pop (sv_wait srv)")
    case (Some x)
    obtain slot r where x: "x = (slot, r)" by fastforce
    note P = waiters_pop_Inv [OF Suc.prems Some [unfolded x]]
    have "Inv pw E X U A D (snd (schedule_one h slot (count (metrics_set_pool_waiters (r_count r)) (srv\<lparr>sv_wait := r\<rparr>))))"
      using P by (intro schedule_one_Inv) simp_all
    with Suc.IH show ?thesis by (simp add: Some x case_prod_beta)
  qed (use Suc.prems in simp)
qed simp

lemma schedule_waiters_Inv: "Inv pw E X U A D srv \<Longrightarrow> Inv pw E X U A D (snd (schedule_waiters h srv))"
  by (simp add: schedule_waiters_def fair_loop_Inv)

lemma release_step_kept: "kept pw (release_step pw h)"
proof
  fix i A E X U D and srv :: "'w server"
  assume i: "i \<in> A" and inv: "Inv pw E X U A D srv"
  let ?s = "upd i (\<lambda>c. c\<lparr>fc_be_wait := BE_IDLE, fc_got_execute := False, fc_got_sync := False\<rparr>) srv"
  have s: "Inv pw E X U A D ?s" using inv by (intro upd_flag_Inv) (auto simp: moves_def changes_def conn_wf_def)
  show "Inv pw E X U A D (snd (release_step pw h i srv))"
    using s i by (auto simp: release_step_def Let_def intro!: keep drain_frontend_out_Inv schedule_waiters_Inv)
qed

end

lemma release_kept: "kept pw (release pw cr k)"
proof (induction k)
  case 0
  show ?case by unfold_locales simp
next
  case (Suc k)
  from kept.release_step_kept [OF kept.drain_queue_kept [OF Suc]] show ?case by simp
qed

interpretation after: kept pw "after_backend_release pw cr" for pw cr
  unfolding after_backend_release_def by (rule release_kept)

interpretation drain: kept pw "drain_fe_queue pw cr" for pw cr
  unfolding drain_fe_queue_def by (rule after.drain_queue_kept)

lemma fair_schedule_Inv [keeps]: "Inv pw E X U A D srv \<Longrightarrow> Inv pw E X U A D (snd (fair_schedule_waiters pw cr srv))"
  by (simp add: fair_schedule_waiters_def drain.schedule_waiters_Inv)

section \<open>Completions on a backend connection\<close>

lemma same_lease_advance: "same_lease bc (async_send_advance bc n)"
  by (simp add: same_lease_def async_send_advance_def conn_ok_def)

lemma on_be_send_cqe_Inv [keeps]:
  assumes i: "i \<in> A" and inv: "Inv pw E X U A D srv"
  shows "Inv pw E X U A D (snd (on_be_send_cqe pw cr res i srv))"
proof -
  let ?s = "upd i (\<lambda>c. c\<lparr>fc_be_send_pending := False\<rparr>) srv"
  have s: "Inv pw E X U A D ?s" using inv by (intro upd_flag_Inv) simp_all
  show ?thesis using i s
    by (auto simp: on_be_send_cqe_def Let_def
        intro!: submit_be_send_Inv after.fail_Inv set_be_conn_Inv [OF s] same_lease_advance split: option.splits)
qed

lemma on_be_recv_cqe_Inv [keeps]:
  assumes i: "i \<in> A" and inv: "Inv pw E X U A D srv"
  shows "Inv pw E X U A D (snd (on_be_recv_cqe pw cr res data i srv))"
proof -
  let ?s = "upd i (\<lambda>c. c\<lparr>fc_be_recv_pending := False\<rparr>) srv"
  have s: "Inv pw E X U A D ?s" using inv by (intro upd_flag_Inv) simp_all
  have fail: "Inv pw E X U A D (snd (backend_async_fail pw cr (after_backend_release pw cr) i t))" if "Inv pw E X U A D t" for t
    by (rule after.fail_Inv [OF i that])
  show ?thesis
  proof (cases "sv_be ?s i")
    case None
    then show ?thesis using fail [OF s] by (simp add: on_be_recv_cqe_def Let_def)
  next
    case (Some x)
    obtain b p bc where x: "x = (b, p, bc)" by (metis prod_cases3)
    obtain rc fin bc' out where a: "async_on_recv pw bc data (fc_be_resp (cn srv i)) IO_BUF = (rc, fin, bc', out)" by (metis prod_cases4)
    note C = async_on_recv_conn [OF a]
    let ?t = "upd i (\<lambda>c. c\<lparr>fc_be_resp := out\<rparr>) (set_be_conn b bc' ?s)"
    have "same_lease bc bc'" using C by (simp add: same_lease_def)
    moreover have "length out \<le> 16384" using C InvD(4) [OF inv InvD(7) [OF inv i]] by (simp add: conn_wf_def)
    ultimately have t: "Inv pw E X U A D ?t" using set_be_conn_Inv [OF s Some [unfolded x]] by (intro resp_Inv) auto
    show ?thesis
      using fail [OF s] fail [OF t] after.complete_Inv [OF i t] submit_be_recv_Inv [OF t]
      by (auto simp: on_be_recv_cqe_def Let_def Some [unfolded x] a)
  qed
qed

section \<open>Closing a connection\<close>

lemma finish_be_free:
  assumes "fc_be (cn srv i) \<noteq> None \<and> sv_pool srv \<noteq> None" and "i < length (sv_conns srv)"
  shows "fc_be (cn (finish_be pw cr failed i srv) i) = None" "sv_wait (finish_be pw cr failed i srv) = sv_wait srv"
  using assms by (auto simp: finish_be_def sv_be_def case_prod_beta split: option.splits)

text \<open>The connection that is closed is no longer among those in use: it is free, owns nothing, waits
  for nothing.\<close>

lemma close_conn_frees:
  assumes inv: "Inv pw (insert i E) X U A D srv" and i: "i < 256" and used: "fc_state (cn srv i) \<noteq> CS_FREE"
  shows "Inv pw E X (insert i U) (A - {i}) D (close_conn pw cr i srv)"
    "fc_state (cn (close_conn pw cr i srv) i) = CS_FREE" "fc_be_wait (cn (close_conn pw cr i srv) i) = BE_IDLE"
    "fc_frontend (cn (close_conn pw cr i srv) i) = None" "fc_fd (cn (close_conn pw cr i srv) i) = - 1"
    "feq_items (fc_q (cn (close_conn pw cr i srv) i)) = []"
proof -
  let ?E = "insert i E" and ?B = "A - {i}" and ?Y = "insert i X" and ?V = "insert i U"
  have slot: "fc_slot (cn srv i) = i" using used InvD(4) [OF inv i] by (simp add: conn_wf_def)
  let ?s1 = "sv_waiters_remove i srv"
  let ?s2 = "if fc_be (cn ?s1 i) \<noteq> None \<and> sv_pool ?s1 \<noteq> None
    then snd (fair_schedule_waiters pw cr (finish_be pw cr True i ?s1)) else ?s1"
  let ?z = "\<lambda>c. c\<lparr>fc_ssl := False, fc_frontend := None, fc_fd := - 1, fc_state := CS_FREE,
                 fc_send_pending := False, fc_recv_pending := False, fc_poll_pending := False,
                 fc_be_send_pending := False, fc_be_recv_pending := False, fc_be_wait := BE_IDLE,
                 fc_be_start_ns := 0, fc_q := feq_clear_all (fc_q c)\<rparr>"
  have s1: "Inv pw ?E ?Y U ?B D ?s1" by (rule Inv_weaken [OF sv_waiters_remove_Inv(1) [OF inv]]) auto
  have out: "i \<notin> set (waiting (sv_wait ?s1))" by (rule sv_waiters_remove_Inv(4) [OF inv])
  have mark: "Inv pw ?E ?Y ?V ?B D s" if "Inv pw ?E ?Y U ?B D s" "i \<notin> set (waiting (sv_wait s))" "fc_be (cn s i) = None" for s
    using that by (simp add: Inv_def)
  have s2: "Inv pw ?E ?Y ?V ?B D ?s2"
  proof (cases "fc_be (cn ?s1 i) \<noteq> None \<and> sv_pool ?s1 \<noteq> None")
    case True
    let ?f = "finish_be pw cr True i ?s1"
    have "Inv pw ?E ?Y ?V ?B D ?f"
      using True out finish_be_free [of ?s1 i] InvD(1) [OF s1] i by (intro mark finish_be_Inv [OF s1 i]) simp_all
    then show ?thesis using True by (simp add: fair_schedule_Inv)
  next
    case False
    have "fc_be (cn ?s1 i) = None"
    proof (cases "sv_pool ?s1")
      case None
      then show ?thesis using InvD(1,5) [OF s1] i by (simp add: lease_wf_def cn_def)
    qed (use False in blast)
    with False mark [OF s1 out] show ?thesis by simp
  qed
  have "conn_wf i (?z (cn ?s2 i))"
    using InvD(4) [OF s2 i] InvD(11) [OF s2 _ i] by (simp add: conn_wf_def feq_clear_all_inv)
  then have "Inv pw ?E ?Y ?V ?B D (upd i ?z ?s2)"
    using Inv_change [OF s2, of i ?z] InvD(9) [OF s2 i] InvD(11) [OF s2 _ i] by (simp add: changes_def)
  then have "Inv pw ?E X ?V ?B D (upd i ?z ?s2)"
    using InvD(1) [OF s2] i by (intro Inv_not_waiting [of _ _ i X]) simp_all
  then have "Inv pw E X ?V ?B D (upd i ?z ?s2)"
    using InvD(1) [OF s2] i by (intro Inv_unexempt [of pw i E]) (simp_all add: authed_def)
  moreover have e: "close_conn pw cr i srv = count metrics_inc_closes (upd i ?z ?s2)"
    using used slot by (simp add: close_conn_def Let_def)
  ultimately show "Inv pw E X ?V ?B D (close_conn pw cr i srv)" by simp
  have "feq_items (feq_clear_all q) = []" for q by (simp add: feq_items_def feq_clear_all_def ring_view_def)
  then have "fc_state (cn (close_conn pw cr i srv) i) = CS_FREE \<and> fc_be_wait (cn (close_conn pw cr i srv) i) = BE_IDLE \<and>
      fc_frontend (cn (close_conn pw cr i srv) i) = None \<and> fc_fd (cn (close_conn pw cr i srv) i) = - 1 \<and>
      feq_items (fc_q (cn (close_conn pw cr i srv) i)) = []"
    using InvD(1) [OF s2] i unfolding e by simp
  then show "fc_state (cn (close_conn pw cr i srv) i) = CS_FREE" "fc_be_wait (cn (close_conn pw cr i srv) i) = BE_IDLE"
    "fc_frontend (cn (close_conn pw cr i srv) i) = None" "fc_fd (cn (close_conn pw cr i srv) i) = - 1"
    "feq_items (fc_q (cn (close_conn pw cr i srv) i)) = []" by blast+
qed

lemma close_conn_Inv [keeps]:
  assumes inv: "Inv pw (insert i E) X U A D srv" and i: "i < 256"
  shows "Inv pw E X U (A - {i}) D (close_conn pw cr i srv)"
proof (cases "fc_state (cn srv i) = CS_FREE")
  case True
  then have "Inv pw E X U A D srv" using inv by (intro Inv_unexempt [OF inv]) (simp add: authed_def)
  then have "Inv pw E X U (A - {i}) D srv" by (rule Inv_weaken) auto
  then show ?thesis using True by (simp add: close_conn_def)
next
  case False
  show ?thesis by (rule Inv_weaken [OF close_conn_frees(1) [OF inv i False]]) auto
qed

end
