(* ===== verification/Server_Safe.thy ===== *)
theory Server_Safe
  imports Server_Keeps
begin

text \<open>
  The event loop as a whole: the handlers of the frontend side, the acceptance of a connection, the
  dispatch of completions and the turns of the loop keep the invariant of \<open>Server_Inv\<close>, so every
  reachable state of the server satisfies it.
\<close>

section \<open>Protocol events\<close>

lemma must_snd [simp]: "snd (must r) = snd r"
  by (simp add: must_def case_prod_beta)

lemma push_Inv [keeps]:
  assumes "Inv pw E X U A D srv"
  shows "Inv pw E X U A D (snd (on_queue (\<lambda>q. feq_push q x) i srv))" "Inv pw E X U A D (snd (on_queue (\<lambda>q. feq_push_parse q prs) i srv))"
    "Inv pw E X U A D (snd (on_queue (\<lambda>q. feq_push_bind pw q b) i srv))"
  using assms by (simp_all add: on_queue_Inv feq_push_inv feq_pushes_inv)

lemma bind_blocking_Inv [keeps]: "Inv pw E X U A D srv \<Longrightarrow> Inv pw E X U A D (snd (bind_blocking pw cr b i srv))"
  by (auto simp: bind_blocking_def Let_def case_prod_beta intro!: fe_call_Inv blocking_resp_Inv blocking_bind_keeps)

lemma on_ev_bind_Inv:
  assumes i: "i \<in> A" and inv: "Inv pw E X U A D srv"
  shows "Inv pw E X U A D (snd (on_ev_bind pw cr b i srv))"
proof -
  let ?s = "upd i (\<lambda>c. c\<lparr>fc_be_resp := [], fc_got_execute := False, fc_got_sync := False\<rparr>) srv"
  have s: "Inv pw E X U A D ?s" using inv by (intro upd_flag_Inv) (auto simp: moves_def changes_def conn_wf_def)
  have st: "Inv pw E X U A D (snd (start_async_bind_from_event pw cr (after_backend_release pw cr) b i ?s))"
    if "fc_identity_ready (cn ?s i)" by (rule after.start_event_Inv [OF i s that])
  show ?thesis
  proof (cases "fc_be_wait (cn srv i) \<noteq> BE_IDLE")
    case True
    then show ?thesis using inv
      by (auto simp: on_ev_bind_def Let_def case_prod_beta intro!: fe_call_Inv push_Inv)
  next
    case idle: False
    show ?thesis
    proof (cases "sv_pool ?s \<noteq> None \<and> fc_identity_ready (cn ?s i) \<and> sv_async ?s")
      case False
      have "on_ev_bind pw cr b i srv = bind_blocking pw cr b i ?s"
        unfolding on_ev_bind_def Let_def if_not_P [OF idle] if_not_P [OF False] ..
      with s show ?thesis by (simp add: bind_blocking_Inv)
    next
      case True
      define r where "r = start_async_bind_from_event pw cr (after_backend_release pw cr) b i ?s"
      have "Inv pw E X U A D (snd r)" using st True by (simp add: r_def)
      moreover have "snd (on_ev_bind pw cr b i srv) = snd (if fst r = 0 then r
          else if sv_fair (snd r) then
            (let (rc2, srv2) = on_queue (\<lambda>q. feq_push_bind pw q b) i (snd r) in
             if rc2 = 0 then
               (let (rc3, srv3) = park_for_backend i srv2 in
                if rc3 = 0 then (OK, srv3) else bind_blocking pw cr b i srv3)
             else bind_blocking pw cr b i srv2)
          else bind_blocking pw cr b i (snd r))"
        unfolding on_ev_bind_def Let_def if_not_P [OF idle] if_P [OF True] r_def [symmetric]
        by (simp add: case_prod_beta)
      ultimately show ?thesis using i
        by (auto simp: Let_def case_prod_beta intro!: bind_blocking_Inv park_for_backend_Inv push_Inv)
    qed
  qed
qed

lemma on_event_Inv:
  assumes i: "i \<in> A" and inv: "Inv pw E X U A D srv"
  shows "Inv pw E X U A D (snd (on_event pw cr ev i srv))"
proof -
  note on_ev_bind_Inv [OF assms]
  moreover have "Inv pw E X U A D (upd i (\<lambda>c. c\<lparr>fc_state := CS_CLOSING\<rparr>) srv)"
    using inv InvD(8) [OF inv i] by (intro Inv_upd_same) simp_all
  ultimately show ?thesis using inv
    by (cases ev)
      (auto simp: on_event_def on_ev_startup_def on_ev_parse_def on_ev_execute_def on_ev_sync_def on_ev_query_def Let_def case_prod_beta
        intro!: fe_call_Inv push_Inv upd_flag_Inv queue_plain_send_Inv frontend_parse_Inv query_Inv send_query_error_Inv)
qed

lemma event_loop_Inv: "i \<in> A \<Longrightarrow> Inv pw E X U A D srv \<Longrightarrow> Inv pw E X U A D (snd (event_loop pw cr k i srv))"
proof (induction k arbitrary: srv)
  case (Suc k)
  have "Inv pw E X U A D (upd i (\<lambda>c. c\<lparr>fc_frontend := w\<rparr>) srv)" for w using Suc.prems by (intro upd_flag_Inv) simp_all
  with Suc show ?case
    by (auto simp: case_prod_beta intro!: drain_frontend_out_Inv on_event_Inv split: option.splits)
qed (simp add: drain_frontend_out_Inv)

lemma feed_plain_Inv [keeps]: "i \<in> A \<Longrightarrow> Inv pw E X U A D srv \<Longrightarrow> Inv pw E X U A D (snd (feed_plain pw cr data i srv))"
  by (auto simp: feed_plain_def process_frontend_def intro!: event_loop_Inv drain_frontend_out_Inv upd_flag_Inv split: option.splits)

lemma closing_Inv: "i \<in> A \<Longrightarrow> Inv pw E X U A D srv \<Longrightarrow> Inv pw E X U A D (upd i (\<lambda>c. c\<lparr>fc_state := CS_CLOSING\<rparr>) srv)"
  using InvD(8) [of pw E X U A D srv i] by (intro Inv_upd_same) simp_all

lemma on_recv_plain_Inv [keeps]: "i \<in> A \<Longrightarrow> Inv pw E X U A D srv \<Longrightarrow> Inv pw E X U A D (snd (on_recv_plain pw cr data i srv))"
  by (auto simp: on_recv_plain_def intro!: closing_Inv feed_plain_Inv)

section \<open>TLS\<close>

lemma cn_ssl [simp]: "cn (srv\<lparr>sv_ssl := s\<rparr>) i = cn srv i"
  by (simp add: cn_def)

lemma tls_calls_Inv:
  assumes "Inv pw E X U A D srv"
  shows "Inv pw E X U A D (snd (snd (tls_handshake srv)))" "Inv pw E X U A D (snd (snd (tls_identity old srv)))"
    "Inv pw E X U A D (snd (snd (tls_read_plain srv)))" "Inv pw E X U A D (snd (snd (tls_write_plain n srv)))"
    "Inv pw E X U A D (snd (ktls_query srv))"
  using assms
  by (auto simp: tls_handshake_def tls_identity_def tls_read_plain_def tls_write_plain_def ktls_query_def Let_def case_prod_beta
      split: list.splits tls_res.splits option.splits)

lemma tls_calls_cn [simp]:
  "cn (snd (snd (tls_handshake srv))) i = cn srv i" "cn (snd (snd (tls_identity old srv))) i = cn srv i"
  "cn (snd (snd (tls_read_plain srv))) i = cn srv i" "cn (snd (snd (tls_write_plain n srv))) i = cn srv i"
  "cn (snd (ktls_query srv)) i = cn srv i"
  by (auto simp: tls_handshake_def tls_identity_def tls_read_plain_def tls_write_plain_def ktls_query_def Let_def case_prod_beta
      split: list.splits tls_res.splits option.splits)

text \<open>A connection that gets its identity owns no backend.\<close>

lemma with_identity_Inv:
  assumes inv: "Inv pw (insert i E) X U A D srv" and "fc_be (cn srv i) = None" and "fc_state (cn srv i) \<noteq> CS_TLS_HS"
    and wf: "group_name ident \<noteq> [] \<and> length (group_name ident) < 64 \<and> length (router_id ident) < 128"
  shows "Inv pw E X U A D (with_identity ident i srv)"
proof (cases "i < 256")
  case True
  let ?f = "\<lambda>c. c\<lparr>fc_id := ident\<lparr>identity_slot := cfg_identity_slot (sv_cfg srv)\<rparr>, fc_identity_ready := True\<rparr>"
  have "Inv pw (insert i E) X U A (D[i := fc_draining (?f (cn srv i))]) (upd i ?f srv)"
    using assms InvD(4) [OF inv True] InvD(8) [OF inv] by (intro Inv_replace [OF inv]) (auto simp: conn_wf_def id_wf_def authed_def)
  moreover have "D[i := fc_draining (?f (cn srv i))] = D" using InvD(9) [OF inv True] by simp
  ultimately have "Inv pw (insert i E) X U A D (with_identity ident i srv)" by (simp add: with_identity_def)
  then show ?thesis using InvD(1) [OF inv] by (intro Inv_unexempt [of pw i E]) (simp_all add: with_identity_def authed_def)
next
  case False
  then have "with_identity ident i srv = srv"
    using InvD(1) [OF inv] by (simp add: with_identity_def upd_def list_update_beyond)
  then show ?thesis using Inv_unexempt [OF inv] False by simp
qed

lemma tls_identity_wf: "fst (tls_identity old srv) = 0 \<Longrightarrow> group_name (fst (snd (tls_identity old srv))) \<noteq> [] \<and>
    length (group_name (fst (snd (tls_identity old srv)))) < 64 \<and> length (router_id (fst (snd (tls_identity old srv)))) < 128"
  by (auto simp: tls_identity_def dest: peer_identity_wf split: list.splits tls_res.splits option.splits)

lemma tls_identity_cfg [simp]: "sv_cfg (snd (snd (tls_identity old srv))) = sv_cfg srv"
  by (simp add: tls_identity_def split: list.splits tls_res.splits option.splits)

text \<open>The end of a handshake: a connection that stays has its identity when mutual TLS is required.\<close>

lemma handshake_done_Inv:
  assumes inv: "Inv pw E X U A D srv" and i: "i < 256" and st: "fc_state (cn srv i) = CS_TLS_HS"
  shows "Inv pw (insert i E) X U A D (snd (tls_on_handshake_done i srv))"
    "fst (tls_on_handshake_done i srv) = 0 \<Longrightarrow> Inv pw E X U A D (snd (tls_on_handshake_done i srv))"
proof -
  have be: "fc_be (cn srv i) = None" using InvD(4) [OF inv i] st by (auto simp: conn_wf_def)
  let ?E = "insert i E" and ?s = "upd i (\<lambda>c. c\<lparr>fc_state := CS_ACTIVE\<rparr>) srv"
  have s: "Inv pw ?E X U A D ?s"
    using Inv_exempt [OF inv, of ?E] st be by (intro Inv_upd_same) (auto simp: moves_def changes_def conn_wf_def)
  let ?t = "upd i (\<lambda>c. c\<lparr>fc_ktls_on := fst (ktls_query ?s)\<rparr>) (snd (ktls_query ?s))"
  have t: "Inv pw ?E X U A D ?t" using tls_calls_Inv(5) [OF s] by (intro upd_flag_Inv) simp_all
  have c: "fc_be (cn ?t i) = None" "fc_state (cn ?t i) = CS_ACTIVE" using be InvD(1) [OF inv] i by simp_all
  define r where "r = tls_identity (fc_id (cn ?t i)) ?t"
  let ?u = "upd i (\<lambda>c. c\<lparr>fc_id := fst (snd r)\<rparr>) (snd (snd r))"
  have r: "Inv pw ?E X U A D (snd (snd r))" "cn (snd (snd r)) i = cn ?t i" using tls_calls_Inv(2) [OF t] by (simp_all add: r_def)
  have u: "Inv pw ?E X U A D ?u"
    using r c InvD(4) [OF inv i] st InvD(1) [OF inv] i by (intro Inv_upd_same) (auto simp: moves_def changes_def conn_wf_def)
  have d: "tls_on_handshake_done i srv = (if fst r = 0 then (OK, with_identity (fst (snd r)) i (snd (snd r)))
      else (if require_mtls (sv_cfg (snd (snd r))) then ERR else OK, ?u))"
    by (simp only: tls_on_handshake_done_def Let_def case_prod_beta r_def)
  have with_id: "Inv pw E X U A D (with_identity (fst (snd r)) i (snd (snd r)))" if "fst r = 0"
    using r c tls_identity_wf [OF that [unfolded r_def]] by (intro with_identity_Inv) (simp_all add: r_def)
  have "Inv pw E X U A D ?u" if "\<not> require_mtls (sv_cfg (snd (snd r)))"
    using that by (intro Inv_unexempt [OF u]) (simp add: authed_def)
  with with_id show "fst (tls_on_handshake_done i srv) = 0 \<Longrightarrow> Inv pw E X U A D (snd (tls_on_handshake_done i srv))"
    unfolding d by (auto split: if_splits)
  show "Inv pw ?E X U A D (snd (tls_on_handshake_done i srv))"
    unfolding d using u Inv_exempt [OF with_id, of ?E] by auto
qed

lemma tls_write_loop_Inv: "Inv pw E X U A D srv \<Longrightarrow> Inv pw E X U A D (snd (tls_write_loop k i srv))"
proof (induction k arbitrary: srv)
  case (Suc k)
  let ?c = "cn srv i"
  define w where "w = tls_write_plain (length (fc_send ?c) - fc_send_off ?c) srv"
  have w: "Inv pw E X U A D (snd (snd w))" "cn (snd (snd w)) i = ?c" by (simp_all add: w_def tls_calls_Inv [OF Suc.prems])
  have bound: "fst (snd w) \<le> length (fc_send ?c) - fc_send_off ?c"
    by (auto simp: w_def tls_write_plain_def case_prod_beta write_plain_bound split: list.splits tls_res.splits)
  let ?s = "upd i (\<lambda>c. c\<lparr>fc_send_off := fc_send_off c + fst (snd w)\<rparr>) (snd (snd w))"
  have s: "Inv pw E X U A D ?s" using w bound by (intro Inv_upd_same) (auto simp: moves_def changes_def conn_wf_def)
  have "Inv pw E X U A D (upd i (\<lambda>c. c\<lparr>fc_ktls_on := on\<rparr>) t)" if "Inv pw E X U A D t" for on t
    using that by (intro upd_flag_Inv) simp_all
  moreover have "Inv pw E X U A D (upd i (\<lambda>c. c\<lparr>fc_want_poll_out := True\<rparr>) (snd (snd w)))" using w by (intro upd_flag_Inv) simp_all
  moreover have "Inv pw E X U A D (upd i (\<lambda>c. c\<lparr>fc_send := [], fc_send_off := 0, fc_want_poll_out := False\<rparr>) srv)"
    using Suc.prems by (intro upd_flag_Inv) simp_all
  ultimately show ?case using s w tls_calls_Inv(5) [OF s]
    by (auto simp: Let_def case_prod_beta w_def [symmetric] intro!: Suc.IH)
qed simp

lemma tls_read_loop_Inv: "i \<in> A \<Longrightarrow> Inv pw E X U A D srv \<Longrightarrow> Inv pw E X U A D (snd (tls_read_loop pw cr k i srv))"
proof (induction k arbitrary: srv)
  case (Suc k)
  with tls_calls_Inv(3) [OF Suc.prems(2)] show ?case
    by (auto simp: Let_def case_prod_beta intro!: Suc.IH feed_plain_Inv closing_Inv)
qed simp

lemma tls_transfer_Inv:
  assumes i: "i \<in> A" and inv: "Inv pw E X U A D srv"
  shows "Inv pw E X U A D (snd (tls_transfer pw cr ev i srv))"
proof -
  have w: "Inv pw E X U A D (snd (tls_drive_write i s))" if "Inv pw E X U A D s" for s :: "'a server"
    unfolding tls_drive_write_def by (rule tls_write_loop_Inv [OF that])
  have r: "Inv pw E X U A D (snd (tls_drive_read pw cr i s))" if "Inv pw E X U A D s" for s :: "'a server"
    unfolding tls_drive_read_def by (rule tls_read_loop_Inv [OF i that])
  define r1 where "r1 = (if pe_out ev then tls_drive_write i srv else (OK, srv))"
  define r2 where "r2 = (if pe_in ev then tls_drive_read pw cr i (snd r1) else (OK, snd r1))"
  define r3 where "r3 = (if length (fc_send (cn (snd r2) i)) > fc_send_off (cn (snd r2) i)
                               then tls_drive_write i (snd r2) else (OK, snd r2))"
  have 1: "Inv pw E X U A D (snd r1)" using inv w by (simp add: r1_def)
  then have 2: "Inv pw E X U A D (snd r2)" using r by (simp add: r2_def)
  then have 3: "Inv pw E X U A D (snd r3)" using w by (simp add: r3_def)
  have "tls_transfer pw cr ev i srv = (if fst r1 \<noteq> 0 then (ERR, snd r1)
      else if fst r2 \<noteq> 0 then (ERR, snd r2) else if fst r3 \<noteq> 0 then (ERR, snd r3)
      else if fc_state (cn (snd r3) i) = CS_CLOSING \<and> fc_send (cn (snd r3) i) = [] then (ERR, snd r3)
      else submit_poll i (snd r3))"
    by (simp add: tls_transfer_def Let_def case_prod_beta r1_def [symmetric] r2_def [symmetric] r3_def [symmetric])
  with 1 2 3 show ?thesis by (simp add: submits_Inv)
qed

lemma on_tls_poll_Inv:
  assumes i: "i \<in> A" and inv: "Inv pw E X U A D srv"
  shows "Inv pw (insert i E) X U A D (snd (on_tls_poll pw cr ev i srv))"
    "fst (on_tls_poll pw cr ev i srv) = 0 \<Longrightarrow> Inv pw E X U A D (snd (on_tls_poll pw cr ev i srv))"
proof -
  have ex: "Inv pw (insert i E) X U A D s" if "Inv pw E X U A D s" for s :: "'a server" by (rule Inv_exempt [OF that]) auto
  define r where "r = tls_handshake srv"
  have r: "Inv pw E X U A D (snd (snd r))" "cn (snd (snd r)) i = cn srv i" using tls_calls_Inv [OF inv] by (simp_all add: r_def)
  have w: "Inv pw E X U A D (upd i (\<lambda>c. c\<lparr>fc_want_poll_out := fst (snd r)\<rparr>) (snd (snd r)))" using r(1) by (intro upd_flag_Inv) simp_all
  define h where "h = tls_on_handshake_done i (snd (snd r))"
  have h: "Inv pw (insert i E) X U A D (snd h)" "fst h = 0 \<Longrightarrow> Inv pw E X U A D (snd h)" if "fc_state (cn srv i) = CS_TLS_HS"
    using handshake_done_Inv [OF r(1) InvD(7) [OF inv i]] that r(2) by (simp_all add: h_def)
  have d: "on_tls_poll pw cr ev i srv = (if pe_error ev then (ERR, srv)
      else if fc_state (cn srv i) = CS_TLS_HS then
        (if fst r < 0 then (ERR, snd (snd r))
         else if fst r = 0 then submit_poll i (upd i (\<lambda>c. c\<lparr>fc_want_poll_out := fst (snd r)\<rparr>) (snd (snd r)))
         else if fst h \<noteq> 0 then (ERR, snd h) else tls_transfer pw cr ev i (snd h))
      else tls_transfer pw cr ev i srv)"
    by (simp add: on_tls_poll_def Let_def case_prod_beta r_def [symmetric] h_def [symmetric])
  show "fst (on_tls_poll pw cr ev i srv) = 0 \<Longrightarrow> Inv pw E X U A D (snd (on_tls_poll pw cr ev i srv))"
    unfolding d using h w inv i by (auto intro: submits_Inv tls_transfer_Inv split: if_splits)
  show "Inv pw (insert i E) X U A D (snd (on_tls_poll pw cr ev i srv))"
    unfolding d using h w inv i r(1) by (auto intro!: ex intro: submits_Inv tls_transfer_Inv)
qed

section \<open>Accepting a connection\<close>

abbreviation (input) Good :: "'w pqwire \<Rightarrow> 'w server \<Rightarrow> bool" where
  "Good pw \<equiv> Inv pw {} {} {} {} (replicate 256 False)"

lemma alloc_conn_Inv:
  assumes inv: "Good pw srv" and a: "alloc_conn srv = Some (i, srv1)"
  shows "Good pw srv1" "i < 256" "fc_slot (cn srv1 i) = i" "fc_be (cn srv1 i) = None" "fc_state (cn srv1 i) = CS_FREE"
    "\<not> fc_identity_ready (cn srv1 i)" "fc_be_wait (cn srv1 i) = BE_IDLE"
proof -
  define z :: "'a fconn" where "z = fconn_zero\<lparr>fc_slot := i, fc_fd := - 1, fc_id := identity_clear, fc_cache := stmt_cache_init\<rparr>"
  have len: "length (sv_conns srv) = 256" by (rule InvD(1) [OF inv])
  have i: "i < 256" and e: "srv1 = upd i (\<lambda>_. z) srv"
    using a len by (auto simp: alloc_conn_def z_def find_Some_iff split: option.splits)
  have z: "conn_wf i z" "fc_draining z = False" "fc_be z = None" "fc_be_wait z = BE_IDLE"
    "\<not> fc_identity_ready z" "fc_state z = CS_FREE"
    using feq_empty_items by (simp_all add: z_def conn_wf_def fconn_zero_def)
  have "Inv pw {} {} {} {} ((replicate 256 False)[i := fc_draining z]) srv1"
    unfolding e by (rule Inv_change [where f = "\<lambda>_. z", OF inv]) (simp_all add: changes_def z)
  moreover have "(replicate 256 False)[i := fc_draining z] = replicate 256 False"
    using i z(2) by (metis list_update_id nth_replicate)
  ultimately show "Good pw srv1" by simp
  show "i < 256" by (rule i)
  show "fc_slot (cn srv1 i) = i" "fc_be (cn srv1 i) = None" "fc_state (cn srv1 i) = CS_FREE"
    "\<not> fc_identity_ready (cn srv1 i)" "fc_be_wait (cn srv1 i) = BE_IDLE"
    using i len by (simp_all add: e z_def fconn_zero_def)
qed

lemma close_new_Inv: "Inv pw (insert i E) X U A D srv \<Longrightarrow> i < 256 \<Longrightarrow> Inv pw E X U {} D (close_conn pw cr i srv)"
  by (rule Inv_weaken [OF close_conn_Inv]) auto

lemma close_Inv: "Inv pw E X U A D srv \<Longrightarrow> i < 256 \<Longrightarrow> Inv pw E X U {} D (close_conn pw cr i srv)"
  by (rule close_new_Inv [OF Inv_exempt]) auto

text \<open>A fresh connection enters service.\<close>

lemma enter_Inv:
  assumes "Inv pw E X U A D srv" and "fc_slot (cn srv i) = i" "fc_be (cn srv i) = None" "\<not> fc_identity_ready (cn srv i)"
    and "st \<noteq> CS_FREE" and "st = CS_ACTIVE \<Longrightarrow> i \<in> E" and "fc_state (f (cn srv i)) = st" "fc_be (f (cn srv i)) = None" "\<not> fc_identity_ready (f (cn srv i))"
    "fc_slot (f (cn srv i)) = i" "fc_be_wait (f (cn srv i)) = fc_be_wait (cn srv i)" "fc_draining (f (cn srv i)) = fc_draining (cn srv i)"
    "fc_send (f (cn srv i)) = fc_send (cn srv i)" "fc_send_off (f (cn srv i)) = fc_send_off (cn srv i)"
    "fc_be_resp (f (cn srv i)) = fc_be_resp (cn srv i)" "fc_q (f (cn srv i)) = fc_q (cn srv i)"
  shows "Inv pw E X U A D (upd i f srv)"
  using assms by (intro Inv_upd_same) (auto simp: moves_def changes_def conn_wf_def)

lemma accept_plain_Inv:
  assumes inv: "Inv pw E X U A D srv" and i: "i < 256" and c: "fc_slot (cn srv i) = i" "fc_be (cn srv i) = None" "\<not> fc_identity_ready (cn srv i)"
  shows "Inv pw E X U A D (snd (accept_plain i srv))"
proof -
  define s4 where "s4 = upd i (\<lambda>c. c\<lparr>fc_state := CS_ACTIVE\<rparr>) srv"
  have "Inv pw (insert i E) X U A D s4"
    unfolding s4_def by (rule enter_Inv [OF Inv_exempt [OF inv] c, of _ CS_ACTIVE]) (auto simp: c)
  moreover have "fc_be (cn s4 i) = None" "fc_state (cn s4 i) = CS_ACTIVE"
    using InvD(1) [OF inv] i c by (simp_all add: s4_def)
  ultimately show ?thesis
    unfolding accept_plain_def s4_def [symmetric] using subject_identity_wf by (intro submits_Inv with_identity_Inv) simp_all
qed

lemma accept_tls_Inv:
  assumes inv: "Inv pw E X U A D srv" and i: "i < 256" and c: "fc_slot (cn srv i) = i" "fc_be (cn srv i) = None" "\<not> fc_identity_ready (cn srv i)"
  shows "Inv pw (insert i E) X U A D (snd (accept_tls ssl_ok i srv))"
    "fst (accept_tls ssl_ok i srv) = 0 \<Longrightarrow> Inv pw E X U A D (snd (accept_tls ssl_ok i srv))"
proof -
  have ex: "Inv pw (insert i E) X U A D s" if "Inv pw E X U A D s" for s :: "'a server" by (rule Inv_exempt [OF that]) auto
  define s4 where "s4 = upd i (\<lambda>c. c\<lparr>fc_ssl := True, fc_state := CS_TLS_HS\<rparr>) srv"
  have s4: "Inv pw E X U A D s4" unfolding s4_def by (rule enter_Inv [OF inv c, of CS_TLS_HS]) (simp_all add: c)
  define r where "r = tls_handshake s4"
  have r: "Inv pw E X U A D (snd (snd r))" "fc_state (cn (snd (snd r)) i) = CS_TLS_HS"
    using tls_calls_Inv(1) [OF s4] InvD(1) [OF inv] i by (simp_all add: r_def s4_def)
  note h = handshake_done_Inv [OF r(1) i r(2)]
  have d: "accept_tls ssl_ok i srv = (if \<not> tls_conn_new_fd (sv_tls srv) (fc_fd (cn srv i)) ssl_ok then (ERR, srv)
      else if fst r = 1 then
        (if fst (tls_on_handshake_done i (snd (snd r))) \<noteq> 0 then (ERR, snd (tls_on_handshake_done i (snd (snd r))))
         else submit_poll i (snd (tls_on_handshake_done i (snd (snd r)))))
      else if fst r < 0 then (ERR, snd (snd r)) else submit_poll i (snd (snd r)))"
    by (simp add: accept_tls_def Let_def case_prod_beta s4_def [symmetric] r_def [symmetric])
  show "fst (accept_tls ssl_ok i srv) = 0 \<Longrightarrow> Inv pw E X U A D (snd (accept_tls ssl_ok i srv))"
    unfolding d using h r by (auto intro: submits_Inv split: if_splits)
  show "Inv pw (insert i E) X U A D (snd (accept_tls ssl_ok i srv))"
    unfolding d using h r inv by (auto intro!: ex intro: submits_Inv)
qed

lemma accept_setup_Inv:
  assumes inv: "Inv pw E X U A D srv" and i: "i < 256" and c: "fc_slot (cn srv i) = i" "fc_be (cn srv i) = None" "\<not> fc_identity_ready (cn srv i)"
  shows "Inv pw (insert i E) X U A D (snd (accept_setup pw ssl_ok i srv))"
    "fst (accept_setup pw ssl_ok i srv) = 0 \<Longrightarrow> Inv pw E X U A D (snd (accept_setup pw ssl_ok i srv))"
proof -
  have ex: "Inv pw (insert i E) X U A D s" if "Inv pw E X U A D s" for s :: "'a server" by (rule Inv_exempt [OF that]) auto
  define s3 where "s3 w = upd i (\<lambda>c. c\<lparr>fc_frontend := Some w\<rparr>) srv" for w
  have s3: "Inv pw E X U A D (s3 w)" for w unfolding s3_def using inv by (intro upd_flag_Inv) simp_all
  have c3: "fc_slot (cn (s3 w) i) = i" "fc_be (cn (s3 w) i) = None" "\<not> fc_identity_ready (cn (s3 w) i)" for w using c by (simp_all add: s3_def)
  note tls = accept_tls_Inv [OF s3 i c3] and plain = accept_plain_Inv [OF s3 i c3]
  show "fst (accept_setup pw ssl_ok i srv) = 0 \<Longrightarrow> Inv pw E X U A D (snd (accept_setup pw ssl_ok i srv))"
    using inv tls(2) plain by (auto simp: accept_setup_def Let_def s3_def [symmetric] split: option.splits if_splits)
  show "Inv pw (insert i E) X U A D (snd (accept_setup pw ssl_ok i srv))"
    using ex [OF inv] tls(1) ex [OF plain] by (auto simp: accept_setup_def Let_def s3_def [symmetric] split: option.splits)
qed

lemma accept_one_Inv:
  assumes inv: "Good pw srv"
  shows "Good pw (snd (accept_one pw cr fd zc ssl_ok srv))"
proof (cases "fd < 0 \<or> alloc_conn srv = None")
  case True
  then show ?thesis using inv by (auto simp: accept_one_def)
next
  case False
  then obtain i srv1 where a: "alloc_conn srv = Some (i, srv1)" by auto
  note C = alloc_conn_Inv [OF inv a]
  define s2 where "s2 = upd i (\<lambda>c. c\<lparr>fc_fd := fd, fc_zerocopy_ok := (msg_zerocopy (sv_cfg srv1) \<and> zc)\<rparr>) (count metrics_inc_accepts srv1)"
  have "Good pw s2" unfolding s2_def using C(1) by (auto simp: moves_def changes_def conn_wf_def intro!: Inv_upd_same)
  moreover have "fc_slot (cn s2 i) = i" "fc_be (cn s2 i) = None" "\<not> fc_identity_ready (cn s2 i)" using C(3,4,6) by (simp_all add: s2_def)
  ultimately have
    "Inv pw {i} {} {} {} (replicate 256 False) (snd (accept_setup pw ssl_ok i s2))"
    "fst (accept_setup pw ssl_ok i s2) = 0 \<Longrightarrow> Good pw (snd (accept_setup pw ssl_ok i s2))"
    using accept_setup_Inv [OF _ C(2), of pw "{}" "{}" "{}" "{}" _ s2 ssl_ok] by auto
  then show ?thesis using False a close_new_Inv [OF _ C(2), of pw "{}" "{}" "{}" "{}"]
    by (simp add: accept_one_def s2_def [symmetric] case_prod_beta)
qed

section \<open>Completions\<close>

lemma on_recv_cqe_Inv:
  assumes i: "i \<in> A" and inv: "Inv pw E X U A D srv"
  shows "Inv pw E X U {} D (on_recv_cqe pw cr res data i srv)"
proof -
  let ?s = "upd i (\<lambda>c. c\<lparr>fc_recv_pending := False\<rparr>) srv"
  have s: "Inv pw E X U A D ?s" using inv by (intro upd_flag_Inv) simp_all
  note i256 = InvD(7) [OF inv i]
  have r: "Inv pw E X U A D (snd (on_recv_plain pw cr (take (nat res) data) i ?s))" by (rule on_recv_plain_Inv [OF i s])
  have "Inv pw E X U {} D (close_if pw cr i (submit_recv i t))" if "Inv pw E X U A D t" for t
    using submits_Inv(1) [OF that] i256 by (auto simp: close_if_def case_prod_beta intro: close_Inv Inv_weaken)
  with close_Inv [OF s i256] close_Inv [OF r i256] r show ?thesis
    by (simp add: on_recv_cqe_def Let_def case_prod_beta)
qed

lemma close_if_new_Inv: "Inv pw (insert i E) X U A D (snd r) \<Longrightarrow> (fst r = 0 \<Longrightarrow> Inv pw E X U A D (snd r)) \<Longrightarrow> i < 256 \<Longrightarrow>
    Inv pw E X U {} D (close_if pw cr i r)"
  by (auto simp: close_if_def case_prod_beta intro: close_new_Inv Inv_weaken)

lemma close_if_Inv: "Inv pw E X U A D (snd r) \<Longrightarrow> i < 256 \<Longrightarrow> Inv pw E X U {} D (close_if pw cr i r)"
  by (auto simp: close_if_def case_prod_beta intro: close_Inv Inv_weaken)

lemma on_send_cqe_Inv:
  assumes i: "i \<in> A" and inv: "Inv pw E X U A D srv"
  shows "Inv pw E X U {} D (on_send_cqe pw cr res i srv)"
proof -
  note i256 = InvD(7) [OF inv i]
  let ?c = "cn srv i"
  define t where "t = (if fc_send_off ?c + nat res \<ge> length (fc_send ?c)
      then upd i (\<lambda>c. c\<lparr>fc_send_pending := False, fc_send := [], fc_send_off := 0\<rparr>) srv
      else upd i (\<lambda>c. c\<lparr>fc_send_pending := False, fc_send_off := fc_send_off c + nat res\<rparr>) srv)"
  have t: "Inv pw E X U A D t"
    unfolding t_def using inv by (auto simp: moves_def changes_def conn_wf_def intro!: Inv_upd_same)
  let ?s1 = "upd i (\<lambda>c. c\<lparr>fc_send_off := fc_send_off c + nat res\<rparr>) (upd i (\<lambda>c. c\<lparr>fc_send_pending := False\<rparr>) srv)"
  let ?s2 = "if fc_send_off (cn ?s1 i) \<ge> length (fc_send (cn ?s1 i))
      then upd i (\<lambda>c. c\<lparr>fc_send := [], fc_send_off := 0\<rparr>) ?s1 else snd (submit_send i ?s1)"
  have "?s2 = (if fc_send_off ?c + nat res \<ge> length (fc_send ?c) then t else snd (submit_send i t))"
    using InvD(1) [OF inv] i256 by (simp add: upd_upd t_def)
  then have s2: "Inv pw E X U A D ?s2" using t by (simp add: submits_Inv)
  have s0: "Inv pw E X U A D (upd i (\<lambda>c. c\<lparr>fc_send_pending := False\<rparr>) srv)" using inv by (intro upd_flag_Inv) simp_all
  show ?thesis
    unfolding on_send_cqe_def Let_def
    using close_Inv [OF s0 i256] close_Inv [OF s2 i256] Inv_weaken [OF s2, of X "{}" U] by simp
qed

lemma on_poll_cqe_Inv:
  assumes i: "i \<in> A" and inv: "Inv pw E X U A D srv"
  shows "Inv pw E X U {} D (on_poll_cqe pw cr res i srv)"
proof -
  let ?s = "upd i (\<lambda>c. c\<lparr>fc_poll_pending := False\<rparr>) srv"
  have s: "Inv pw E X U A D ?s" using inv by (intro upd_flag_Inv) simp_all
  note i256 = InvD(7) [OF inv i]
  from close_Inv [OF s i256] close_if_new_Inv [OF on_tls_poll_Inv [OF i s] i256] show ?thesis
    by (simp add: on_poll_cqe_def Let_def)
qed

lemma on_slot_Inv:
  assumes inv: "Good pw srv" and f: "\<And>i s. i < 256 \<Longrightarrow> Inv pw {} {} {} {i} (replicate 256 False) s \<Longrightarrow> Good pw (f i s)"
  shows "Good pw (on_slot slot P f srv)"
  using inv f Inv_in_use [OF inv] by (auto simp: on_slot_def)

lemma dispatch_Inv: "Good pw srv \<Longrightarrow> Good pw (dispatch pw cr q srv)"
proof -
  assume inv: "Good pw srv"
  have accept: "Good pw (on_accept_cqe pw cr q srv)"
    using inv by (auto simp: on_accept_cqe_def intro!: submits_Inv accept_one_Inv)
  have bs: "Good pw (on_slot slot P (\<lambda>i s. close_if pw cr i (on_be_send_cqe pw cr res i s)) srv)" for slot P res
    by (rule on_slot_Inv [OF inv]) (auto intro!: close_if_Inv on_be_send_cqe_Inv)
  have br: "Good pw (on_slot slot P (\<lambda>i s. close_if pw cr i (on_be_recv_cqe pw cr res data i s)) srv)" for slot P res data
    by (rule on_slot_Inv [OF inv]) (auto intro!: close_if_Inv on_be_recv_cqe_Inv)
  have fr: "Good pw (on_slot slot P (on_recv_cqe pw cr res data) srv)" "Good pw (on_slot slot P (on_send_cqe pw cr res) srv)"
    "Good pw (on_slot slot P (on_poll_cqe pw cr res) srv)" for slot P res data
    by (rule on_slot_Inv [OF inv]; auto intro: on_recv_cqe_Inv on_send_cqe_Inv on_poll_cqe_Inv)+
  show ?thesis using inv accept bs br fr by (simp add: dispatch_def Let_def case_prod_beta)
qed

section \<open>Turns of the loop\<close>

lemma server_tick_Inv: "Inv pw E X U A D srv \<Longrightarrow> Inv pw E X U A D (snd (server_tick pw cr srv))"
proof -
  assume inv: "Inv pw E X U A D srv"
  have "Inv pw E X U A D (tick_maintain pw cr srv)"
  proof (cases "sv_pool srv")
    case (Some p)
    obtain n p' w' where m: "pool_maintain pw cr p (sv_world srv) = (n, p', w')" by (metis prod_cases3)
    from Inv_grants [OF inv Some pool_maintain_grants [OF Inv_lease(1) [OF inv Some] m]] inv show ?thesis
      by (simp add: tick_maintain_def Some m)
  qed (use inv in \<open>simp add: tick_maintain_def\<close>)
  then show ?thesis by (simp add: server_tick_def tick_metrics_def Let_def)
qed

lemma loop_turn_Inv: "Good pw srv \<Longrightarrow> Good pw (loop_turn pw cr wk srv)"
  by (cases wk) (simp_all add: server_tick_Inv dispatch_Inv take_flight_def uring_submit_def)

lemma set_env_Inv [simp]: "Inv pw E X U A D (set_env now ios ssl srv) \<longleftrightarrow> Inv pw E X U A D srv"
  by (simp add: set_env_def)

lemma server_step_turn: "server_step pw cr srv srv' \<Longrightarrow> \<exists>wk now ios ssl. srv' = loop_turn pw cr wk (set_env now ios ssl srv)"
  by (erule server_step.cases) blast+

lemma server_step_Inv: "server_step pw cr srv srv' \<Longrightarrow> Good pw srv \<Longrightarrow> Good pw srv'"
  using server_step_turn loop_turn_Inv set_env_Inv by metis

lemma server_start_Inv:
  assumes "server_start pw cr en cfg now w ssl = Some srv"
  shows "Good pw srv"
proof -
  let ?z = "(server_zero cfg now w ssl :: 'a server)\<lparr>sv_tls := if plain_mode cfg then None else tls_ctx_create (en_ssl en) cfg\<rparr>"
  have z: "conn_wf i (fconn_zero :: 'a fconn)" "id_wf cfg (fconn_zero :: 'a fconn)" "authed cfg (fconn_zero :: 'a fconn)" for i
    using feq_empty_items by (simp_all add: conn_wf_def id_wf_def authed_def fconn_zero_def)
  have be: "fc_be (fconn_zero :: 'a fconn) = None" "fc_draining (fconn_zero :: 'a fconn) = False"
    "fc_be_wait (fconn_zero :: 'a fconn) = BE_IDLE" by (simp_all add: fconn_zero_def)
  have tls: "tls_wf cfg (sv_tls ?z)"
    using assms tls_ctx_secure [of "en_ssl en" cfg] by (auto simp: server_start_def Let_def tls_wf_def split: if_splits)
  have "Good pw (?z\<lparr>sv_pool := po, sv_world := w', sv_async := a\<rparr>)" if "\<And>p. po = Some p \<Longrightarrow> pool_inv p" for po w' a
    using that z be wait_empty_items tls
    by (auto simp: Inv_def server_zero_def cn_def lease_wf_def waits_wf_def map_replicate_const split: option.splits)
  moreover have "start_pool pw cr en ?z = ?z\<lparr>sv_pool := None, sv_world := w, sv_async := False\<rparr> \<or>
    (\<exists>po w' a. start_pool pw cr en ?z = ?z\<lparr>sv_pool := po, sv_world := w', sv_async := a\<rparr> \<and> (\<forall>p. po = Some p \<longrightarrow> pool_inv p))"
  proof (cases "backend_host cfg = None \<or> backend_host cfg = Some []")
    case True
    then show ?thesis by (auto simp: start_pool_def server_zero_def)
  next
    case False
    obtain po w' where p: "pool_create pw cr (backend_config_of cfg) w = (po, w')" by fastforce
    have "pool_inv p" if "po = Some p" for p using pool_create_warmed [of pw cr "backend_config_of cfg" w p w'] p that by (simp add: warmed_def)
    moreover have "start_pool pw cr en ?z = ?z\<lparr>sv_pool := po, sv_world := w', sv_async := (case po of None \<Rightarrow> False | Some q \<Rightarrow> pool_set_nonblock (en_fcntl en) q = 0)\<rparr>"
      using False p by (auto simp: start_pool_def server_zero_def)
    ultimately show ?thesis by blast
  qed
  ultimately have "Good pw (start_pool pw cr en ?z)" by (metis option.distinct(1))
  then have s: "Good pw (snd (submit_accept (start_pool pw cr en ?z)))" by (rule submits_Inv)
  show ?thesis
    using assms s
    by (auto simp: server_start_def Let_def case_prod_beta uring_submit_def split: if_splits)
qed

lemma reachable_Inv: "reachable pw cr cfg srv \<Longrightarrow> Good pw srv"
  by (induction rule: reachable.induct) (auto intro: server_start_Inv server_step_Inv)

end
