(* ===== verification/Server_Calm.thy ===== *)
theory Server_Calm
  imports Server_Safe
begin

text \<open>
  The operations of the event loop that are \<open>calm\<close>: they take no connection into service or out of it and clear no
  pending mark of a receive or a poll, they take nothing back that was submitted, and a mark that they set comes with
  its submission. All handlers of the backend side and of protocol events are calm on a connection
  in use; the contract of a handler that is called back is the locale \<open>calm_handler\<close>.
\<close>

section \<open>Calm operations\<close>

text \<open>What is waiting to be submitted or in flight: user data and descriptor.\<close>

definition subs :: "'w server \<Rightarrow> (64 word \<times> int) set" where
  "subs srv = (\<lambda>s. (su_ud s, su_fd s)) ` (set (sv_sq srv) \<union> set (sv_flight srv))"

definition ud_of :: "uring_op \<Rightarrow> nat \<Rightarrow> 64 word" where
  "ud_of opc i = pack_ud (op_code opc) (word_of_nat i)"

definition calm_conn :: "(64 word \<times> int) set \<Rightarrow> 'w fconn \<Rightarrow> 'w fconn \<Rightarrow> bool" where
  "calm_conn S c c' \<longleftrightarrow> (fc_state c' = CS_FREE \<longleftrightarrow> fc_state c = CS_FREE) \<and> fc_slot c' = fc_slot c \<and> fc_fd c' = fc_fd c \<and>
     fc_ssl c' = fc_ssl c \<and> (fc_recv_pending c \<longrightarrow> fc_recv_pending c') \<and> (fc_poll_pending c \<longrightarrow> fc_poll_pending c') \<and>
     (fc_recv_pending c' \<longrightarrow> fc_recv_pending c \<or> fc_state c \<noteq> CS_FREE \<and> (ud_of OP_RECV (fc_slot c), fc_fd c) \<in> S) \<and>
     (fc_poll_pending c' \<longrightarrow> fc_poll_pending c \<or> fc_state c \<noteq> CS_FREE \<and> (ud_of OP_POLL (fc_slot c), fc_fd c) \<in> S)"

text \<open>A connection in use.\<close>

definition in_use :: "'w server \<Rightarrow> nat \<Rightarrow> bool" where
  "in_use s i \<longleftrightarrow> length (sv_conns s) = 256 \<and> i < 256 \<and> fc_state (cn s i) \<noteq> CS_FREE"

text \<open>A new submission is an accept or made for a connection in use: a poll for a TLS connection without one, a send only
  for a plain connection.\<close>

definition asked :: "'w server \<Rightarrow> sub \<Rightarrow> bool" where
  "asked s0 x \<longleftrightarrow> su_ud x = ud_of OP_ACCEPT 0 \<or>
     (\<exists>j opc. in_use s0 j \<and> su_ud x = ud_of opc (fc_slot (cn s0 j)) \<and>
       (opc = OP_POLL \<longrightarrow> fc_ssl (cn s0 j) \<and> \<not> fc_poll_pending (cn s0 j)) \<and> (opc = OP_SEND \<longrightarrow> \<not> fc_ssl (cn s0 j)))"

definition calm :: "'w server \<Rightarrow> 'w server \<Rightarrow> bool" where
  "calm s0 s \<longleftrightarrow> length (sv_conns s) = length (sv_conns s0) \<and> sv_flight s = sv_flight s0 \<and>
     (\<exists>new. sv_sq s = sv_sq s0 @ new \<and> (\<forall>x \<in> set new. asked s0 x)) \<and> (\<forall>i. calm_conn (subs s) (cn s0 i) (cn s i))"

named_theorems calms

lemma calm_conn_trans: "calm_conn S a b \<Longrightarrow> S \<subseteq> T \<Longrightarrow> calm_conn T b c \<Longrightarrow> calm_conn T a c"
  unfolding calm_conn_def by auto

lemma calm_refl [simp]: "calm s s"
  by (simp add: calm_def calm_conn_def)

lemma calm_subs: "calm s0 s \<Longrightarrow> subs s0 \<subseteq> subs s"
  by (auto simp: calm_def subs_def)

lemma calm_asked:
  assumes "calm s0 s1" and "asked s1 x"
  shows "asked s0 x"
proof -
  have C: "calm_conn (subs s1) (cn s0 j) (cn s1 j)" "length (sv_conns s1) = length (sv_conns s0)" for j
    using assms(1) by (simp_all add: calm_def)
  then have "in_use s1 j \<Longrightarrow> in_use s0 j" for j by (simp add: in_use_def calm_conn_def)
  with C(1) assms(2) show ?thesis unfolding asked_def calm_conn_def by metis
qed

lemma calm_trans:
  assumes 1: "calm s0 s1" and 2: "calm s1 s2"
  shows "calm s0 s2"
proof -
  obtain n m where "sv_sq s1 = sv_sq s0 @ n" "\<forall>x \<in> set n. asked s0 x" "sv_sq s2 = sv_sq s1 @ m" "\<forall>x \<in> set m. asked s1 x"
    using 1 2 by (auto simp: calm_def)
  then have "\<exists>new. sv_sq s2 = sv_sq s0 @ new \<and> (\<forall>x \<in> set new. asked s0 x)"
    using calm_asked [OF 1] by (intro exI [of _ "n @ m"]) auto
  moreover have "calm_conn (subs s2) (cn s0 i) (cn s2 i)" for i
    using 1 2 by (intro calm_conn_trans [OF _ calm_subs [OF 2], of "cn s0 i" "cn s1 i"]) (simp_all add: calm_def)
  ultimately show ?thesis using 1 2 by (simp add: calm_def)
qed

lemma subs_sel [simp]:
  "subs (upd i f s) = subs s" "subs (count g s) = subs s" "subs (s\<lparr>sv_wait := r\<rparr>) = subs s" "subs (set_pool p w s) = subs s"
  "subs (s\<lparr>sv_ssl := ssl\<rparr>) = subs s" "subs (s\<lparr>sv_world := w\<rparr>) = subs s" "subs (set_be_conn b bc s) = subs s"
  by (simp_all add: subs_def upd_def count_def set_pool_def set_be_conn_def)

lemma sq_sel [simp]:
  "sv_sq (count g s) = sv_sq s" "sv_flight (count g s) = sv_flight s" "sv_sq (set_pool p w s) = sv_sq s"
  "sv_flight (set_pool p w s) = sv_flight s" "sv_sq (set_be_conn b bc s) = sv_sq s" "sv_flight (set_be_conn b bc s) = sv_flight s"
  by (simp_all add: count_def set_pool_def set_be_conn_def)

text \<open>Only the table of connections and the submissions matter.\<close>

lemma calm_irrelevant [simp]:
  "calm s0 (count g s) = calm s0 s" "calm s0 (s\<lparr>sv_wait := r\<rparr>) = calm s0 s" "calm s0 (set_pool p w s) = calm s0 s"
  "calm s0 (s\<lparr>sv_ssl := ssl\<rparr>) = calm s0 s" "calm s0 (s\<lparr>sv_world := w\<rparr>) = calm s0 s" "calm s0 (set_be_conn b bc s) = calm s0 s"
  by (simp_all add: calm_def) (simp_all add: cn_def)

lemma calm_upd:
  assumes "calm s0 s" and "calm_conn (subs s) (cn s i) (f (cn s i))"
  shows "calm s0 (upd i f s)"
proof (rule calm_trans [OF assms(1)])
  show "calm s (upd i f s)" using assms(2) by (simp add: calm_def) (simp add: calm_conn_def)
qed

text \<open>A change of the other fields of a connection.\<close>

lemma calm_flag [calms]:
  assumes "calm s0 s" and "\<And>c. (fc_state (f c) = CS_FREE) = (fc_state c = CS_FREE) \<and> fc_slot (f c) = fc_slot c \<and> fc_fd (f c) = fc_fd c \<and>
    fc_ssl (f c) = fc_ssl c \<and> fc_recv_pending (f c) = fc_recv_pending c \<and> fc_poll_pending (f c) = fc_poll_pending c"
  shows "calm s0 (upd i f s)"
  using assms by (intro calm_upd) (auto simp: calm_conn_def)

lemma calm_used: "calm s0 s \<Longrightarrow> fc_state (cn s i) = CS_FREE \<longleftrightarrow> fc_state (cn s0 i) = CS_FREE"
  by (simp add: calm_def calm_conn_def)

lemma in_use_calm: "calm s0 s \<Longrightarrow> in_use s i \<longleftrightarrow> in_use s0 i"
  by (auto simp: calm_def calm_conn_def in_use_def)

lemma calm_closing [calms]:
  assumes "calm s0 s" and "in_use s0 i"
  shows "calm s0 (upd i (\<lambda>c. c\<lparr>fc_state := CS_CLOSING\<rparr>) s)"
  using assms calm_used [OF assms(1), of i] by (intro calm_upd) (auto simp: calm_conn_def in_use_def)

section \<open>Submissions and output\<close>

lemma add_sqe_calm:
  assumes "add_sqe opc slot fd flags data s = Some s1"
  shows "(ud_of opc slot, fd) \<in> subs s1" "cn s1 i = cn s i"
  using assms by (auto simp: add_sqe_def subs_def ud_of_def cn_def split: if_splits)

lemma add_sqe_kept:
  assumes "add_sqe opc (fc_slot (cn s i)) fd flags data s = Some s1" and c: "calm s0 s" and "in_use s0 i"
    and "opc = OP_POLL \<Longrightarrow> fc_ssl (cn s i) \<and> \<not> fc_poll_pending (cn s i)" and "opc = OP_SEND \<Longrightarrow> \<not> fc_ssl (cn s i)"
  shows "calm s0 s1"
proof (rule calm_trans [OF c])
  let ?x = "\<lparr>su_ud = ud_of opc (fc_slot (cn s i)), su_fd = fd, su_flags = flags, su_data = data\<rparr>"
  have "in_use s i" using in_use_calm [OF c] assms(3) by blast
  then have "asked s ?x" unfolding asked_def using assms(4,5) by auto
  moreover have "s1 = s\<lparr>sv_sq := sv_sq s @ [?x]\<rparr>" using assms(1) by (simp add: add_sqe_def ud_of_def split: if_splits)
  ultimately show "calm s s1" by (simp add: calm_def calm_conn_def) (simp add: cn_def)
qed

lemma submit_recv_calm [calms]:
  assumes "in_use s0 i" and "calm s0 s"
  shows "calm s0 (snd (submit_recv i s))"
  using assms
  by (auto simp: submit_recv_def Let_def add_sqe_calm calm_conn_def split: option.splits intro!: calm_upd dest: add_sqe_kept)

lemma submit_poll_calm [calms]:
  assumes "in_use s0 i" and "calm s0 s"
  shows "calm s0 (snd (submit_poll i s))"
  using assms
  by (auto simp: submit_poll_def Let_def add_sqe_calm calm_conn_def split: option.splits intro!: calm_upd dest: add_sqe_kept)

lemma submit_others_calm [calms]:
  assumes "in_use s0 i" and "calm s0 s"
  shows "calm s0 (snd (submit_send i s))" "calm s0 (snd (submit_be_recv i s))"
  using assms
  by (auto simp: submit_send_def submit_be_recv_def Let_def intro!: calm_flag split: option.splits dest: add_sqe_kept)

lemma submit_accept_calm: "calm s0 s \<Longrightarrow> calm s0 (snd (submit_accept s))"
proof (rule calm_trans)
  show "calm s (snd (submit_accept s))"
    by (auto simp: submit_accept_def add_sqe_def calm_def calm_conn_def asked_def ud_of_def cn_def)
qed

lemma submit_be_send_calm [calms]:
  assumes "in_use s0 i" and "calm s0 s"
  shows "calm s0 (snd (submit_be_send i s))"
  using assms by (auto simp: submit_be_send_def intro!: calms split: option.splits dest: add_sqe_kept)

lemma append_send_key:
  "append_send data c = Some c' \<Longrightarrow> fc_state c' = fc_state c \<and> fc_slot c' = fc_slot c \<and> fc_fd c' = fc_fd c \<and>
    fc_ssl c' = fc_ssl c \<and> fc_recv_pending c' = fc_recv_pending c \<and> fc_poll_pending c' = fc_poll_pending c"
  by (auto simp: append_send_def Let_def split: if_splits)

lemma queue_plain_send_calm [calms]: "in_use s0 i \<Longrightarrow> calm s0 s \<Longrightarrow> calm s0 (snd (queue_plain_send i data s))"
  by (auto simp: queue_plain_send_def calm_conn_def dest!: append_send_key
      intro!: submit_recv_calm submit_poll_calm submit_others_calm calm_upd split: option.splits)

lemma fe_call_calm [calms]: "calm s0 s \<Longrightarrow> calm s0 (snd (fe_call f i s))"
  by (auto simp: fe_call_def case_prod_beta intro!: calm_flag split: option.splits)

lemma drain_out_loop_calm: "in_use s0 i \<Longrightarrow> calm s0 s \<Longrightarrow> calm s0 (snd (drain_out_loop pw k i s))"
proof (induction k arbitrary: s)
  case (Suc k)
  have "calm s0 (upd i (\<lambda>c. c\<lparr>fc_frontend := w\<rparr>) s)" for w using Suc.prems by (intro calm_flag) simp_all
  with Suc show ?case by (auto simp: Let_def case_prod_beta intro!: Suc.IH queue_plain_send_calm split: option.splits)
qed simp

lemma drain_frontend_out_calm [calms]: "in_use s0 i \<Longrightarrow> calm s0 s \<Longrightarrow> calm s0 (snd (drain_frontend_out pw i s))"
  by (auto simp: drain_frontend_out_def intro: drain_out_loop_calm split: option.splits)

lemma queues_calm [calms]:
  assumes "calm s0 s"
  shows "calm s0 (snd (on_queue f i s))" "calm s0 (snd (sv_waiters_push i s))" "calm s0 (sv_waiters_remove k s)"
    "calm s0 (note_wait i s)" "calm s0 (finish_be pw cr failed i s)" "calm s0 (snd (begin_be pw cr b i s))"
  using assms
  by (auto simp: on_queue_def sv_waiters_push_def sv_waiters_remove_def note_wait_def finish_be_def begin_be_def Let_def case_prod_beta
      intro!: calm_flag split: option.splits)

lemma park_for_backend_calm [calms]: "calm s0 s \<Longrightarrow> calm s0 (snd (park_for_backend i s))"
  by (auto simp: park_for_backend_def case_prod_beta intro!: calms)

section \<open>The backend side\<close>

lemma simple_calm [calms]:
  assumes "in_use s0 i" and "calm s0 s"
  shows "calm s0 (snd (deliver_response pw e i s))" "calm s0 (snd (snd (blocking_bind pw cr b i s)))"
    "calm s0 (snd (snd (blocking_query pw cr sql i s)))" "calm s0 (snd (send_query_error pw i s))" "calm s0 (snd (frontend_parse pw prs i s))"
  using assms
  by (auto simp: deliver_response_def blocking_bind_def blocking_query_def send_query_error_def frontend_parse_def overlay_def Let_def case_prod_beta
      intro!: calm_flag queue_plain_send_calm fe_call_calm split: option.splits)

text \<open>The contract of a handler: on a connection in use it is calm.\<close>

locale calm_handler =
  fixes h :: "'w handler"
  assumes calm: "in_use s0 i \<Longrightarrow> calm s0 s \<Longrightarrow> calm s0 (snd (h i s))"
begin

lemma fail_calm: "in_use s0 i \<Longrightarrow> calm s0 s \<Longrightarrow> calm s0 (snd (backend_async_fail pw cr h i s))"
  by (auto simp: backend_async_fail_def Let_def case_prod_beta intro!: calm calms)

lemma complete_calm: "in_use s0 i \<Longrightarrow> calm s0 s \<Longrightarrow> calm s0 (snd (backend_async_complete pw cr h i s))"
  by (auto simp: backend_async_complete_def Let_def case_prod_beta intro!: calm calms)

lemma start_calm:
  assumes "in_use s0 i" and "calm s0 s"
  shows "calm s0 (snd (start_async_bind_from_event pw cr h b i s))" "calm s0 (snd (start_async_bind_from_queue pw cr h it i s))"
  using assms queues_calm(6) [OF assms(2), of pw cr b i] queues_calm(6) [OF assms(2), of pw cr "bind_of_item pw it" i]
  by (auto simp: start_async_bind_from_event_def start_async_bind_from_queue_def Let_def case_prod_beta
      intro!: fail_calm submit_be_send_calm calm_flag split: option.splits)

lemma drain_bind_calm:
  assumes u: "in_use s0 i" and c: "calm s0 s"
  shows "calm s0 (case drain_bind pw cr h it i s of Inl r \<Rightarrow> snd r | Inr t \<Rightarrow> t)"
proof -
  have off: "calm s0 (snd (drain_frontend_out pw i (upd i (\<lambda>c. c\<lparr>fc_draining := False\<rparr>) t)))" if "calm s0 t" for t
    using that u by (intro drain_frontend_out_calm calm_flag) simp_all
  have front: "calm s0 (upd i (\<lambda>c. c\<lparr>fc_q := feq_push_front (fc_q c) it\<rparr>) t)" if "calm s0 t" for t
    using that by (intro calm_flag) simp_all
  have resp: "calm s0 (upd i (\<lambda>c. c\<lparr>fc_be_resp := out\<rparr>) t)" if "calm s0 t" for out t using that by (intro calm_flag) simp_all
  show ?thesis using u c start_calm(2) [OF u c]
    by (auto simp: drain_bind_def Let_def case_prod_beta off front resp park_for_backend_calm fe_call_calm simple_calm(2))
qed

lemma drain_item_calm:
  assumes u: "in_use s0 i" and c: "calm s0 s"
  shows "calm s0 (case drain_item pw cr h it i s of Inl r \<Rightarrow> snd r | Inr t \<Rightarrow> t)"
proof (cases "it_kind it = FEQ_BIND")
  case True
  then show ?thesis using drain_bind_calm [OF assms, of pw cr it] by (simp add: drain_item_def)
next
  case False
  have resp: "calm s0 (upd i (\<lambda>c. c\<lparr>fc_be_resp := out\<rparr>) t)" if "calm s0 t" for out t using that by (intro calm_flag) simp_all
  show ?thesis using False c u
    by (cases "it_kind it")
      (simp_all add: drain_item_def Let_def case_prod_beta fe_call_calm queue_plain_send_calm simple_calm resp calm_closing)
qed

lemma drain_loop_calm: "in_use s0 i \<Longrightarrow> calm s0 s \<Longrightarrow> calm s0 (snd (drain_loop pw cr h k i s))"
proof (induction k arbitrary: s)
  case (Suc k)
  have "calm s0 (upd i (\<lambda>c. c\<lparr>fc_q := q\<rparr>) s)" for q using Suc.prems by (intro calm_flag) simp_all
  from drain_item_calm [OF Suc.prems(1) this, of pw cr] Suc show ?case
    by (fastforce intro!: drain_frontend_out_calm calm_flag split: option.splits sum.splits)
qed (auto intro!: drain_frontend_out_calm calm_flag)

lemma drain_queue_calm: "calm_handler (drain_queue pw cr h)"
  by unfold_locales (auto simp: drain_queue_def intro!: drain_loop_calm calm_flag)

lemma schedule_one_calm: "length (sv_conns s0) = 256 \<Longrightarrow> calm s0 s \<Longrightarrow> calm s0 (snd (schedule_one h slot s))"
proof -
  assume len: "length (sv_conns s0) = 256" and c: "calm s0 s"
  have "calm s0 (snd (h slot (upd slot (\<lambda>c. c\<lparr>fc_be_wait := BE_IDLE\<rparr>) s)))" if "slot < 256" "fc_state (cn s slot) \<noteq> CS_FREE"
    using that len calm_used [OF c, of slot] c by (intro calm calm_flag) (simp_all add: in_use_def)
  with c show ?thesis by (auto simp: schedule_one_def Let_def case_prod_beta intro!: park_for_backend_calm calm_flag)
qed

lemma fair_loop_calm: "length (sv_conns s0) = 256 \<Longrightarrow> calm s0 s \<Longrightarrow> calm s0 (snd (fair_loop h k n s))"
proof (induction k arbitrary: n s)
  case (Suc k)
  then show ?case by (auto simp: case_prod_beta intro!: Suc.IH schedule_one_calm split: option.splits)
qed simp

lemma schedule_waiters_calm: "length (sv_conns s0) = 256 \<Longrightarrow> calm s0 s \<Longrightarrow> calm s0 (snd (schedule_waiters h s))"
  by (simp add: schedule_waiters_def fair_loop_calm)

lemma release_step_calm: "calm_handler (release_step pw h)"
proof
  fix s0 s :: "'w server" and i
  assume u: "in_use s0 i" and c: "calm s0 s"
  then have len: "length (sv_conns s0) = 256" by (simp add: in_use_def)
  let ?s = "upd i (\<lambda>c. c\<lparr>fc_be_wait := BE_IDLE, fc_got_execute := False, fc_got_sync := False\<rparr>) s"
  have "calm s0 ?s" using c by (intro calm_flag) simp_all
  with u len show "calm s0 (snd (release_step pw h i s))"
    by (auto simp: release_step_def Let_def intro!: calm schedule_waiters_calm drain_frontend_out_calm)
qed

end

lemma release_calm: "calm_handler (release pw cr k)"
proof (induction k)
  case 0
  show ?case by unfold_locales simp
next
  case (Suc k)
  from calm_handler.release_step_calm [OF calm_handler.drain_queue_calm [OF Suc]] show ?case by simp
qed

interpretation after_calm: calm_handler "after_backend_release pw cr" for pw cr
  unfolding after_backend_release_def by (rule release_calm)

interpretation drain_calm: calm_handler "drain_fe_queue pw cr" for pw cr
  unfolding drain_fe_queue_def by (rule after_calm.drain_queue_calm)

lemma fair_schedule_calm: "length (sv_conns s0) = 256 \<Longrightarrow> calm s0 s \<Longrightarrow> calm s0 (snd (fair_schedule_waiters pw cr s))"
  by (simp add: fair_schedule_waiters_def drain_calm.schedule_waiters_calm)

lemma be_cqe_calm:
  assumes "in_use s0 i" and "calm s0 s"
  shows "calm s0 (snd (on_be_send_cqe pw cr res i s))" "calm s0 (snd (on_be_recv_cqe pw cr res data i s))"
proof -
  have c: "calm s0 (upd i (\<lambda>c. c\<lparr>fc_be_send_pending := False\<rparr>) s)" "calm s0 (upd i (\<lambda>c. c\<lparr>fc_be_recv_pending := False\<rparr>) s)"
    using assms(2) by (auto intro: calm_flag)
  show "calm s0 (snd (on_be_send_cqe pw cr res i s))" using assms(1) c(1)
    by (auto simp: on_be_send_cqe_def Let_def intro!: after_calm.fail_calm submit_be_send_calm split: option.splits)
  show "calm s0 (snd (on_be_recv_cqe pw cr res data i s))" using assms(1) c(2)
    by (auto simp: on_be_recv_cqe_def Let_def case_prod_beta
        intro!: after_calm.fail_calm after_calm.complete_calm submit_others_calm calm_flag split: option.splits)
qed

section \<open>The frontend side\<close>

lemma pushes_calm:
  assumes "in_use s0 i" and "calm s0 s"
  shows "calm s0 (snd (bind_blocking pw cr b i s))" "calm s0 (snd (on_ev_startup pw i s))" "calm s0 (snd (on_ev_parse pw prs i s))"
    "calm s0 (snd (on_ev_execute pw i s))" "calm s0 (snd (on_ev_sync pw i s))" "calm s0 (snd (on_ev_query pw cr sql i s))"
  using assms
  by (auto simp: bind_blocking_def on_ev_startup_def on_ev_parse_def on_ev_execute_def on_ev_sync_def on_ev_query_def Let_def case_prod_beta
      intro!: calm_flag fe_call_calm queues_calm simple_calm queue_plain_send_calm)

lemma on_ev_bind_calm:
  assumes u: "in_use s0 i" and c: "calm s0 s"
  shows "calm s0 (snd (on_ev_bind pw cr b i s))"
proof (cases "fc_be_wait (cn s i) \<noteq> BE_IDLE")
  case True
  then show ?thesis using u c by (simp add: on_ev_bind_def Let_def case_prod_beta fe_call_calm queues_calm)
next
  case idle: False
  let ?s = "upd i (\<lambda>c. c\<lparr>fc_be_resp := [], fc_got_execute := False, fc_got_sync := False\<rparr>) s"
  have s: "calm s0 ?s" using c by (intro calm_flag) simp_all
  define r where "r = start_async_bind_from_event pw cr (after_backend_release pw cr) b i ?s"
  have r: "calm s0 (snd r)" unfolding r_def by (rule after_calm.start_calm(1) [OF u s])
  show ?thesis
    unfolding on_ev_bind_def Let_def if_not_P [OF idle] r_def [symmetric]
    using u r s by (simp add: case_prod_beta pushes_calm park_for_backend_calm queues_calm)
qed

lemma event_calm:
  assumes "in_use s0 i" and "calm s0 s"
  shows "calm s0 (snd (on_event pw cr ev i s))"
  using assms by (cases ev) (simp_all add: on_event_def pushes_calm on_ev_bind_calm calm_closing)

lemma event_loop_calm: "in_use s0 i \<Longrightarrow> calm s0 s \<Longrightarrow> calm s0 (snd (event_loop pw cr k i s))"
proof (induction k arbitrary: s)
  case (Suc k)
  have "calm s0 (upd i (\<lambda>c. c\<lparr>fc_frontend := w\<rparr>) s)" for w using Suc.prems by (intro calm_flag) simp_all
  with Suc show ?case by (auto simp: case_prod_beta intro!: drain_frontend_out_calm event_calm split: option.splits)
qed (simp add: drain_frontend_out_calm)

lemma feed_plain_calm: "in_use s0 i \<Longrightarrow> calm s0 s \<Longrightarrow> calm s0 (snd (feed_plain pw cr data i s))"
  by (auto simp: feed_plain_def process_frontend_def intro!: event_loop_calm drain_frontend_out_calm calm_flag split: option.splits)

lemma on_recv_plain_calm: "in_use s0 i \<Longrightarrow> calm s0 s \<Longrightarrow> calm s0 (snd (on_recv_plain pw cr data i s))"
  by (auto simp: on_recv_plain_def intro!: calm_closing feed_plain_calm)

text \<open>The calls of OpenSSL only use up the script.\<close>

lemma tls_calls_calm:
  assumes "calm s0 s"
  shows "calm s0 (snd (snd (tls_handshake s)))" "calm s0 (snd (snd (tls_identity old s)))" "calm s0 (snd (snd (tls_read_plain s)))"
    "calm s0 (snd (snd (tls_write_plain n s)))" "calm s0 (snd (ktls_query s))"
  using assms
  by (auto simp: tls_handshake_def tls_identity_def tls_read_plain_def tls_write_plain_def ktls_query_def Let_def case_prod_beta
      split: list.splits tls_res.splits option.splits)

lemma handshake_done_calm:
  assumes "in_use s0 i" and "calm s0 s"
  shows "calm s0 (snd (tls_on_handshake_done i s))"
proof -
  have a: "calm s0 (upd i (\<lambda>c. c\<lparr>fc_state := CS_ACTIVE\<rparr>) s)"
    using assms calm_used [OF assms(2), of i] by (intro calm_upd) (auto simp: calm_conn_def in_use_def)
  show ?thesis
    by (auto simp: tls_on_handshake_done_def with_identity_def Let_def case_prod_beta intro!: calm_flag tls_calls_calm a)
qed

lemma tls_write_loop_calm: "calm s0 s \<Longrightarrow> calm s0 (snd (tls_write_loop k i s))"
proof (induction k arbitrary: s)
  case (Suc k)
  let ?w = "snd (snd (tls_write_plain (length (fc_send (cn s i)) - fc_send_off (cn s i)) s))"
  have w: "calm s0 ?w" by (rule tls_calls_calm(4) [OF Suc.prems])
  then have "calm s0 (upd i (\<lambda>c. c\<lparr>fc_send_off := fc_send_off c + n\<rparr>) ?w)" for n by (intro calm_flag) simp_all
  note v = this tls_calls_calm(5) [OF this]
  have "calm s0 (upd i (\<lambda>c. c\<lparr>fc_ktls_on := on\<rparr>) t)" if "calm s0 t" for on t using that by (intro calm_flag) simp_all
  moreover have "calm s0 (upd i (\<lambda>c. c\<lparr>fc_want_poll_out := True\<rparr>) ?w)" using w by (intro calm_flag) simp_all
  moreover have "calm s0 (upd i (\<lambda>c. c\<lparr>fc_send := [], fc_send_off := 0, fc_want_poll_out := False\<rparr>) s)"
    using Suc.prems by (intro calm_flag) simp_all
  ultimately show ?case using w v by (auto simp: Let_def case_prod_beta intro!: Suc.IH)
qed simp

lemma tls_read_loop_calm: "in_use s0 i \<Longrightarrow> calm s0 s \<Longrightarrow> calm s0 (snd (tls_read_loop pw cr k i s))"
proof (induction k arbitrary: s)
  case (Suc k)
  with tls_calls_calm(3) [OF Suc.prems(2)] show ?case
    by (auto simp: Let_def case_prod_beta intro!: Suc.IH feed_plain_calm calm_closing)
qed simp

lemma tls_drive_calm:
  assumes "calm s0 s"
  shows "calm s0 (snd (tls_drive_write i s))" "in_use s0 i \<Longrightarrow> calm s0 (snd (tls_drive_read pw cr i s))"
  unfolding tls_drive_write_def tls_drive_read_def by (intro tls_write_loop_calm tls_read_loop_calm assms; assumption)+

text \<open>A poll that is submitted without an error is pending.\<close>

definition polled :: "nat \<Rightarrow> int \<times> 'w server \<Rightarrow> bool" where
  "polled i r \<longleftrightarrow> (fst r = 0 \<and> i < length (sv_conns (snd r)) \<and> fc_ssl (cn (snd r) i) \<and> fc_state (cn (snd r) i) \<noteq> CS_FREE \<longrightarrow>
     fc_poll_pending (cn (snd r) i))"

lemma submit_poll_polled: "polled i (submit_poll i s)"
  by (auto simp: polled_def submit_poll_def Let_def add_sqe_calm(2) split: option.splits)

lemma polled_error [simp]: "rc \<noteq> 0 \<Longrightarrow> polled i (rc, s)"
  by (simp add: polled_def)

lemma tls_transfer_calm:
  assumes u: "in_use s0 i" and c: "calm s0 s"
  shows "calm s0 (snd (tls_transfer pw cr ev i s))" "polled i (tls_transfer pw cr ev i s)"
proof -
  define r1 where "r1 = (if pe_out ev then tls_drive_write i s else (OK, s))"
  define r2 where "r2 = (if pe_in ev then tls_drive_read pw cr i (snd r1) else (OK, snd r1))"
  define r3 where "r3 = (if length (fc_send (cn (snd r2) i)) > fc_send_off (cn (snd r2) i)
                               then tls_drive_write i (snd r2) else (OK, snd r2))"
  have "calm s0 (snd r1)" using c by (simp add: r1_def tls_drive_calm(1))
  moreover from this have "calm s0 (snd r2)" using u by (simp add: r2_def tls_drive_calm(2))
  moreover from this have "calm s0 (snd r3)" by (simp add: r3_def tls_drive_calm(1))
  moreover have "tls_transfer pw cr ev i s = (if fst r1 \<noteq> 0 then (ERR, snd r1)
      else if fst r2 \<noteq> 0 then (ERR, snd r2) else if fst r3 \<noteq> 0 then (ERR, snd r3)
      else if fc_state (cn (snd r3) i) = CS_CLOSING \<and> fc_send (cn (snd r3) i) = [] then (ERR, snd r3)
      else submit_poll i (snd r3))"
    by (simp add: tls_transfer_def Let_def case_prod_beta r1_def [symmetric] r2_def [symmetric] r3_def [symmetric])
  ultimately show "calm s0 (snd (tls_transfer pw cr ev i s))" "polled i (tls_transfer pw cr ev i s)"
    using u by (simp_all add: submit_poll_calm submit_poll_polled)
qed

lemma on_tls_poll_calm:
  assumes u: "in_use s0 i" and c: "calm s0 s"
  shows "calm s0 (snd (on_tls_poll pw cr ev i s))" "polled i (on_tls_poll pw cr ev i s)"
proof -
  have h: "calm s0 (snd (snd (tls_handshake s)))" by (rule tls_calls_calm(1) [OF c])
  have w: "calm s0 (upd i (\<lambda>c. c\<lparr>fc_want_poll_out := b\<rparr>) (snd (snd (tls_handshake s))))" for b using h by (intro calm_flag) simp_all
  note d = handshake_done_calm [OF u h]
  show "calm s0 (snd (on_tls_poll pw cr ev i s))" using u c h w d
    by (simp add: on_tls_poll_def Let_def case_prod_beta tls_transfer_calm(1) submit_poll_calm)
  show "polled i (on_tls_poll pw cr ev i s)" using tls_transfer_calm(2) [OF u c] tls_transfer_calm(2) [OF u d]
    by (simp add: on_tls_poll_def Let_def case_prod_beta submit_poll_polled)
qed

end
