(* ===== verification/Server_Watch.thy ===== *)
theory Server_Watch
  imports Server_Calm
begin

text \<open>
  No client is forgotten: whenever the loop waits, every connection in service has an operation of its own in
  flight, a receive on its descriptor for a plain connection and a poll for a TLS connection, so that
  the loop wakes up for whatever the client does next. Where a pending mark is cleared, the handler of the
  completion submits again or closes the connection; everything else is calm (\<open>Server_Calm\<close>).
\<close>

section \<open>Every connection is watched\<close>

text \<open>\<open>Watch T X srv\<close>: the pending marks of every connection are backed by a submission, or by the completion
  that is being handled (an operation and a slot in \<open>T\<close>), and every connection in service, apart from those in \<open>X\<close>,
  has its mark set.\<close>

definition watched :: "'w fconn \<Rightarrow> bool" where
  "watched c \<longleftrightarrow> (if fc_ssl c then fc_poll_pending c else fc_recv_pending c)"

definition backed :: "(32 word \<times> 32 word) set \<Rightarrow> (64 word \<times> int) set \<Rightarrow> nat \<Rightarrow> 'w fconn \<Rightarrow> bool" where
  "backed T S i c \<longleftrightarrow> (if fc_state c = CS_FREE then \<not> fc_recv_pending c \<and> \<not> fc_poll_pending c else fc_slot c = i) \<and>
     (fc_recv_pending c \<longrightarrow> (ud_of OP_RECV i, fc_fd c) \<in> S \<or> (op_code OP_RECV, word_of_nat i) \<in> T) \<and>
     (fc_poll_pending c \<longrightarrow> (ud_of OP_POLL i, fc_fd c) \<in> S \<or> (op_code OP_POLL, word_of_nat i) \<in> T)"

definition Watch :: "(32 word \<times> 32 word) set \<Rightarrow> nat set \<Rightarrow> 'w server \<Rightarrow> bool" where
  "Watch T X srv \<longleftrightarrow> length (sv_conns srv) = 256 \<and>
     (\<forall>i < 256. backed T (subs srv) i (cn srv i) \<and> (fc_state (cn srv i) \<noteq> CS_FREE \<and> i \<notin> X \<longrightarrow> watched (cn srv i)))"

lemma WatchD:
  assumes "Watch T X srv"
  shows "length (sv_conns srv) = 256" "i < 256 \<Longrightarrow> backed T (subs srv) i (cn srv i)"
    "i < 256 \<Longrightarrow> fc_state (cn srv i) \<noteq> CS_FREE \<Longrightarrow> i \<notin> X \<Longrightarrow> watched (cn srv i)"
  using assms by (auto simp: Watch_def)

lemma calm_backed: "backed T S i c \<Longrightarrow> S \<subseteq> S' \<Longrightarrow> calm_conn S' c c' \<Longrightarrow> backed T S' i c'"
  by (auto simp: backed_def calm_conn_def split: if_splits)

lemma calm_watched: "watched c \<Longrightarrow> calm_conn S c c' \<Longrightarrow> watched c'"
  by (auto simp: watched_def calm_conn_def split: if_splits)

lemma Watch_calm:
  assumes W: "Watch T X s0" and c: "calm s0 s"
  shows "Watch T X s"
proof -
  have C: "calm_conn (subs s) (cn s0 i) (cn s i)" "subs s0 \<subseteq> subs s" for i using c calm_subs [OF c] by (simp_all add: calm_def)
  have "backed T (subs s) i (cn s i)" if "i < 256" for i
    using calm_backed [OF WatchD(2) [OF W that] C(2) C(1)] .
  moreover have "watched (cn s i)" if "i < 256" "fc_state (cn s i) \<noteq> CS_FREE" "i \<notin> X" for i
    using that calm_used [OF c, of i] by (intro calm_watched [OF WatchD(3) [OF W] C(1)]) auto
  ultimately show ?thesis using WatchD(1) [OF W] c by (auto simp: Watch_def calm_def)
qed

lemma Watch_upd:
  assumes "Watch T X s" and "i < 256 \<Longrightarrow> backed T (subs s) i (f (cn s i)) \<and> (fc_state (f (cn s i)) \<noteq> CS_FREE \<and> i \<notin> Y \<longrightarrow> watched (f (cn s i)))"
    and "X \<subseteq> insert i Y"
  shows "Watch T Y (upd i f s)"
  using assms by (auto simp: Watch_def)

lemma Watch_count [simp]: "Watch T X (count g s) = Watch T X s"
  by (simp add: Watch_def)

lemma Watch_mono: "Watch T X s \<Longrightarrow> X \<subseteq> Y \<Longrightarrow> Watch T Y s"
  by (auto simp: Watch_def)

lemma Watch_again: "Watch T {i} s \<Longrightarrow> (i < 256 \<Longrightarrow> fc_state (cn s i) \<noteq> CS_FREE \<Longrightarrow> watched (cn s i)) \<Longrightarrow> Watch T {} s"
  by (auto simp: Watch_def)

text \<open>The completion that is handled may be forgotten once no mark rests on it.\<close>

lemma Watch_settled:
  assumes "Watch T X s" and "\<And>i. i < 256 \<Longrightarrow> fc_recv_pending (cn s i) \<Longrightarrow> (op_code OP_RECV, word_of_nat i) \<notin> T"
    and "\<And>i. i < 256 \<Longrightarrow> fc_poll_pending (cn s i) \<Longrightarrow> (op_code OP_POLL, word_of_nat i) \<notin> T"
  shows "Watch {} X s"
  using assms by (auto simp: Watch_def backed_def)

lemma slot_inj: "i < 256 \<Longrightarrow> j < 256 \<Longrightarrow> (word_of_nat i :: 32 word) = word_of_nat j \<longleftrightarrow> i = j"
  by (simp add: word_of_nat_eq_iff take_bit_nat_def)

section \<open>Closing\<close>

definition closed_conn :: "'w fconn \<Rightarrow> 'w fconn" where
  "closed_conn c = c\<lparr>fc_ssl := False, fc_frontend := None, fc_fd := - 1, fc_state := CS_FREE,
     fc_send_pending := False, fc_recv_pending := False, fc_poll_pending := False,
     fc_be_send_pending := False, fc_be_recv_pending := False, fc_be_wait := BE_IDLE,
     fc_be_start_ns := 0, fc_q := feq_clear_all (fc_q c)\<rparr>"

lemma close_conn_calm:
  assumes "in_use srv i"
  shows "\<exists>s. calm srv s \<and> close_conn pw cr i srv = count metrics_inc_closes (upd i closed_conn s)"
proof -
  let ?s1 = "sv_waiters_remove (fc_slot (cn srv i)) srv"
  let ?s2 = "if fc_be (cn ?s1 i) \<noteq> None \<and> sv_pool ?s1 \<noteq> None
    then snd (fair_schedule_waiters pw cr (finish_be pw cr True i ?s1)) else ?s1"
  have "calm srv ?s2" using assms by (simp add: in_use_def fair_schedule_calm queues_calm)
  moreover have "close_conn pw cr i srv = count metrics_inc_closes (upd i closed_conn ?s2)"
    using assms by (simp add: in_use_def close_conn_def closed_conn_def [abs_def] Let_def)
  ultimately show ?thesis by blast
qed

lemma close_Watch:
  assumes W: "Watch T {i} srv" and i: "i < 256"
  shows "Watch T {} (close_conn pw cr i srv)"
proof (cases "fc_state (cn srv i) = CS_FREE")
  case True
  then show ?thesis using Watch_again [OF W] by (simp add: close_conn_def)
next
  case False
  obtain s where s: "calm srv s" "close_conn pw cr i srv = count metrics_inc_closes (upd i closed_conn s)"
    using close_conn_calm False i WatchD(1) [OF W] by (metis in_use_def)
  have "Watch T {} (upd i closed_conn s)"
    by (rule Watch_upd [OF Watch_calm [OF W s(1)]]) (auto simp: backed_def closed_conn_def)
  then show ?thesis by (simp add: s(2))
qed

lemma close_if_Watch:
  assumes "Watch T {i} (snd r)" and "i < 256"
    and "fst r = 0 \<Longrightarrow> fc_state (cn (snd r) i) \<noteq> CS_FREE \<Longrightarrow> watched (cn (snd r) i)"
  shows "Watch T {} (close_if pw cr i r)"
  using close_Watch [OF assms(1,2)] Watch_again [OF assms(1)] assms(3) by (simp add: close_if_def case_prod_beta)

section \<open>Completions\<close>

lemma submit_recv_watched:
  "fst (submit_recv i s) = 0 \<Longrightarrow> \<not> fc_ssl (cn s i) \<Longrightarrow> fc_state (cn s i) \<noteq> CS_CLOSING \<Longrightarrow> fc_state (cn s i) \<noteq> CS_FREE \<Longrightarrow>
    i < length (sv_conns s) \<Longrightarrow> watched (cn (snd (submit_recv i s)) i)"
  by (auto simp: submit_recv_def Let_def watched_def add_sqe_calm(2) add_sqe_sel split: option.splits if_splits)

lemma on_recv_cqe_Watch:
  assumes W: "Watch {(op_code OP_RECV, word_of_nat i)} {} srv" and i: "i < 256" and used: "fc_state (cn srv i) \<noteq> CS_FREE"
  shows "Watch {} {} (on_recv_cqe pw cr res data i srv)"
proof -
  let ?s = "upd i (\<lambda>c. c\<lparr>fc_recv_pending := False\<rparr>) srv"
  have len: "length (sv_conns srv) = 256" by (rule WatchD(1) [OF W])
  define X where "X = (if fc_ssl (cn srv i) then {} else {i})"
  have "Watch {(op_code OP_RECV, word_of_nat i)} X ?s"
    using WatchD(2,3) [OF W i] used by (intro Watch_upd [OF W]) (auto simp: backed_def watched_def X_def)
  then have s: "Watch {} X ?s"
    using i len by (intro Watch_settled [of "{(op_code OP_RECV, word_of_nat i)}"]) (auto simp: slot_inj split: if_splits)
  have used': "in_use ?s i" using used i len by (simp add: in_use_def)
  define r where "r = on_recv_plain pw cr (take (nat res) data) i ?s"
  have c: "calm ?s (snd r)" unfolding r_def by (rule on_recv_plain_calm [OF used' calm_refl])
  have r: "Watch {} X (snd r)" "Watch {} X (snd (submit_recv i (snd r)))"
    using Watch_calm [OF s] c submit_recv_calm [OF used' c] by blast+
  have X: "Watch {} X t \<Longrightarrow> Watch {} {i} t" for t :: "'a server" by (erule Watch_mono) (simp add: X_def)
  have ssl: "fc_ssl (cn (snd r) i) = fc_ssl (cn srv i)" using c len i by (auto simp: calm_def calm_conn_def)
  have "Watch {} {} (close_if pw cr i (submit_recv i (snd r)))" if st: "fc_state (cn (snd r) i) \<noteq> CS_CLOSING"
  proof (rule close_if_Watch [OF X [OF r(2)] i])
    assume ok: "fst (submit_recv i (snd r)) = 0" and u: "fc_state (cn (snd (submit_recv i (snd r))) i) \<noteq> CS_FREE"
    show "watched (cn (snd (submit_recv i (snd r))) i)"
    proof (cases "fc_ssl (cn srv i)")
      case True
      then show ?thesis using WatchD(3) [OF r(2) i u] by (simp add: X_def)
    next
      case False
      have "fc_state (cn (snd r) i) \<noteq> CS_FREE" using calm_used [OF c, of i] used by simp
      then show ?thesis using submit_recv_watched [OF ok] False ssl st WatchD(1) [OF r(1)] i by simp
    qed
  qed
  then show ?thesis
    using close_Watch [OF X [OF s] i] close_Watch [OF X [OF r(1)] i]
    by (simp add: on_recv_cqe_def Let_def case_prod_beta r_def [symmetric])
qed

lemma on_poll_cqe_Watch:
  assumes W: "Watch {(op_code OP_POLL, word_of_nat i)} {} srv" and i: "i < 256" and used: "fc_state (cn srv i) \<noteq> CS_FREE"
  shows "Watch {} {} (on_poll_cqe pw cr res i srv)"
proof -
  let ?s = "upd i (\<lambda>c. c\<lparr>fc_poll_pending := False\<rparr>) srv"
  have len: "length (sv_conns srv) = 256" by (rule WatchD(1) [OF W])
  define X where "X = (if fc_ssl (cn srv i) then {i} else {})"
  have "Watch {(op_code OP_POLL, word_of_nat i)} X ?s"
    using WatchD(2,3) [OF W i] used by (intro Watch_upd [OF W]) (auto simp: backed_def watched_def X_def)
  then have s: "Watch {} X ?s"
    using i len by (intro Watch_settled [of "{(op_code OP_POLL, word_of_nat i)}"]) (auto simp: slot_inj split: if_splits)
  have used': "in_use ?s i" using used i len by (simp add: in_use_def)
  define r where "r = on_tls_poll pw cr (poll_of res) i ?s"
  have c: "calm ?s (snd r)" and p: "polled i r" unfolding r_def by (rule on_tls_poll_calm [OF used' calm_refl])+
  have r: "Watch {} X (snd r)" using Watch_calm [OF s c] .
  have X: "Watch {} X t \<Longrightarrow> Watch {} {i} t" for t :: "'a server" by (erule Watch_mono) (simp add: X_def)
  have ssl: "fc_ssl (cn (snd r) i) = fc_ssl (cn srv i)" using c len i by (auto simp: calm_def calm_conn_def)
  have "Watch {} {} (close_if pw cr i r)"
  proof (rule close_if_Watch [OF X [OF r] i])
    assume ok: "fst r = 0" and u: "fc_state (cn (snd r) i) \<noteq> CS_FREE"
    show "watched (cn (snd r) i)"
      using p ok u ssl i WatchD(1) [OF r] WatchD(3) [OF r i u] by (cases "fc_ssl (cn srv i)") (auto simp: polled_def watched_def X_def)
  qed
  then show ?thesis using close_Watch [OF X [OF s] i] by (simp add: on_poll_cqe_def Let_def r_def [symmetric])
qed

lemma on_send_cqe_Watch:
  assumes W: "Watch {} {} srv" and i: "i < 256" and used: "fc_state (cn srv i) \<noteq> CS_FREE"
  shows "Watch {} {} (on_send_cqe pw cr res i srv)"
proof -
  have use: "in_use srv i" using used i WatchD(1) [OF W] by (simp add: in_use_def)
  have flag: "calm srv (upd i (\<lambda>c. c\<lparr>fc_send_pending := False\<rparr>) srv)" by (intro calm_flag calm_refl) simp
  let ?s1 = "upd i (\<lambda>c. c\<lparr>fc_send_off := fc_send_off c + nat res\<rparr>) (upd i (\<lambda>c. c\<lparr>fc_send_pending := False\<rparr>) srv)"
  have s1: "calm srv ?s1" by (intro calm_flag flag) simp
  let ?s2 = "if fc_send_off (cn ?s1 i) \<ge> length (fc_send (cn ?s1 i))
      then upd i (\<lambda>c. c\<lparr>fc_send := [], fc_send_off := 0\<rparr>) ?s1 else snd (submit_send i ?s1)"
  have "calm srv (upd i (\<lambda>c. c\<lparr>fc_send := [], fc_send_off := 0\<rparr>) ?s1)" by (intro calm_flag s1) simp
  then have s2: "calm srv ?s2" using s1 use by (simp add: submit_others_calm)
  have "Watch {} {} t" "Watch {} {i} t" if "calm srv t" for t
    using Watch_calm [OF W that] Watch_mono by blast+
  note w = this
  show ?thesis
    unfolding on_send_cqe_def Let_def using close_Watch [OF w(2) [OF flag] i] close_Watch [OF w(2) [OF s2] i] w(1) [OF s2] by simp
qed

lemma be_cqe_Watch:
  assumes W: "Watch {} {} srv" and i: "i < 256" and used: "fc_state (cn srv i) \<noteq> CS_FREE"
  shows "Watch {} {} (close_if pw cr i (on_be_send_cqe pw cr res i srv))" "Watch {} {} (close_if pw cr i (on_be_recv_cqe pw cr res data i srv))"
proof -
  have use: "in_use srv i" using used i WatchD(1) [OF W] by (simp add: in_use_def)
  have "Watch {} {} (close_if pw cr i r)" if "calm srv (snd r)" for r
    using WatchD(3) [OF Watch_calm [OF W that] i] by (intro close_if_Watch [OF Watch_mono [OF Watch_calm [OF W that]] i]) auto
  then show "Watch {} {} (close_if pw cr i (on_be_send_cqe pw cr res i srv))" "Watch {} {} (close_if pw cr i (on_be_recv_cqe pw cr res data i srv))"
    using be_cqe_calm [OF use calm_refl] by blast+
qed

section \<open>Accepting a connection\<close>

text \<open>A connection that is set up submits its first operation, or there is an error and it is closed.\<close>

lemma alloc_conn_Watch:
  assumes W: "Watch T {} srv" and a: "alloc_conn srv = Some (i, srv1)"
  shows "Watch T {} srv1" "i < 256" "fc_slot (cn srv1 i) = i" "fc_state (cn srv1 i) = CS_FREE" "\<not> fc_ssl (cn srv1 i)"
    "\<not> fc_recv_pending (cn srv1 i)" "\<not> fc_poll_pending (cn srv1 i)"
proof -
  let ?z = "fconn_zero\<lparr>fc_slot := i, fc_fd := - 1, fc_id := identity_clear, fc_cache := stmt_cache_init\<rparr>"
  have len: "length (sv_conns srv) = 256" by (rule WatchD(1) [OF W])
  have i: "i < 256" and e: "srv1 = upd i (\<lambda>_. ?z) srv"
    using a len by (auto simp: alloc_conn_def find_Some_iff split: option.splits)
  show "i < 256" by (rule i)
  show "Watch T {} srv1" unfolding e by (rule Watch_upd [OF W]) (simp_all add: backed_def fconn_zero_def)
  show "fc_slot (cn srv1 i) = i" "fc_state (cn srv1 i) = CS_FREE" "\<not> fc_ssl (cn srv1 i)"
    "\<not> fc_recv_pending (cn srv1 i)" "\<not> fc_poll_pending (cn srv1 i)" using i len by (simp_all add: e fconn_zero_def)
qed

lemma enter_Watch:
  assumes W: "Watch T {} s" and c: "fc_slot (cn s i) = i" "fc_state (cn s i) = CS_FREE"
    and f: "fc_slot (f (cn s i)) = i" "\<not> fc_recv_pending (f (cn s i))" "\<not> fc_poll_pending (f (cn s i))"
  shows "Watch T {i} (upd i f s)"
  by (rule Watch_upd [OF W]) (simp_all add: backed_def f)

lemma accept_plain_Watch:
  assumes W: "Watch T {} s" and i: "i < 256" and c: "fc_slot (cn s i) = i" "fc_state (cn s i) = CS_FREE" "\<not> fc_ssl (cn s i)"
    "\<not> fc_recv_pending (cn s i)" "\<not> fc_poll_pending (cn s i)"
  shows "Watch T {i} (snd (accept_plain i s))" "fst (accept_plain i s) = 0 \<Longrightarrow> watched (cn (snd (accept_plain i s)) i)"
proof -
  define t where "t = with_identity (identity_from_cert_subject ''plain-dev:default'') i (upd i (\<lambda>c. c\<lparr>fc_state := CS_ACTIVE\<rparr>) s)"
  have "Watch T {i} (upd i (\<lambda>c. c\<lparr>fc_state := CS_ACTIVE\<rparr>) s)" by (rule enter_Watch [OF W]) (simp_all add: c)
  then have t: "Watch T {i} t" unfolding t_def by (rule Watch_calm) (simp add: with_identity_def calm_flag)
  have len: "length (sv_conns s) = 256" by (rule WatchD(1) [OF W])
  have ct: "fc_state (cn t i) = CS_ACTIVE" "\<not> fc_ssl (cn t i)" "i < length (sv_conns t)"
    using i len c by (simp_all add: t_def with_identity_def)
  have e: "accept_plain i s = submit_recv i t" by (simp add: accept_plain_def t_def)
  show "Watch T {i} (snd (accept_plain i s))"
    unfolding e using ct WatchD(1) [OF t] by (intro Watch_calm [OF t] submit_recv_calm calm_refl) (simp add: in_use_def)
  show "fst (accept_plain i s) = 0 \<Longrightarrow> watched (cn (snd (accept_plain i s)) i)"
    unfolding e by (rule submit_recv_watched) (simp_all add: ct)
qed

lemma polled_watched: "polled i r \<Longrightarrow> fst r = 0 \<Longrightarrow> i < length (sv_conns (snd r)) \<Longrightarrow> fc_ssl (cn (snd r) i) \<Longrightarrow>
    fc_state (cn (snd r) i) \<noteq> CS_FREE \<Longrightarrow> watched (cn (snd r) i)"
  by (simp add: polled_def watched_def)

lemma accept_tls_Watch:
  assumes W: "Watch T {} s" and i: "i < 256" and c: "fc_slot (cn s i) = i" "fc_state (cn s i) = CS_FREE"
    "\<not> fc_recv_pending (cn s i)" "\<not> fc_poll_pending (cn s i)"
  shows "Watch T {i} (snd (accept_tls ssl_ok i s))" "fst (accept_tls ssl_ok i s) = 0 \<Longrightarrow> watched (cn (snd (accept_tls ssl_ok i s)) i)"
proof -
  define s4 where "s4 = upd i (\<lambda>c. c\<lparr>fc_ssl := True, fc_state := CS_TLS_HS\<rparr>) s"
  have len: "length (sv_conns s) = 256" by (rule WatchD(1) [OF W])
  have u: "in_use s4 i" and ssl: "fc_ssl (cn s4 i)" and len4: "length (sv_conns s4) = 256"
    using i len by (simp_all add: s4_def in_use_def)
  have s: "Watch T {i} s4" unfolding s4_def by (rule enter_Watch [OF W]) (simp_all add: c)
  define h where "h = tls_handshake s4"
  have h: "calm s4 (snd (snd h))" unfolding h_def by (rule tls_calls_calm(1) [OF calm_refl])
  have d: "calm s4 (snd (tls_on_handshake_done i (snd (snd h))))" by (rule handshake_done_calm [OF u h])
  define r where "r = (if fst h = 1 then tls_on_handshake_done i (snd (snd h)) else if fst h < 0 then (ERR, snd (snd h)) else (OK, snd (snd h)))"
  have r: "calm s4 (snd r)" using h d by (simp add: r_def)
  with u have p: "calm s4 (snd (submit_poll i (snd r)))" by (rule submit_poll_calm)
  have e: "accept_tls ssl_ok i s = (if \<not> tls_conn_new_fd (sv_tls s) (fc_fd (cn s i)) ssl_ok then (ERR, s)
      else if fst r \<noteq> 0 then (ERR, snd r) else submit_poll i (snd r))"
    by (simp add: accept_tls_def Let_def case_prod_beta s4_def [symmetric] h_def [symmetric] r_def [symmetric])
  have "Watch T {i} s" using W by (rule Watch_mono) simp
  then show "Watch T {i} (snd (accept_tls ssl_ok i s))" unfolding e using Watch_calm [OF s r] Watch_calm [OF s p] by simp
  show "fst (accept_tls ssl_ok i s) = 0 \<Longrightarrow> watched (cn (snd (accept_tls ssl_ok i s)) i)"
  proof -
    have k: "calm_conn (subs (snd (submit_poll i (snd r)))) (cn s4 i) (cn (snd (submit_poll i (snd r))) i)"
      "length (sv_conns (snd (submit_poll i (snd r)))) = 256" using p len4 by (simp_all add: calm_def)
    then have "fc_ssl (cn (snd (submit_poll i (snd r))) i)" "fc_state (cn (snd (submit_poll i (snd r))) i) \<noteq> CS_FREE"
      using u ssl unfolding calm_conn_def in_use_def by blast+
    then have "fst (submit_poll i (snd r)) = 0 \<Longrightarrow> watched (cn (snd (submit_poll i (snd r))) i)"
      using k(2) i submit_poll_polled by (intro polled_watched) simp_all
    then show "fst (accept_tls ssl_ok i s) = 0 \<Longrightarrow> watched (cn (snd (accept_tls ssl_ok i s)) i)"
      unfolding e by (simp split: if_splits)
  qed
qed

lemma accept_one_Watch:
  assumes W: "Watch T {} srv"
  shows "Watch T {} (snd (accept_one pw cr fd zc ssl_ok srv))"
proof (cases "fd < 0 \<or> alloc_conn srv = None")
  case True
  then show ?thesis using W by (auto simp: accept_one_def)
next
  case False
  then obtain i srv1 where a: "alloc_conn srv = Some (i, srv1)" by auto
  note C = alloc_conn_Watch [OF W a]
  have len: "length (sv_conns srv1) = 256" by (rule WatchD(1) [OF C(1)])
  define s2 where "s2 = upd i (\<lambda>c. c\<lparr>fc_fd := fd, fc_zerocopy_ok := (msg_zerocopy (sv_cfg srv1) \<and> zc)\<rparr>) (count metrics_inc_accepts srv1)"
  have s2: "Watch T {} s2" unfolding s2_def using C by (intro Watch_upd [of T "{}"]) (simp_all add: backed_def)
  define s3 where "s3 w = upd i (\<lambda>c. c\<lparr>fc_frontend := Some w\<rparr>) s2" for w
  have s3: "Watch T {} (s3 w)" for w unfolding s3_def by (rule Watch_calm [OF s2]) (simp add: calm_flag)
  have c3: "fc_slot (cn (s3 w) i) = i" "fc_state (cn (s3 w) i) = CS_FREE" "\<not> fc_ssl (cn (s3 w) i)"
    "\<not> fc_recv_pending (cn (s3 w) i)" "\<not> fc_poll_pending (cn (s3 w) i)" for w using C len by (simp_all add: s3_def s2_def)
  note plain = accept_plain_Watch [OF s3 C(2) c3] and tls = accept_tls_Watch [OF s3 C(2) c3(1,2,4,5)]
  have st2: "fc_state (cn s2 i) = CS_FREE" using C len by (simp add: s2_def)
  have "Watch T {i} (snd (accept_setup pw ssl_ok i s2))"
    using Watch_mono [OF s2, of "{i}"] plain(1) tls(1) by (simp add: accept_setup_def Let_def s3_def [symmetric] split: option.splits)
  moreover have "watched (cn (snd (accept_setup pw ssl_ok i s2)) i)" if "fst (accept_setup pw ssl_ok i s2) = 0"
    using that plain(2) tls(2) by (auto simp: accept_setup_def Let_def s3_def [symmetric] split: option.splits if_splits)
  ultimately show ?thesis
    using False a C(2) by (auto simp: accept_one_def s2_def [symmetric] case_prod_beta intro: close_Watch Watch_again)
qed

section \<open>Turns of the loop\<close>

lemma pack_fst: "unpack_ud (ud_of opc i) = (op_code opc, word_of_nat i)"
  by (simp add: ud_of_def user_data_round_trip)

lemma dispatch_Watch:
  assumes W: "Watch {unpack_ud (cq_ud q)} {} srv"
  shows "Watch {} {} (dispatch pw cr q srv)"
proof -
  obtain opc slot where u: "unpack_ud (cq_ud q) = (opc, slot)" by fastforce
  note W = W [unfolded u]
  have rest: "Watch {} {} srv" if "opc \<noteq> op_code OP_RECV" "opc \<noteq> op_code OP_POLL"
    using that by (intro Watch_settled [OF W]) auto
  have slot: "word_of_nat (unat slot) = slot" by simp
  have idle: "Watch {} {} srv" if "\<not> (unat slot < 256 \<and> fc_state (cn srv (unat slot)) \<noteq> CS_FREE)"
  proof (rule Watch_settled [OF W])
    fix i :: nat
    assume i: "i < 256"
    have "slot \<noteq> word_of_nat i" if p: "fc_recv_pending (cn srv i) \<or> fc_poll_pending (cn srv i)"
    proof
      assume "slot = word_of_nat i"
      then have "unat slot = i" using i by (simp add: unat_of_nat)
      with \<open>\<not> (unat slot < 256 \<and> _)\<close> i have "fc_state (cn srv i) = CS_FREE" by simp
      with WatchD(2) [OF W i] p show False by (simp add: backed_def)
    qed
    then show "fc_recv_pending (cn srv i) \<Longrightarrow> (op_code OP_RECV, word_of_nat i) \<notin> {(opc, slot)}"
      "fc_poll_pending (cn srv i) \<Longrightarrow> (op_code OP_POLL, word_of_nat i) \<notin> {(opc, slot)}" by auto
  qed
  have on: "Watch {} {} (on_slot slot P f srv)"
    if "\<And>i. i < 256 \<Longrightarrow> i = unat slot \<Longrightarrow> fc_state (cn srv i) \<noteq> CS_FREE \<Longrightarrow> Watch {} {} (f i srv)" and "\<not> P (cn srv (unat slot)) \<Longrightarrow> Watch {} {} srv"
    for P f using that idle by (auto simp: on_slot_def)
  have accept: "Watch {} {} (on_accept_cqe pw cr q srv)" if "opc = op_code OP_ACCEPT"
    using that rest accept_one_Watch by (auto simp: on_accept_cqe_def intro!: Watch_calm [OF _ submit_accept_calm [OF calm_refl]])
  have recv: "Watch {} {} (on_slot slot (\<lambda>_. True) (on_recv_cqe pw cr (cq_res q) (cq_data q)) srv)" if "opc = op_code OP_RECV"
    using W that by (intro on) (auto intro!: on_recv_cqe_Watch)
  have poll: "Watch {} {} (on_slot slot (\<lambda>_. True) (on_poll_cqe pw cr (cq_res q)) srv)" if "opc = op_code OP_POLL"
    using W that by (intro on) (auto intro!: on_poll_cqe_Watch)
  have others: "Watch {} {} (on_slot slot (\<lambda>_. True) (on_send_cqe pw cr (cq_res q)) srv)"
    "Watch {} {} (on_slot slot P (\<lambda>i s. close_if pw cr i (on_be_send_cqe pw cr (cq_res q) i s)) srv)"
    "Watch {} {} (on_slot slot P (\<lambda>i s. close_if pw cr i (on_be_recv_cqe pw cr (cq_res q) (cq_data q) i s)) srv)"
    if "opc \<noteq> op_code OP_RECV" "opc \<noteq> op_code OP_POLL" for P
    using rest [OF that] by (auto intro!: on on_send_cqe_Watch be_cqe_Watch)
  show ?thesis
    unfolding dispatch_def u Let_def split
    using accept recv poll others rest by auto
qed

lemma take_flight_Watch:
  assumes W: "Watch {} {} srv" and k: "k < length (sv_flight srv)"
  shows "Watch {unpack_ud (su_ud (sv_flight srv ! k))} {} (take_flight k srv)"
proof -
  let ?s = "sv_flight srv ! k" and ?t = "take_flight k srv"
  have "sv_flight srv = take k (sv_flight srv) @ ?s # drop (Suc k) (sv_flight srv)" using id_take_nth_drop [OF k] .
  then have "set (sv_flight srv) = insert ?s (set (take k (sv_flight srv) @ drop (Suc k) (sv_flight srv)))"
    by (metis Un_insert_right list.simps(15) set_append)
  then have S: "subs srv \<subseteq> insert (su_ud ?s, su_fd ?s) (subs ?t)" by (auto simp: subs_def take_flight_def)
  have u: "(x, fd) \<in> subs srv \<Longrightarrow> (x, fd) \<in> subs ?t \<or> x = su_ud ?s" for x fd using S by auto
  have cn: "cn ?t i = cn srv i" "sv_conns ?t = sv_conns srv" for i by (simp_all add: take_flight_def cn_def)
  have "backed {unpack_ud (su_ud ?s)} (subs ?t) i (cn srv i)" if "i < 256" for i
    using WatchD(2) [OF W that] u [of "ud_of OP_RECV i"] u [of "ud_of OP_POLL i"] pack_fst [of OP_RECV i] pack_fst [of OP_POLL i]
    unfolding backed_def by (metis empty_iff singletonI)
  then show ?thesis using WatchD(1,3) [OF W] by (auto simp: Watch_def cn)
qed

lemma server_tick_calm: "calm s0 s \<Longrightarrow> calm s0 (snd (server_tick pw cr s))"
proof -
  assume c: "calm s0 s"
  have other: "calm s0 (t\<lparr>sv_last_maintain_ms := m\<rparr>) = calm s0 t" "calm s0 (t\<lparr>sv_last_metrics_ms := m\<rparr>) = calm s0 t" for t m
    by (simp_all add: calm_def subs_def) (simp_all add: cn_def)
  have "calm s0 (tick_maintain pw cr s)" using c by (auto simp: tick_maintain_def Let_def case_prod_beta other split: option.splits)
  then show ?thesis by (simp add: server_tick_def tick_metrics_def Let_def other)
qed

lemma uring_submit_Watch [simp]: "Watch T X (uring_submit s) = Watch T X s"
  by (simp add: Watch_def uring_submit_def subs_def Un_commute) (simp add: cn_def)

lemma set_env_Watch [simp]: "Watch T X (set_env now ios ssl s) = Watch T X s"
  by (simp add: Watch_def set_env_def subs_def) (simp add: cn_def)

lemma server_step_Watch:
  assumes "server_step pw cr srv srv'" and W: "Watch {} {} srv"
  shows "Watch {} {} srv'"
  using assms(1)
proof cases
  case (time_over now ios ssl)
  have "Watch {} {} (set_env now ios ssl srv)" using W by simp
  from Watch_calm [OF this server_tick_calm [OF calm_refl]] time_over show ?thesis by simp
next
  case (interrupted now ios ssl)
  then show ?thesis using W by simp
next
  case (completion k q now ios ssl)
  let ?e = "set_env now ios ssl srv"
  have k: "k < length (sv_flight ?e)" "sv_flight ?e = sv_flight srv" using completion(2) by (simp_all add: set_env_def)
  have "Watch {unpack_ud (cq_ud q)} {} (take_flight k ?e)"
    using take_flight_Watch [OF _ k(1)] W completion(3) k(2) by (simp add: completes_def)
  from Watch_calm [OF this server_tick_calm [OF calm_refl]] show ?thesis
    unfolding completion(1) by (simp add: dispatch_Watch)
qed

lemma start_pool_conns [simp]: "sv_conns (start_pool pw cr en srv) = sv_conns srv"
  by (simp add: start_pool_def case_prod_beta Let_def)

lemma server_start_Watch:
  assumes "server_start pw cr en cfg now w ssl = Some srv"
  shows "Watch {} {} srv"
proof -
  have "sv_conns (snd (submit_accept s)) = sv_conns s" for s :: "'a server"
    by (auto simp: submit_accept_def add_sqe_def)
  then have "sv_conns srv = replicate 256 fconn_zero"
    using assms by (auto simp: server_start_def Let_def case_prod_beta uring_submit_def server_zero_def split: if_splits)
  then show ?thesis by (simp add: Watch_def cn_def backed_def fconn_zero_def)
qed

lemma reachable_Watch: "reachable pw cr cfg srv \<Longrightarrow> Watch {} {} srv"
  by (induction rule: reachable.induct) (auto intro: server_start_Watch server_step_Watch)

text \<open>Nothing waits to be submitted between two turns.\<close>

lemma server_tick_sq: "sv_sq (snd (server_tick pw cr s)) = sv_sq s"
  by (simp add: server_tick_def tick_metrics_def tick_maintain_def count_def set_pool_def Let_def case_prod_beta split: option.splits)

lemma reachable_sq: "reachable pw cr cfg srv \<Longrightarrow> sv_sq srv = []"
proof (induction rule: reachable.induct)
  case (start en now w ssl srv)
  then show ?case by (auto simp: server_start_def Let_def case_prod_beta uring_submit_def split: if_splits)
next
  case (step srv srv')
  from step.hyps(2) step.IH show ?case
    by cases (simp_all add: server_tick_sq set_env_def uring_submit_def)
qed

section \<open>Properties\<close>

text \<open>C9. No client is forgotten: in every reachable state each connection in service has an operation of its own
  in flight, on its own descriptor and for its own slot: a receive for a plain connection, a poll for a TLS connection.
  So the loop wakes up for what the client does next, whatever happened before: failed pipelines,
  refused submissions, requests that wait for a backend, stale completions of earlier connections.\<close>

theorem every_client_is_watched:
  assumes reach: "reachable pw cr cfg srv" and i: "i < 256" and used: "fc_state (cn srv i) \<noteq> CS_FREE"
  shows "\<exists>s \<in> set (sv_flight srv). su_fd s = fc_fd (cn srv i) \<and>
    su_ud s = pack_ud (op_code (if fc_ssl (cn srv i) then OP_POLL else OP_RECV)) (word_of_nat i)"
proof -
  note W = reachable_Watch [OF reach]
  have "(ud_of (if fc_ssl (cn srv i) then OP_POLL else OP_RECV) i, fc_fd (cn srv i)) \<in> subs srv"
    using WatchD(2) [OF W i] WatchD(3) [OF W i used] by (auto simp: backed_def watched_def split: if_splits)
  then show ?thesis by (auto simp: subs_def ud_of_def reachable_sq [OF reach])
qed

text \<open>Closing a connection leaves exactly its slot free besides those that were.\<close>

lemma close_conn_states:
  assumes "length (sv_conns srv) = 256" and "i < 256"
  shows "fc_state (cn (close_conn pw cr i srv) j) = CS_FREE \<longleftrightarrow> j = i \<or> fc_state (cn srv j) = CS_FREE"
    "length (sv_conns (close_conn pw cr i srv)) = 256"
proof -
  have "(fc_state (cn (close_conn pw cr i srv) j) = CS_FREE \<longleftrightarrow> j = i \<or> fc_state (cn srv j) = CS_FREE) \<and>
    length (sv_conns (close_conn pw cr i srv)) = 256"
  proof (cases "fc_state (cn srv i) = CS_FREE")
    case True
    then show ?thesis using assms by (auto simp: close_conn_def)
  next
    case False
    obtain s where s: "calm srv s" "close_conn pw cr i srv = count metrics_inc_closes (upd i closed_conn s)"
      using close_conn_calm False assms by (metis in_use_def)
    have "length (sv_conns s) = 256" using s(1) assms(1) by (simp add: calm_def)
    then show ?thesis using calm_used [OF s(1), of j] assms(2) by (simp add: s(2) closed_conn_def)
  qed
  then show "fc_state (cn (close_conn pw cr i srv) j) = CS_FREE \<longleftrightarrow> j = i \<or> fc_state (cn srv j) = CS_FREE"
    "length (sv_conns (close_conn pw cr i srv)) = 256" by blast+
qed

lemma close_all:
  assumes "Good pw srv" and "\<And>i. i \<in> set is \<Longrightarrow> i < 256"
  shows "Good pw (fold (close_conn pw cr) is srv) \<and>
    (\<forall>j. fc_state (cn (fold (close_conn pw cr) is srv) j) = CS_FREE \<longleftrightarrow> j \<in> set is \<or> fc_state (cn srv j) = CS_FREE)"
  using assms
proof (induction "is" arbitrary: srv)
  case (Cons i "is")
  have i: "i < 256" using Cons.prems(2) by simp
  have "Good pw (close_conn pw cr i srv)" by (rule close_Inv [OF Cons.prems(1) i])
  from Cons.IH [OF this] Cons.prems(2) close_conn_states(1) [OF InvD(1) [OF Cons.prems(1)] i] show ?case by auto
qed simp

text \<open>The end of the loop leaves nothing behind: after a shutdown from any reachable state every slot is free and owns
  no backend, although closing one connection lets others that wait start a pipeline, there is no
  pool and no submission, and the descriptors that were closed are exactly those that the connections of the
  pool still had.\<close>

theorem shutdown_leaves_nothing:
  assumes reach: "reachable pw cr cfg srv" and down: "server_shutdown pw cr srv = (srv', fds)"
  shows "(\<forall>i < 256. fc_state (cn srv' i) = CS_FREE \<and> fc_be (cn srv' i) = None) \<and> sv_pool srv' = None \<and> sv_flight srv' = [] \<and> sv_sq srv' = [] \<and>
    set fds = {fd. fd \<ge> 0 \<and> (\<exists>p. sv_pool (fold (close_conn pw cr) [0..<256] srv) = Some p \<and> fd \<in> be_fd ` set (po_conns p))}"
proof -
  let ?s = "fold (close_conn pw cr) [0..<256] srv"
  have all: "Good pw ?s" "\<And>i. i < 256 \<Longrightarrow> fc_state (cn ?s i) = CS_FREE"
    using close_all [OF reachable_Inv [OF reach], of "[0..<256]" cr] by auto
  have be: "fc_be (cn ?s i) = None" if "i < 256" for i using InvD(4) [OF all(1) that] all(2) [OF that] by (auto simp: conn_wf_def)
  have srv': "srv' = ?s\<lparr>sv_pool := None, sv_tls := None, sv_sq := [], sv_flight := []\<rparr>"
    and fds: "fds = (case sv_pool ?s of None \<Rightarrow> [] | Some p \<Rightarrow> pool_destroy p)"
    using down by (simp_all add: server_shutdown_def Let_def)
  have cn: "cn srv' i = cn ?s i" for i by (simp add: srv' cn_def)
  have "set (pool_destroy p) = {fd. fd \<ge> 0 \<and> fd \<in> be_fd ` set (po_conns p)}" if "sv_pool ?s = Some p" for p
    using Inv_lease(1) [OF all(1) that] by (auto simp: pool_destroy_def pool_inv_def)
  then have "set fds = {fd. fd \<ge> 0 \<and> (\<exists>p. sv_pool ?s = Some p \<and> fd \<in> be_fd ` set (po_conns p))}"
    unfolding fds by (cases "sv_pool ?s") simp_all
  then show ?thesis using all(2) be by (simp add: cn) (simp add: srv')
qed

section \<open>Answers to TLS clients\<close>

text \<open>What the turn of a backend completion submits: nothing but what calm operations ask for.\<close>

lemma close_if_new:
  assumes "in_use srv i" and c: "calm srv (snd r)"
  shows "sv_flight (close_if pw cr i r) = sv_flight srv" "x \<in> set (sv_sq (close_if pw cr i r)) \<Longrightarrow> x \<in> set (sv_sq srv) \<or> asked srv x"
proof -
  have new: "sv_flight s = sv_flight srv" "x \<in> set (sv_sq s) \<Longrightarrow> x \<in> set (sv_sq srv) \<or> asked srv x" if "calm srv s" for s
    using that by (auto simp: calm_def)
  have "in_use (snd r) i" using assms in_use_calm by blast
  then obtain s where s: "calm (snd r) s" "close_conn pw cr i (snd r) = count metrics_inc_closes (upd i closed_conn s)"
    using close_conn_calm by blast
  note n = new [OF calm_trans [OF c s(1)]] new [OF c]
  show "sv_flight (close_if pw cr i r) = sv_flight srv" "x \<in> set (sv_sq (close_if pw cr i r)) \<Longrightarrow> x \<in> set (sv_sq srv) \<or> asked srv x"
    using n by (simp_all add: close_if_def case_prod_beta s(2) split: if_splits)
qed

lemma backend_turn_new:
  assumes len: "length (sv_conns srv) = 256" and opc: "fst (unpack_ud (cq_ud q)) \<in> {op_code OP_BE_SEND, op_code OP_BE_RECV}"
  shows "sv_flight (dispatch pw cr q srv) = sv_flight srv"
    "x \<in> set (sv_sq (dispatch pw cr q srv)) \<Longrightarrow> x \<in> set (sv_sq srv) \<or> asked srv x"
proof -
  obtain opc slot where u: "unpack_ud (cq_ud q) = (opc, slot)" by fastforce
  let ?f = "\<lambda>i s. close_if pw cr i (if opc = op_code OP_BE_SEND then on_be_send_cqe pw cr (cq_res q) i s
    else on_be_recv_cqe pw cr (cq_res q) (cq_data q) i s)"
  have d: "dispatch pw cr q srv = on_slot slot (\<lambda>c. fc_be c \<noteq> None) ?f srv" using opc u by (auto simp: dispatch_def)
  have "sv_flight (?f i srv) = sv_flight srv" "x \<in> set (sv_sq (?f i srv)) \<Longrightarrow> x \<in> set (sv_sq srv) \<or> asked srv x" if "in_use srv i" for i
    using close_if_new [OF that be_cqe_calm(1) [OF that calm_refl]] close_if_new [OF that be_cqe_calm(2) [OF that calm_refl]]
    by (auto split: if_splits)
  then show "sv_flight (dispatch pw cr q srv) = sv_flight srv"
    "x \<in> set (sv_sq (dispatch pw cr q srv)) \<Longrightarrow> x \<in> set (sv_sq srv) \<or> asked srv x"
    using len unfolding d by (auto simp: on_slot_def in_use_def split: if_splits)
qed


end
