(* ===== verification/Server_Fuel.thy ===== *)
theory Server_Fuel
  imports Server_Safe
begin

text \<open>
  The nesting of the handlers ends: draining a queue marks its connection, and a marked connection is
  not drained again, so a handler at a state with \<open>n\<close> unmarked connections nests at most \<open>n\<close> times.
  Two handlers that agree where at most \<open>n\<close> connections are unmarked (the locale \<open>agreeing\<close>) give
  drains that agree where at most \<open>n + 1\<close> are, so more fuel than 257 changes nothing.
\<close>

definition unmarked :: "bool list \<Rightarrow> nat" where
  "unmarked D = length (filter Not D)"

lemma unmarked_mark: "i < length D \<Longrightarrow> \<not> D ! i \<Longrightarrow> unmarked D = Suc (unmarked (D[i := True]))"
proof (induction D arbitrary: i)
  case (Cons d D)
  then show ?case by (cases i) (auto simp: unmarked_def)
qed simp

lemma unmarked_le: "unmarked D \<le> length D"
  by (simp add: unmarked_def)

lemma all_marked: "unmarked D = 0 \<Longrightarrow> i < length D \<Longrightarrow> D ! i"
  by (auto simp: unmarked_def filter_empty_conv)

locale agreeing = kept pw h + other: kept pw h' for pw :: "'w pqwire" and h h' :: "'w handler" +
  fixes n :: nat
  assumes agree: "i \<in> A \<Longrightarrow> Inv pw E X U A D srv \<Longrightarrow> unmarked D \<le> n \<Longrightarrow> h i srv = h' i srv"
begin

lemma fail_agree:
  assumes i: "i \<in> A" and inv: "Inv pw E X U A D srv" and n: "unmarked D \<le> n"
  shows "backend_async_fail pw cr h i srv = backend_async_fail pw cr h' i srv"
proof -
  note i256 = InvD(7) [OF inv i]
  define s2 where "s2 = upd i (\<lambda>c. c\<lparr>fc_be_resp := []\<rparr>) (finish_be pw cr True i (count metrics_inc_be_fail (note_wait i srv)))"
  define s4 where "s4 = snd (fe_call (w_send_ready_for_query pw) i
    (snd (fe_call (\<lambda>w. w_send_error_response pw w ''ERROR'' ''08006'' ''backend pipeline failed'') i s2)))"
  have "Inv pw E X U A D s2" unfolding s2_def using inv i256
    by (intro upd_flag_Inv finish_be_Inv) (simp_all add: note_wait_Inv)
  then have "Inv pw E X U A D (snd (drain_frontend_out pw i s4))" unfolding s4_def by (intro drain_frontend_out_Inv fe_call_Inv)
  from agree [OF i this n] show ?thesis
    unfolding backend_async_fail_def Let_def s2_def [symmetric] s4_def [symmetric] by (simp add: case_prod_beta)
qed

lemma start_queue_agree:
  assumes i: "i \<in> A" and inv: "Inv pw E X U A D srv" and n: "unmarked D \<le> n" and ready: "fc_identity_ready (cn srv i)"
  shows "start_async_bind_from_queue pw cr h it i srv = start_async_bind_from_queue pw cr h' it i srv"
proof -
  let ?b = "bind_of_item pw it"
  obtain got s1 where b: "begin_be pw cr ?b i srv = (got, s1)" by fastforce
  show ?thesis
  proof (cases got)
    case None
    then show ?thesis using b by (simp add: start_async_bind_from_queue_def Let_def)
  next
    case (Some k)
    let ?f = "\<lambda>c. c\<lparr>fc_be := Some k, fc_be_resp := [], fc_got_execute := False,
                                 fc_got_sync := False, fc_be_start_ns := sv_now_ns srv\<rparr>"
    have "Inv pw E X U A D (upd i ?f s1)"
      using b Some by (intro begin_be_own [OF inv _ i ready, of cr ?b k]) (auto simp: moves_def changes_def conn_wf_def)
    then have "Inv pw E X U A D (snd (submit_be_send i (upd i ?f s1)))" by (rule submit_be_send_Inv)
    from fail_agree [OF i this n] b Some show ?thesis
      by (simp add: start_async_bind_from_queue_def Let_def case_prod_beta)
  qed
qed

lemma drain_item_agree:
  assumes "i \<in> A" and "Inv pw E X U A D srv" and "unmarked D \<le> n"
  shows "drain_item pw cr h it i srv = drain_item pw cr h' it i srv"
proof -
  have "drain_bind pw cr h it i srv = drain_bind pw cr h' it i srv"
  proof (cases "sv_pool srv \<noteq> None \<and> fc_identity_ready (cn srv i)")
    case True
    then show ?thesis using start_queue_agree [OF assms, of cr it] by (simp add: drain_bind_def Let_def)
  next
    case False
    then show ?thesis by (auto simp: drain_bind_def Let_def)
  qed
  then show ?thesis by (simp only: drain_item_def)
qed

lemma drain_loop_agree:
  "i \<in> A \<Longrightarrow> Inv pw E X U A D srv \<Longrightarrow> unmarked D \<le> n \<Longrightarrow> drain_loop pw cr h k i srv = drain_loop pw cr h' k i srv"
proof (induction k arbitrary: srv)
  case (Suc k)
  show ?case
  proof (cases "if fc_be_wait (cn srv i) = BE_IDLE then feq_pop (fc_q (cn srv i)) else None")
    case None
    then show ?thesis by simp
  next
    case (Some x)
    obtain it q where x: "x = (it, q)" by fastforce
    let ?s = "upd i (\<lambda>c. c\<lparr>fc_q := q\<rparr>) srv"
    have s: "Inv pw E X U A D ?s"
      using Some x feq_pop_items [of "fc_q (cn srv i)" it q] Suc.prems by (intro queue_Inv) (auto split: if_splits)
    note e = drain_item_agree [OF Suc.prems(1) s Suc.prems(3), of cr it]
    from drain_item_Inv [OF Suc.prems(1) s, of cr it] e Suc.IH [OF Suc.prems(1) _ Suc.prems(3)] show ?thesis
      by (simp add: Some x split: sum.splits)
  qed
qed simp

text \<open>Marking the connection leaves one unmarked connection less to the calls inside.\<close>

lemma drain_queue_agree:
  assumes i: "i \<in> A" and inv: "Inv pw E X U A D srv" and n: "unmarked D \<le> Suc n"
  shows "drain_queue pw cr h i srv = drain_queue pw cr h' i srv"
proof (cases "fc_draining (cn srv i)")
  case False
  note i256 = InvD(7) [OF inv i]
  have "\<not> D ! i" "i < length D" using InvD(3,9) [OF inv] i256 False by auto
  then have "unmarked (D[i := True]) \<le> n" using unmarked_mark n by fastforce
  moreover have "Inv pw E X U A (D[i := True]) (upd i (\<lambda>c. c\<lparr>fc_draining := True\<rparr>) srv)"
    using Inv_upd [OF inv, of i "\<lambda>c. c\<lparr>fc_draining := True\<rparr>"] by simp
  ultimately show ?thesis using drain_loop_agree [OF i] False by (simp add: drain_queue_def)
qed (simp add: drain_queue_def)

lemma schedule_one_agree:
  assumes inv: "Inv pw E (insert slot X) U A D srv" and slot: "slot < 256" "slot \<notin> U" and n: "unmarked D \<le> n"
  shows "schedule_one h slot srv = schedule_one h' slot srv"
proof (cases "fc_state (cn srv slot) = CS_FREE")
  case True
  then show ?thesis by (simp add: schedule_one_def)
next
  case False
  let ?s = "upd slot (\<lambda>c. c\<lparr>fc_be_wait := BE_IDLE\<rparr>) srv"
  have "Inv pw E (insert slot X) U (insert slot A) D ?s"
    using Inv_in_use [OF inv slot(1) False slot(2)] by (intro upd_flag_Inv) simp_all
  from agree [OF insertI1 this n] show ?thesis by (simp add: schedule_one_def Let_def)
qed

lemma fair_loop_agree: "Inv pw E X U A D srv \<Longrightarrow> unmarked D \<le> n \<Longrightarrow> fair_loop h k m srv = fair_loop h' k m srv"
proof (induction k arbitrary: m srv)
  case (Suc k)
  show ?case
  proof (cases "waiters_pop (sv_wait srv)")
    case (Some x)
    obtain slot r where x: "x = (slot, r)" by fastforce
    note P = waiters_pop_Inv [OF Suc.prems(1) Some [unfolded x]]
    let ?s = "count (metrics_set_pool_waiters (r_count r)) (srv\<lparr>sv_wait := r\<rparr>)"
    have s: "Inv pw E (insert slot X) U A D ?s" using P by simp
    have "Inv pw E X U A D (snd (schedule_one h slot ?s))" by (rule schedule_one_Inv [OF s P(2,3)])
    from Suc.IH [OF this Suc.prems(2)] schedule_one_agree [OF s P(2,3) Suc.prems(2)] show ?thesis
      by (simp add: Some x case_prod_beta)
  qed simp
qed simp

lemma release_step_agree:
  assumes i: "i \<in> A" and inv: "Inv pw E X U A D srv" and n: "unmarked D \<le> n"
  shows "release_step pw h i srv = release_step pw h' i srv"
proof -
  let ?s = "upd i (\<lambda>c. c\<lparr>fc_be_wait := BE_IDLE, fc_got_execute := False, fc_got_sync := False\<rparr>) srv"
  have s: "Inv pw E X U A D ?s" using inv by (intro upd_flag_Inv) (auto simp: moves_def changes_def conn_wf_def)
  then have e: "schedule_waiters h ?s = schedule_waiters h' ?s" using fair_loop_agree n by (simp add: schedule_waiters_def)
  define s2 where "s2 = (if sv_fair ?s \<and> r_count (sv_wait ?s) > 0 then snd (schedule_waiters h ?s) else ?s)"
  have "Inv pw E X U A D s2" using s schedule_waiters_Inv by (simp add: s2_def)
  from agree [OF i this n] e show ?thesis
    unfolding release_step_def Let_def e [symmetric] s2_def [symmetric] by simp
qed

end

section \<open>The fuel is enough\<close>

lemma drains_agree:
  assumes "agreeing pw h h' n"
  shows "agreeing pw (drain_queue pw cr h) (drain_queue pw cr h') (Suc n)"
  using agreeing.axioms(1,2) [OF assms] agreeing.drain_queue_agree [OF assms]
  by (intro agreeing.intro agreeing_axioms.intro kept.drain_queue_kept) blast+

lemma releases_agree:
  assumes "agreeing pw h h' n"
  shows "agreeing pw (release_step pw h) (release_step pw h') n"
  using agreeing.axioms(1,2) [OF assms] agreeing.release_step_agree [OF assms]
  by (intro agreeing.intro agreeing_axioms.intro kept.release_step_kept) blast+

text \<open>When every connection is marked, a drain does nothing.\<close>

lemma drains_agree_0: "kept pw h \<Longrightarrow> kept pw h' \<Longrightarrow> agreeing pw (drain_queue pw cr h) (drain_queue pw cr h') 0"
proof (intro agreeing.intro agreeing_axioms.intro kept.drain_queue_kept)
  fix i A E X U D and srv :: "'a server"
  assume i: "i \<in> A" and inv: "Inv pw E X U A D srv" and "unmarked D \<le> 0"
  then have "fc_draining (cn srv i)" using all_marked [of D i] InvD(3,7,9) [OF inv] by auto
  then show "drain_queue pw cr h i srv = drain_queue pw cr h' i srv" by (simp add: drain_queue_def)
qed

lemma release_agrees: "agreeing pw (release pw cr (Suc (n + k))) (release pw cr (Suc (n + m))) n"
proof (induction n)
  case 0
  show ?case using releases_agree [OF drains_agree_0 [OF release_kept release_kept]] by simp
next
  case (Suc n)
  from releases_agree [OF drains_agree [OF Suc]] show ?case by simp
qed

interpretation fuel: agreeing pw "release pw cr (257 + k)" "after_backend_release pw cr" 256 for pw cr k
  unfolding after_backend_release_def using release_agrees [of pw cr 256 k 0] by simp

text \<open>C12. The nested handlers return: in every reachable state, what runs after a connection has been
  released on a connection in use is the same with any more fuel than 257, so the fuel bounds no
  behaviour; and more than that, a release never nests deeper than the number of connections
  that are not being drained.\<close>

theorem release_terminates:
  assumes "reachable pw cr cfg srv" and "i < 256" and "fc_state (cn srv i) \<noteq> CS_FREE"
  shows "release pw cr (257 + k) i srv = after_backend_release pw cr i srv"
proof -
  have "Inv pw {} {} {} {i} (replicate 256 False) srv"
    using Inv_in_use [OF reachable_Inv [OF assms(1)] assms(2,3)] by simp
  from fuel.agree [OF _ this] unmarked_le [of "replicate 256 False"] show ?thesis by simp
qed

end
