(* ===== verification/Server_Props.thy ===== *)
theory Server_Props
  imports Server_Fuel
begin

text \<open>
  What holds of the server in every reachable state.
\<close>

section \<open>Reachable states\<close>

text \<open>C4. No backend connection serves two frontends: in every reachable state, whatever the order of
  completions, failures and closings, a backend connection that a frontend owns is marked in use in
  the pool and no other frontend owns it; and only a frontend whose identity is known owns one.\<close>

theorem one_frontend_per_backend:
  assumes "reachable pw cr cfg srv" and "i < 256" and "fc_be (cn srv i) = Some b"
  shows "(\<forall>j < 256. fc_be (cn srv j) = Some b \<longrightarrow> j = i) \<and> fc_identity_ready (cn srv i) \<and> fc_state (cn srv i) \<noteq> CS_FREE \<and>
    (\<exists>p. sv_pool srv = Some p \<and> b \<in> busy_set p \<and> be_alive (po_conns p ! b))"
proof -
  note inv = reachable_Inv [OF assms(1)]
  obtain p where p: "sv_pool srv = Some p"
    using InvD(1,5) [OF inv] assms(2,3) by (cases "sv_pool srv") (auto simp: lease_wf_def cn_def)
  have "b \<in> busy_set p" using Inv_lease(2) [OF inv p assms(2,3)] by blast
  then have "be_alive (po_conns p ! b)" using pool_invD(4) [OF Inv_lease(1) [OF inv p]] by (simp add: busy_set_def)
  then show ?thesis
    using p \<open>b \<in> busy_set p\<close> Inv_lease(3) [OF inv p _ assms(2) _ assms(3)] InvD(4) [OF inv assms(2)] assms(3)
    by (auto simp: conn_wf_def)
qed



text \<open>C7. No service without a certificate: in every reachable state of a server that requires mutual TLS, a
  connection that is in service has an identity, as a certificate gives it: a proper group, a
  router id within its array and the configured slot.\<close>

theorem active_client_has_identity:
  assumes "reachable pw cr cfg srv" and "i < 256" and "require_mtls (sv_cfg srv)" and "fc_state (cn srv i) = CS_ACTIVE"
  shows "fc_identity_ready (cn srv i) \<and> group_name (fc_id (cn srv i)) \<noteq> '''' \<and> length (group_name (fc_id (cn srv i))) < 64 \<and>
    length (router_id (fc_id (cn srv i))) < 128 \<and> identity_slot (fc_id (cn srv i)) = cfg_identity_slot (sv_cfg srv)"
  using InvD(13,14) [OF reachable_Inv [OF assms(1)] assms(2)] assms(3,4) by (simp add: id_wf_def authed_def)

text \<open>C6. No way around the client certificates: in every reachable state of a server that is not in plain
  mode and requires mutual TLS, the context that every connection is made from accepts no version
  below TLS 1.2, verifies the client's certificate against the configured authorities and refuses a
  client without one; only a server in plain mode has no context.\<close>

theorem mutual_tls_enforced:
  assumes "reachable pw cr cfg srv"
  shows "(sv_tls srv = None \<longleftrightarrow> plain_mode (sv_cfg srv)) \<and>
    (\<not> plain_mode (sv_cfg srv) \<and> require_mtls (sv_cfg srv) \<longrightarrow>
      (\<exists>ctx. sv_tls srv = Some ctx \<and> tc_min ctx = TLS1_2 \<and> tc_verify_peer ctx \<and> tc_fail_if_no_peer_cert ctx \<and>
         tc_ca ctx = ca_file (sv_cfg srv) \<and> ca_file (sv_cfg srv) \<noteq> None))"
  using InvD(12) [OF reachable_Inv [OF assms]] by (auto simp: tls_wf_def)

text \<open>C14. The buffers of the event loop never overflow: in every reachable state there are 256
  connections, each in the slot it is known by, with at most 16384 bytes to send and at most that
  many of a response, the offset of what has been sent within them, at most 32 queued requests and
  the indices of the ring of requests in order; the ring of waiting frontends holds at most 256
  slots, no slot twice.\<close>

theorem event_loop_well_formed:
  assumes "reachable pw cr cfg srv"
  shows "length (sv_conns srv) = 256 \<and> wait_inv (sv_wait srv) \<and> set (waiting (sv_wait srv)) \<subseteq> {..<256} \<and>
    (\<forall>i < 256. let c = cn srv i in
       (fc_state c \<noteq> CS_FREE \<longrightarrow> fc_slot c = i) \<and> length (fc_send c) \<le> 16384 \<and> fc_send_off c \<le> length (fc_send c) \<and>
       length (fc_be_resp c) \<le> 16384 \<and> feq_inv (fc_q c) \<and> length (feq_items (fc_q c)) \<le> 32 \<and> \<not> fc_draining c)"
proof -
  note inv = reachable_Inv [OF assms]
  have "feq_inv q \<Longrightarrow> length (feq_items q) \<le> 32" for q by (simp add: feq_items_def feq_inv_def)
  then show ?thesis
    using InvD(1,4,9) [OF inv] Inv_ringD(1,2) [OF inv] by (auto simp: Let_def conn_wf_def)
qed

text \<open>C10. No frontend is forgotten: in every reachable state, a frontend that waits for a backend
  connection is in use and is in the ring from which the next free connection is given out.\<close>

theorem waiting_frontend_in_ring:
  assumes "reachable pw cr cfg srv" and "i < 256" and "fc_be_wait (cn srv i) = BE_WAITING_POOL"
  shows "i \<in> set (waiting (sv_wait srv)) \<and> fc_state (cn srv i) \<noteq> CS_FREE"
  using Inv_ringD(3) [OF reachable_Inv [OF assms(1)] assms(2) _ assms(3)] InvD(4) [OF reachable_Inv [OF assms(1)] assms(2)] assms(3)
  by (auto simp: conn_wf_def)


end
