(* ===== verification/Server_Answer.thy ===== *)
theory Server_Answer
  imports Server_Props
begin

text \<open>
  What a client receives from the event loop: output goes to the send buffer in order and nothing
  else of the server changes; the bytes that a client with a pipelined Execute and Sync gets for a
  Bind; and what becomes of a Bind whose statement is unknown.
\<close>

section \<open>Operations that only produce output\<close>

definition output_of :: "'w fconn \<Rightarrow> 'w fconn \<Rightarrow> bool" where
  "output_of c c' \<longleftrightarrow> (\<exists>w s off p pp wp. c' = c\<lparr>fc_frontend := w, fc_send := s, fc_send_off := off, fc_send_pending := p,
     fc_poll_pending := pp, fc_want_poll_out := wp\<rparr>)"

definition only_output :: "nat \<Rightarrow> 'w server \<Rightarrow> 'w server \<Rightarrow> bool" where
  "only_output i srv srv' \<longleftrightarrow> (\<exists>c' sq. srv' = srv\<lparr>sv_conns := (sv_conns srv)[i := c'], sv_sq := sq\<rparr> \<and> output_of (cn srv i) c')"

lemma output_of_sel:
  assumes "output_of c c'"
  shows "fc_state c' = fc_state c" "fc_be c' = fc_be c" "fc_be_wait c' = fc_be_wait c" "fc_q c' = fc_q c" "fc_be_resp c' = fc_be_resp c"
    "fc_got_sync c' = fc_got_sync c" "fc_draining c' = fc_draining c" "fc_cache c' = fc_cache c" "fc_id c' = fc_id c"
    "fc_identity_ready c' = fc_identity_ready c" "fc_slot c' = fc_slot c" "fc_ssl c' = fc_ssl c" "fc_be_start_ns c' = fc_be_start_ns c"
  using assms by (auto simp: output_of_def)

lemma output_of_refl [simp]: "output_of c c"
  by (cases c) (auto simp: output_of_def)

lemma output_of_trans: "output_of c c1 \<Longrightarrow> output_of c1 c2 \<Longrightarrow> output_of c c2"
  by (cases c) (auto simp: output_of_def)

lemma only_output_refl [simp]: "only_output i srv srv"
proof -
  have "srv = srv\<lparr>sv_conns := (sv_conns srv)[i := cn srv i], sv_sq := sv_sq srv\<rparr>" by (simp add: cn_def)
  then show ?thesis unfolding only_output_def using output_of_refl by blast
qed

lemma only_output_cn:
  assumes "only_output i srv srv'"
  shows "output_of (cn srv j) (cn srv' j)"
proof -
  obtain c' sq where c: "srv' = srv\<lparr>sv_conns := (sv_conns srv)[i := c'], sv_sq := sq\<rparr>" "output_of (cn srv i) c'"
    using assms by (auto simp: only_output_def)
  show ?thesis
  proof (cases "j = i \<and> i < length (sv_conns srv)")
    case True
    with c show ?thesis by (simp add: cn_def)
  next
    case False
    then have "(sv_conns srv)[i := c'] ! j = sv_conns srv ! j"
      by (cases "i < length (sv_conns srv)") (auto simp: list_update_beyond)
    with c show ?thesis by (simp add: cn_def)
  qed
qed

lemma only_output_sel:
  assumes "only_output i srv srv'"
  shows "sv_pool srv' = sv_pool srv" "sv_wait srv' = sv_wait srv" "sv_fair srv' = sv_fair srv" "sv_async srv' = sv_async srv"
    "sv_cfg srv' = sv_cfg srv" "sv_world srv' = sv_world srv" "length (sv_conns srv') = length (sv_conns srv)"
  using assms by (auto simp: only_output_def)

lemma only_output_trans: "only_output i srv s1 \<Longrightarrow> only_output i s1 s2 \<Longrightarrow> only_output i srv s2"
proof -
  assume a: "only_output i srv s1" and b: "only_output i s1 s2"
  obtain c1 q1 where 1: "s1 = srv\<lparr>sv_conns := (sv_conns srv)[i := c1], sv_sq := q1\<rparr>" using a by (auto simp: only_output_def)
  obtain c2 q2 where 2: "s2 = s1\<lparr>sv_conns := (sv_conns s1)[i := c2], sv_sq := q2\<rparr>" "output_of (cn s1 i) c2"
    using b by (auto simp: only_output_def)
  have "s2 = srv\<lparr>sv_conns := (sv_conns srv)[i := c2], sv_sq := q2\<rparr>" using 1 2 by simp
  moreover have "output_of (cn srv i) c2" using only_output_cn [OF a, of i] 2(2) output_of_trans by blast
  ultimately show ?thesis by (auto simp: only_output_def)
qed

lemma only_output_upd:
  assumes "only_output i srv s" and "output_of (cn s i) (f (cn s i))"
  shows "only_output i srv (upd i f s)"
proof (rule only_output_trans [OF assms(1)])
  show "only_output i s (upd i f s)"
    unfolding only_output_def using assms(2)
    by (intro exI [of _ "f (cn s i)"] exI [of _ "sv_sq s"]) (simp add: upd_def cn_def)
qed

lemma only_output_add_sqe: "only_output i srv s \<Longrightarrow> add_sqe opc slot fd flags data s = Some s' \<Longrightarrow> only_output i srv s'"
proof (rule only_output_trans)
  assume "add_sqe opc slot fd flags data s = Some s'"
  then obtain q where "s' = s\<lparr>sv_conns := (sv_conns s)[i := cn s i], sv_sq := q\<rparr>" by (auto simp: add_sqe_def cn_def split: if_splits)
  then show "only_output i s s'" unfolding only_output_def using output_of_refl by blast
qed

lemma output_of_simps [simp]:
  "output_of c (c\<lparr>fc_frontend := w\<rparr>)" "output_of c (c\<lparr>fc_send_pending := p\<rparr>)" "output_of c (c\<lparr>fc_poll_pending := pp\<rparr>)"
  "output_of c (c\<lparr>fc_send := s, fc_send_off := off\<rparr>)" "output_of c (c\<lparr>fc_send := s, fc_send_off := off, fc_want_poll_out := wp\<rparr>)"
  by (cases c; auto simp: output_of_def)+

lemma submit_only_output:
  assumes "only_output i srv s"
  shows "only_output i srv (snd (submit_send i s))" "only_output i srv (snd (submit_poll i s))"
  using assms by (auto simp: submit_send_def submit_poll_def Let_def intro!: only_output_upd dest: only_output_add_sqe split: option.splits)

lemma queue_plain_only_output: "only_output i srv s \<Longrightarrow> only_output i srv (snd (queue_plain_send i data s))"
  using append_send_wf
  by (fastforce simp: queue_plain_send_def intro!: submit_only_output only_output_upd split: option.splits)

lemma fe_call_only_output: "only_output i srv s \<Longrightarrow> only_output i srv (snd (fe_call f i s))"
  by (auto simp: fe_call_def case_prod_beta intro!: only_output_upd split: option.splits)

lemma drain_out_loop_only_output: "only_output i srv s \<Longrightarrow> only_output i srv (snd (drain_out_loop pw k i s))"
proof (induction k arbitrary: s)
  case (Suc k)
  have "only_output i srv (upd i (\<lambda>c. c\<lparr>fc_frontend := w\<rparr>) s)" for w using Suc.prems by (intro only_output_upd) simp_all
  with Suc show ?case
    by (auto simp: Let_def case_prod_beta intro!: Suc.IH queue_plain_only_output split: option.splits)
qed simp

lemma drain_frontend_only_output: "only_output i srv s \<Longrightarrow> only_output i srv (snd (drain_frontend_out pw i s))"
  by (auto simp: drain_frontend_out_def intro!: drain_out_loop_only_output split: option.splits)

section \<open>A Bind of an unknown statement\<close>

lemma drain_unknown:
  assumes inv: "Inv pw E X {} {i} (replicate 256 False) srv" and idle: "fc_be_wait (cn srv i) = BE_IDLE"
    and pop: "feq_pop (fc_q (cn srv i)) = Some (it, q)" and kind: "it_kind it = FEQ_BIND"
    and unknown: "stmt_cache_get (fc_cache (cn srv i)) (b_statement (bind_of_item pw it)) = None"
    and pool: "sv_pool srv \<noteq> None" "sv_async srv" "sv_fair srv" "fc_identity_ready (cn srv i)"
    and room: "i \<notin> set (waiting (sv_wait srv))"
  shows "\<exists>rc srv'. drain_fe_queue pw cr i srv = (rc, srv') \<and> fc_be_wait (cn srv' i) = BE_WAITING_POOL \<and>
    i \<in> set (waiting (sv_wait srv')) \<and> feq_items (fc_q (cn srv' i)) = feq_items (fc_q (cn srv i)) \<and>
    fc_cache (cn srv' i) = fc_cache (cn srv i) \<and> sv_pool srv' = sv_pool srv"
proof -
  have i: "i < 256" and len: "length (sv_conns srv) = 256" using InvD(1,7) [OF inv] by simp_all
  have free: "\<not> fc_draining (cn srv i)" using InvD(9) [OF inv i] i by simp
  have qinv: "feq_inv (fc_q (cn srv i))" using InvD(4) [OF inv i] by (simp add: conn_wf_def)
  note Q = feq_pop_items [OF qinv pop]
  have "length (feq_items (fc_q (cn srv i))) = q_count (fc_q (cn srv i))" "length (feq_items q) = q_count q"
    by (simp_all add: feq_items_def)
  moreover have "q_count (fc_q (cn srv i)) \<le> 32" using qinv by (simp add: feq_inv_def)
  ultimately obtain k where k: "q_count (fc_q (cn srv i)) = Suc k" "q_count q < 32" using Q by (cases "q_count (fc_q (cn srv i))") auto
  define s1 where "s1 = upd i (\<lambda>c. c\<lparr>fc_q := q\<rparr>) (upd i (\<lambda>c. c\<lparr>fc_draining := True\<rparr>) srv)"
  define s2 where "s2 = upd i (\<lambda>c. c\<lparr>fc_q := feq_push_front (fc_q c) it\<rparr>) s1"
  have cn1: "cn s1 i = (cn srv i)\<lparr>fc_draining := True, fc_q := q\<rparr>" using len i by (simp add: s1_def)
  have sel1: "sv_pool s1 = sv_pool srv" "sv_async s1 = sv_async srv" "sv_fair s1 = sv_fair srv" "sv_wait s1 = sv_wait srv"
    "length (sv_conns s1) = 256" using len by (simp_all add: s1_def)
  have start: "start_async_bind_from_queue pw cr h it i s1 = (ERR, s1)" for h
    using unknown by (simp add: start_async_bind_from_queue_def cn1)
  obtain rc3 s3 where park: "park_for_backend i s2 = (rc3, s3)" by fastforce
  have cn2: "cn s2 i = (cn srv i)\<lparr>fc_draining := True, fc_q := feq_push_front q it\<rparr>"
    using len i by (simp add: s2_def sel1 cn1)
  have slot: "fc_slot (cn srv i) = i" using Inv_slot [OF inv] by simp
  have ring: "wait_inv (sv_wait srv)" "length (waiting (sv_wait srv)) < 256"
  proof -
    show "wait_inv (sv_wait srv)" by (rule Inv_ringD(1) [OF inv])
    then have "distinct (waiting (sv_wait srv))" by (rule wait_inv_distinct)
    moreover have "set (waiting (sv_wait srv)) \<subseteq> {..<256} - {i}" using Inv_ringD(2) [OF inv] room by auto
    ultimately have "length (waiting (sv_wait srv)) \<le> card ({..<256 :: nat} - {i})"
      by (metis card_mono distinct_card finite_Diff finite_lessThan)
    also have "\<dots> < 256" using i by simp
    finally show "length (waiting (sv_wait srv)) < 256" .
  qed
  let ?w = "w_metrics (sv_world s2)"
  obtain r m where push: "waiters_push True (sv_wait srv) i ?w = (OK, r, m)" "i \<in> set (waiting r)"
    using waiters_push_items [OF ring(1), of i ?w] ring(2) room
    by (auto simp: waiters_push_def list_push_def Let_def)
  have s3: "s3 = count (\<lambda>_. m) ((upd i (\<lambda>c. c\<lparr>fc_be_wait := BE_WAITING_POOL\<rparr>) s2)\<lparr>sv_wait := r\<rparr>)"
    using park push slot pool(3) len i
    by (simp add: park_for_backend_def sv_waiters_push_def s2_def sel1 cn1)
  have cn3: "cn s3 i = (cn s2 i)\<lparr>fc_be_wait := BE_WAITING_POOL\<rparr>" "sv_wait s3 = r" "sv_pool s3 = sv_pool srv" "length (sv_conns s3) = 256"
    using len i by (simp_all add: s3 s2_def sel1)
  define s4 where "s4 = upd i (\<lambda>c. c\<lparr>fc_draining := False\<rparr>) s3"
  have cn4: "cn s4 i = (cn s3 i)\<lparr>fc_draining := False\<rparr>" using cn3(4) i by (simp add: s4_def)
  have bind: "drain_bind pw cr h it i s1 = Inl (drain_frontend_out pw i s4)" for h
    using pool k(2) cn1 park start by (simp add: drain_bind_def Let_def sel1 s2_def [symmetric] s4_def [symmetric])
  have run: "drain_fe_queue pw cr i srv = drain_frontend_out pw i s4"
    using free k(1) idle pop kind bind len i
    by (simp add: drain_fe_queue_def drain_queue_def drain_item_def s1_def [symmetric])
  obtain rc srv' where d: "drain_frontend_out pw i s4 = (rc, srv')" by fastforce
  have "only_output i s4 srv'" using drain_frontend_only_output [of i s4 s4 pw] d by simp
  note o = only_output_sel [OF this] output_of_sel [OF only_output_cn [OF this, of i]]
  have "feq_items (feq_push_front q it) = feq_items (fc_q (cn srv i))"
    using feq_push_front_items [of q it] Q k(2) by simp
  then show ?thesis using run d o push(2) cn2 cn3 cn4 by (simp add: s4_def)
qed


section \<open>Output in order\<close>

text \<open>A plain connection with room for \<open>n\<close> more bytes, whose next send can be submitted.\<close>

definition roomy :: "nat \<Rightarrow> nat \<Rightarrow> 'w server \<Rightarrow> bool" where
  "roomy i n srv \<longleftrightarrow> i < length (sv_conns srv) \<and> \<not> fc_ssl (cn srv i) \<and> length (fc_send (cn srv i)) + n \<le> 16384 \<and>
     (fc_send_pending (cn srv i) \<or> length (sv_sq srv) < 512)"

lemma queue_plain_appends:
  assumes "roomy i (length data + n) srv"
  shows "fst (queue_plain_send i data srv) = 0 \<and> roomy i n (snd (queue_plain_send i data srv)) \<and>
    fc_send (cn (snd (queue_plain_send i data srv)) i) = fc_send (cn srv i) @ data \<and>
    fc_frontend (cn (snd (queue_plain_send i data srv)) i) = fc_frontend (cn srv i)"
proof (cases "data = []")
  case True
  then show ?thesis using assms by (simp add: queue_plain_send_def)
next
  case False
  let ?c = "cn srv i"
  let ?c1 = "?c\<lparr>fc_send := fc_send ?c @ data\<rparr>"
  have a: "append_send data ?c = Some ?c1" using assms by (simp add: append_send_def roomy_def Let_def)
  have q: "queue_plain_send i data srv = submit_send i (upd i (\<lambda>_. ?c1) srv)"
    using False a assms by (simp add: queue_plain_send_def roomy_def)
  let ?s = "upd i (\<lambda>_. ?c1) srv"
  have c: "cn ?s i = ?c1" "i < length (sv_conns srv)" "\<not> fc_ssl ?c" using assms by (simp_all add: roomy_def)
  show ?thesis
  proof (cases "fc_send_pending ?c \<or> fc_send_off ?c1 \<ge> length (fc_send ?c1)")
    case True
    then have "submit_send i ?s = (OK, ?s)" using c by (auto simp: submit_send_def Let_def)
    then show ?thesis using q assms c by (simp add: roomy_def)
  next
    case F: False
    then have "length (sv_sq ?s) < 512" using assms by (simp add: roomy_def)
    then obtain s1 where s1: "add_sqe OP_SEND (fc_slot ?c1) (fc_fd ?c1) (send_flags ?c1) (drop (fc_send_off ?c1) (fc_send ?c1)) ?s = Some s1"
      by (simp add: add_sqe_def)
    have e: "submit_send i ?s = (OK, upd i (\<lambda>c. c\<lparr>fc_send_pending := True\<rparr>) s1)" using F c s1 by (simp add: submit_send_def Let_def)
    have "length (sv_conns s1) = length (sv_conns srv)" "cn s1 i = ?c1" using add_sqe_sel [OF s1] c by simp_all
    then show ?thesis using q e assms c by (simp add: roomy_def)
  qed
qed

lemma roomy_upd:
  assumes "roomy i n srv" and "\<And>c. fc_send (f c) = fc_send c" "\<And>c. fc_ssl (f c) = fc_ssl c" "\<And>c. fc_send_pending (f c) = fc_send_pending c"
  shows "roomy i n (upd i f srv)"
  using assms by (simp add: roomy_def)

text \<open>Draining the context of the frontend puts its pending bytes, all of them and in order, behind what
  the send buffer holds.\<close>

lemma drain_appends:
  assumes out: "output_stream pw pending" and fe: "fc_frontend (cn srv i) = Some w"
    and room: "roomy i (length (pending w) + n) srv"
  shows "\<exists>w'. fst (drain_frontend_out pw i srv) = 0 \<and> roomy i n (snd (drain_frontend_out pw i srv)) \<and>
    fc_send (cn (snd (drain_frontend_out pw i srv)) i) = fc_send (cn srv i) @ pending w \<and>
    fc_frontend (cn (snd (drain_frontend_out pw i srv)) i) = Some w' \<and> pending w' = []"
proof -
  have n: "w_n_output pw w = length (pending w)" using out by (simp add: output_stream_def)
  obtain b w' where g: "w_get_output pw w 16384 = (b, w')" by fastforce
  have len: "i < length (sv_conns srv)" and fit: "length (pending w) \<le> 16384" using room by (simp_all add: roomy_def)
  have b: "b = pending w" "pending w' = []" using output_streamD [OF out g] fit by simp_all
  show ?thesis
  proof (cases "pending w = []")
    case True
    then show ?thesis using fe n room by (simp add: drain_frontend_out_def)
  next
    case False
    then obtain k where k: "length (pending w) = Suc k" by (cases "pending w") auto
    let ?s = "upd i (\<lambda>c. c\<lparr>fc_frontend := Some w'\<rparr>) srv"
    have "roomy i (length (pending w) + n) ?s" using room len by (simp add: roomy_def)
    note A = queue_plain_appends [OF this]
    let ?r = "queue_plain_send i (pending w) ?s"
    have d: "drain_frontend_out pw i srv = drain_out_loop pw k i (snd ?r)"
      using fe n k g b A False by (simp add: drain_frontend_out_def case_prod_beta)
    have fr: "fc_frontend (cn (snd ?r) i) = Some w'" using A len by simp
    obtain b2 w2 where "w_get_output pw w' 16384 = (b2, w2)" by fastforce
    then have g': "w_get_output pw w' 16384 = ([], w2)" "pending w2 = []"
      using output_streamD [OF out] b(2) by fastforce+
    show ?thesis
    proof (cases k)
      case 0
      then show ?thesis using d A fr b(2) len by simp
    next
      case (Suc m)
      have "drain_out_loop pw k i (snd ?r) = (OK, upd i (\<lambda>c. c\<lparr>fc_frontend := Some w2\<rparr>) (snd ?r))"
        unfolding Suc using fr g' by simp
      moreover have "i < length (sv_conns (snd ?r))" using A by (simp add: roomy_def)
      moreover have "roomy i n (upd i (\<lambda>c. c\<lparr>fc_frontend := Some w2\<rparr>) (snd ?r))" using A by (intro roomy_upd) simp_all
      moreover have "fc_send (cn (snd ?r) i) = fc_send (cn srv i) @ pending w" using A len by simp
      ultimately show ?thesis using d g' by simp
    qed
  qed
qed

section \<open>The answer to a pipelined Bind\<close>

text \<open>A call of libpqwire that always succeeds and appends the bytes \<open>s\<close> to the output of its context.\<close>

definition emits :: "('w \<Rightarrow> bytes) \<Rightarrow> ('w \<Rightarrow> int \<times> 'w) \<Rightarrow> bytes \<Rightarrow> bool" where
  "emits pending f s \<longleftrightarrow> (\<forall>w. fst (f w) = 0 \<and> pending (snd (f w)) = pending w @ s)"

lemma fe_call_emits:
  assumes "emits pending f s" and "fc_frontend (cn srv i) = Some w" and "i < length (sv_conns srv)"
  shows "\<exists>w'. fe_call f i srv = (0, upd i (\<lambda>c. c\<lparr>fc_frontend := Some w'\<rparr>) srv) \<and> pending w' = pending w @ s"
  using assms by (auto simp: emits_def fe_call_def case_prod_beta)

lemma note_wait_sel:
  assumes "i < length (sv_conns srv)"
  shows "\<exists>t. cn (note_wait i srv) i = (cn srv i)\<lparr>fc_be_start_ns := t\<rparr>" "sv_pool (note_wait i srv) = sv_pool srv"
    "sv_wait (note_wait i srv) = sv_wait srv" "length (sv_conns (note_wait i srv)) = length (sv_conns srv)"
    "sv_sq (note_wait i srv) = sv_sq srv"
proof -
  show "\<exists>t. cn (note_wait i srv) i = (cn srv i)\<lparr>fc_be_start_ns := t\<rparr>"
  proof (cases "fc_be_start_ns (cn srv i) = 0")
    case True
    then have "cn (note_wait i srv) i = (cn srv i)\<lparr>fc_be_start_ns := fc_be_start_ns (cn srv i)\<rparr>"
      by (simp add: note_wait_def Let_def)
    then show ?thesis by blast
  next
    case False
    then show ?thesis using assms by (auto simp: note_wait_def Let_def)
  qed
qed (simp_all add: note_wait_def Let_def count_def)

text \<open>The queue of a client that sent Execute and Sync behind its Bind.\<close>

lemma drain_execute_sync:
  assumes out: "output_stream pw pending"
    and em: "emits pending (\<lambda>w. w_send_command_complete pw w ''SELECT 0'') cc" "emits pending (w_send_ready_for_query pw) rfq"
    and fe: "fc_frontend (cn srv i) = Some w" "pending w = []" and room: "roomy i (length cc + length rfq) srv"
    and c: "fc_be_wait (cn srv i) = BE_IDLE" "\<not> fc_draining (cn srv i)" "fc_be_resp (cn srv i) = []"
    and q: "feq_inv (fc_q (cn srv i))" "feq_items (fc_q (cn srv i)) = [x, y]" "it_kind x = FEQ_EXECUTE" "it_kind y = FEQ_SYNC"
  shows "\<exists>srv'. drain_queue pw cr h i srv = (0, srv') \<and> fc_send (cn srv' i) = fc_send (cn srv i) @ cc @ rfq \<and>
    feq_items (fc_q (cn srv' i)) = [] \<and> fc_be_wait (cn srv' i) = BE_IDLE \<and> fc_be (cn srv' i) = fc_be (cn srv i) \<and>
    \<not> fc_draining (cn srv' i)"
proof -
  have len: "i < length (sv_conns srv)" using room by (simp add: roomy_def)
  have cnt: "q_count (fc_q (cn srv i)) = 2" using q(2) by (metis feq_items_def length_Cons length_ring_view list.size(3) numeral_2_eq_2)
  obtain x' q1 where p1: "feq_pop (fc_q (cn srv i)) = Some (x', q1)" using cnt by (simp add: feq_pop_def)
  note Q1 = feq_pop_items [OF q(1) p1]
  have x': "x' = x" "feq_items q1 = [y]" using Q1 q(2) by auto
  have cnt1: "q_count q1 = 1" using x'(2) by (metis One_nat_def feq_items_def length_Cons length_ring_view list.size(3))
  obtain y' q2 where p2: "feq_pop q1 = Some (y', q2)" using cnt1 by (simp add: feq_pop_def)
  have y': "y' = y" "feq_items q2 = []" using feq_pop_items [OF _ p2] Q1 x'(2) by auto
  define s1 where "s1 = upd i (\<lambda>c. c\<lparr>fc_q := q1\<rparr>) (upd i (\<lambda>c. c\<lparr>fc_draining := True\<rparr>) srv)"
  have s1: "fc_frontend (cn s1 i) = Some w" "i < length (sv_conns s1)" "cn s1 i = (cn srv i)\<lparr>fc_draining := True, fc_q := q1\<rparr>"
    using fe(1) len by (simp_all add: s1_def)
  obtain w1 where e1: "fe_call (\<lambda>w. w_send_command_complete pw w ''SELECT 0'') i s1 = (0, upd i (\<lambda>c. c\<lparr>fc_frontend := Some w1\<rparr>) s1)"
    "pending w1 = cc" using fe_call_emits [OF em(1) s1(1,2)] fe(2) by auto
  define s2 where "s2 = upd i (\<lambda>c. c\<lparr>fc_q := q2\<rparr>) (upd i (\<lambda>c. c\<lparr>fc_frontend := Some w1\<rparr>) s1)"
  have s2: "fc_frontend (cn s2 i) = Some w1" "i < length (sv_conns s2)" "cn s2 i = (cn srv i)\<lparr>fc_draining := True, fc_frontend := Some w1, fc_q := q2\<rparr>"
    using s1 len by (simp_all add: s2_def s1_def)
  obtain w2 where e2: "fe_call (w_send_ready_for_query pw) i s2 = (0, upd i (\<lambda>c. c\<lparr>fc_frontend := Some w2\<rparr>) s2)"
    "pending w2 = cc @ rfq" using fe_call_emits [OF em(2) s2(1,2)] e1(2) by auto
  define s3 where "s3 = upd i (\<lambda>c. c\<lparr>fc_draining := False\<rparr>) (upd i (\<lambda>c. c\<lparr>fc_frontend := Some w2\<rparr>) s2)"
  have s3: "fc_frontend (cn s3 i) = Some w2" "cn s3 i = (cn srv i)\<lparr>fc_draining := False, fc_frontend := Some w2, fc_q := q2\<rparr>"
    using s2 len by (simp_all add: s3_def)
  have room3: "roomy i (length (pending w2) + 0) s3"
    using room unfolding e2 s3_def s2_def s1_def by (intro roomy_upd) simp_all
  note D = drain_appends [OF out s3(1) room3]
  have run: "drain_queue pw cr h i srv = drain_frontend_out pw i s3"
    using c len p1 p2 e1(1) e2(1) cnt q(3,4) x'(1) y'(1) s1(3) s2(3)
    by (simp add: drain_queue_def numeral_2_eq_2 drain_item_def s1_def [symmetric] s2_def [symmetric] s3_def [symmetric])
  let ?d = "drain_frontend_out pw i s3"
  have "only_output i s3 (snd ?d)" using drain_frontend_only_output [of i s3 s3 pw] by simp
  note o = output_of_sel [OF only_output_cn [OF this, of i]]
  have "?d = (0, snd ?d)" using D by (auto simp: prod_eq_iff)
  then show ?thesis
    unfolding run using D o s3(2) e2(2) y'(2) c(1) by (intro exI [of _ "snd ?d"]) auto
qed

text \<open>When a pipeline has ended without an error, the answer and BindComplete are in the send buffer before
  the connection is given up.\<close>

lemma complete_delivers:
  assumes out: "output_stream pw pending" and em: "emits pending (w_send_bind_complete pw) bc"
    and fe: "fc_frontend (cn srv i) = Some w"
    and be: "sv_be srv i = Some (b, p, bconn)" "\<not> ps_saw_error (be_pipe bconn)"
    and c: "fc_got_sync (cn srv i)" "fc_be_resp (cn srv i) = resp" "resp \<noteq> []"
    and room: "roomy i (length resp + (length (pending w @ bc) + n)) srv"
  shows "\<exists>s w'. backend_async_complete pw cr rel i srv = rel i (finish_be pw cr False i s) \<and> sv_be s i = Some (b, p, bconn) \<and>
    fc_send (cn s i) = fc_send (cn srv i) @ resp @ pending w @ bc \<and> fc_frontend (cn s i) = Some w' \<and> pending w' = [] \<and>
    roomy i n s \<and> fc_q (cn s i) = fc_q (cn srv i) \<and> fc_be_resp (cn s i) = [] \<and> fc_draining (cn s i) = fc_draining (cn srv i) \<and>
    sv_wait s = sv_wait srv"
proof -
  have len: "i < length (sv_conns srv)" using room by (simp add: roomy_def)
  have own: "fc_be (cn srv i) = Some b" "sv_pool srv = Some p" "bconn = po_conns p ! b" using be(1) by (auto simp: sv_be_def split: option.splits)
  define s1 where "s1 = note_wait i srv"
  note s1 = note_wait_sel [OF len, folded s1_def]
  have be1: "sv_be s1 i = Some (b, p, bconn)" using s1(1,2) own by (auto simp: sv_be_def)
  define s2 where "s2 = count metrics_inc_be_ok s1"
  have s2: "fc_frontend (cn s2 i) = Some w" "i < length (sv_conns s2)" using s1(1,4) fe len by (auto simp: s2_def)
  obtain w1 where e1: "fe_call (w_send_bind_complete pw) i s2 = (0, upd i (\<lambda>c. c\<lparr>fc_frontend := Some w1\<rparr>) s2)"
    "pending w1 = pending w @ bc" using fe_call_emits [OF em s2] by blast
  define s3 where "s3 = upd i (\<lambda>c. c\<lparr>fc_frontend := Some w1\<rparr>) s2"
  obtain t where c3: "cn s3 i = (cn srv i)\<lparr>fc_be_start_ns := t, fc_frontend := Some w1\<rparr>"
    using s1(1,4) len by (auto simp: s3_def s2_def)
  have len3: "length (sv_conns s3) = length (sv_conns srv)" "sv_sq s3 = sv_sq srv" "sv_wait s3 = sv_wait srv" "sv_pool s3 = Some p"
    using s1 own by (simp_all add: s3_def s2_def count_def)
  have "roomy i (length resp + (length (pending w1) + n)) s3" using room c3 len3 e1(2) by (simp add: roomy_def)
  note Q = queue_plain_appends [OF this]
  let ?q = "queue_plain_send i resp s3"
  have oq: "only_output i s3 (snd ?q)" by (rule queue_plain_only_output) simp
  define s4 where "s4 = upd i (\<lambda>c. c\<lparr>fc_be_resp := []\<rparr>) (snd ?q)"
  have del: "deliver_response pw False i s3 = (0, s4)"
    using c c3 Q by (auto simp: deliver_response_def Let_def case_prod_beta s4_def)
  note oqs = only_output_sel [OF oq] output_of_sel [OF only_output_cn [OF oq, of i]]
  have len4: "i < length (sv_conns (snd ?q))" using oqs(7) len3 len by simp
  have fr4: "fc_frontend (cn s4 i) = Some w1" using Q c3 len4 by (simp add: s4_def)
  have room4: "roomy i (length (pending w1) + n) s4" unfolding s4_def using Q by (intro roomy_upd) simp_all
  obtain s5 w5 where D: "drain_frontend_out pw i s4 = (0, s5)" "roomy i n s5" "fc_send (cn s5 i) = fc_send (cn s4 i) @ pending w1"
    "fc_frontend (cn s5 i) = Some w5" "pending w5 = []"
    using drain_appends [OF out fr4 room4] by (metis prod.collapse)
  have od: "only_output i s4 s5" using drain_frontend_only_output [of i s4 s4 pw] D(1) by simp
  note ods = only_output_sel [OF od] output_of_sel [OF only_output_cn [OF od, of i]]
  have c4: "fc_be (cn s4 i) = Some b" "fc_be_resp (cn s4 i) = []" "fc_q (cn s4 i) = fc_q (cn srv i)"
    "fc_draining (cn s4 i) = fc_draining (cn srv i)"
    "fc_send (cn s4 i) = fc_send (cn srv i) @ resp" "sv_pool s4 = Some p" "sv_wait s4 = sv_wait srv"
    using oqs c3 len4 Q own len3 by (simp_all add: s4_def)
  have "sv_be s5 i = Some (b, p, bconn)" using ods c4 own(3) by (simp add: sv_be_def)
  moreover have "backend_async_complete pw cr rel i srv = rel i (finish_be pw cr False i s5)"
    unfolding backend_async_complete_def Let_def s1_def [symmetric]
    using be1 be(2) e1 del D(1) by (simp add: s2_def [symmetric] s3_def [symmetric] case_prod_beta)
  ultimately show ?thesis using D c4 ods e1(2) by (intro exI [of _ s5] exI [of _ w5]) simp
qed

text \<open>With no other frontend waiting, giving a connection up drains the queue of its frontend.\<close>

lemma release_drains:
  assumes be: "sv_be s i = Some (b, p, bconn)" and ring: "r_count (sv_wait s) = 0" and q: "q_count (fc_q (cn s i)) > 0"
    and i: "i < length (sv_conns s)"
  shows "\<exists>s' p' w'. after_backend_release pw cr i (finish_be pw cr False i s) = drain_queue pw cr (release pw cr 256) i s' \<and>
    cn s' i = (cn s i)\<lparr>fc_be := None, fc_be_wait := BE_IDLE, fc_got_execute := False, fc_got_sync := False\<rparr> \<and>
    length (sv_conns s') = length (sv_conns s) \<and> sv_sq s' = sv_sq s"
proof -
  obtain p' w' where f: "async_finish pw cr b False p (sv_world s) = (p', w')" by fastforce
  define s6 where "s6 = upd i (\<lambda>c. c\<lparr>fc_be_wait := BE_IDLE, fc_got_execute := False, fc_got_sync := False\<rparr>)
    (finish_be pw cr False i s)"
  have c6: "cn s6 i = (cn s i)\<lparr>fc_be := None, fc_be_wait := BE_IDLE, fc_got_execute := False, fc_got_sync := False\<rparr>"
    "length (sv_conns s6) = length (sv_conns s)" "sv_sq s6 = sv_sq s" "sv_wait s6 = sv_wait s"
    using be f i by (simp_all add: s6_def finish_be_def) (simp_all add: set_pool_def cn_def)
  have r257: "release pw cr 257 = release_step pw (drain_queue pw cr (release pw cr 256))"
    by (simp add: numeral_eq_Suc del: release.simps(1))
  have "after_backend_release pw cr i (finish_be pw cr False i s) = drain_queue pw cr (release pw cr 256) i s6"
    using ring q c6 by (simp add: after_backend_release_def r257 release_step_def Let_def s6_def [symmetric])
  with c6 show ?thesis by blast
qed


end
