(* ===== verification/Server_Grant.thy ===== *)
theory Server_Grant
  imports Server_Answer
begin

text \<open>
  A waiting frontend is served: the turn of the first frontend of the ring starts its pipeline as soon
  as the pool gives a connection for it.
\<close>

lemma send_ptr_begun: "be_send c \<noteq> [] \<Longrightarrow> be_send_off c = 0 \<Longrightarrow> async_send_ptr c = Some (be_send c)"
  by (simp add: async_send_ptr_def)

text \<open>Submitting the first bytes of a pipeline.\<close>

lemma submit_be_send_first:
  assumes be: "sv_be srv i = Some (b, p, bc)" "be_send bc \<noteq> []" "be_send_off bc = 0"
    and room: "length (sv_sq srv) < 512" and idle: "\<not> fc_be_send_pending (cn srv i)" and i: "i < length (sv_conns srv)"
  shows "\<exists>srv'. submit_be_send i srv = (0, srv') \<and>
    cn srv' i = (cn srv i)\<lparr>fc_be_send_pending := True, fc_be_wait := BE_SENDING\<rparr> \<and> sv_wait srv' = sv_wait srv \<and>
    length (sv_conns srv') = length (sv_conns srv) \<and> length (sv_sq srv') = Suc (length (sv_sq srv))"
proof -
  obtain s where s: "add_sqe OP_BE_SEND (fc_slot (cn srv i)) (be_fd bc) 0 (be_send bc) srv = Some s" "length (sv_sq s) = Suc (length (sv_sq srv))"
    using room by (simp add: add_sqe_def)
  have "length (sv_conns s) = length (sv_conns srv)" using add_sqe_sel [OF s(1)] by simp
  then show ?thesis
    using be idle s add_sqe_sel [OF s(1), of i] i by (simp add: submit_be_send_def send_ptr_begun)
qed

text \<open>Starting a queued Bind on the connection that the pool gives.\<close>

lemma queue_bind_starts:
  assumes i: "i < length (sv_conns s)" and srv: "sv_pool s = Some p" and inv: "pool_inv p" and out: "output_stream pw pending"
    and known: "stmt_cache_get (fc_cache (cn s i)) (b_statement (bind_of_item pw it)) \<noteq> None"
    and free: "async_begin pw cr (fc_cache (cn s i)) (bind_of_item pw it) (fc_id (cn s i)) p (sv_world s) = (Some k, p', w')"
    and room: "length (sv_sq s) < 512" "\<not> fc_be_send_pending (cn s i)"
  shows "\<exists>s' t. start_async_bind_from_queue pw cr h it i s = (0, s') \<and>
    cn s' i = (cn s i)\<lparr>fc_be := Some k, fc_be_resp := [], fc_got_execute := False, fc_got_sync := False, fc_be_start_ns := t,
      fc_be_send_pending := True, fc_be_wait := BE_SENDING\<rparr> \<and>
    sv_wait s' = sv_wait s \<and> length (sv_conns s') = length (sv_conns s) \<and> length (sv_sq s') = Suc (length (sv_sq s))"
proof -
  define s2 where "s2 = upd i (\<lambda>c. c\<lparr>fc_be := Some k, fc_be_resp := [], fc_got_execute := False, fc_got_sync := False,
    fc_be_start_ns := sv_now_ns s\<rparr>) (set_pool p' w' s)"
  have len1: "length (sv_conns (set_pool p' w' s)) = length (sv_conns s)" "cn (set_pool p' w' s) i = cn s i"
    by (simp_all add: set_pool_def cn_def)
  have c2: "cn s2 i = (cn s i)\<lparr>fc_be := Some k, fc_be_resp := [], fc_got_execute := False, fc_got_sync := False,
    fc_be_start_ns := sv_now_ns s\<rparr>" using len1 i by (simp add: s2_def)
  have sel2: "sv_pool s2 = Some p'" "sv_wait s2 = sv_wait s" "length (sv_conns s2) = length (sv_conns s)" "sv_sq s2 = sv_sq s"
    using len1 by (simp_all add: s2_def set_pool_def)
  have begun: "be_send (po_conns p' ! k) \<noteq> []" "be_send_off (po_conns p' ! k) = 0"
    using async_begin_clean [OF out inv free] by (auto simp: Let_def)
  have "sv_be s2 i = Some (k, p', po_conns p' ! k)" by (simp add: sv_be_def c2 sel2)
  from submit_be_send_first [OF this begun] obtain s3 where s3: "submit_be_send i s2 = (0, s3)"
    "cn s3 i = (cn s2 i)\<lparr>fc_be_send_pending := True, fc_be_wait := BE_SENDING\<rparr>" "sv_wait s3 = sv_wait s"
    "length (sv_conns s3) = length (sv_conns s)" "length (sv_sq s3) = Suc (length (sv_sq s))"
    using room sel2 i c2 by auto
  have bb: "begin_be pw cr (bind_of_item pw it) i s = (Some k, set_pool p' w' s)"
    using free by (simp add: begin_be_def srv)
  have "start_async_bind_from_queue pw cr h it i s = (0, s3)"
    using known by (simp add: start_async_bind_from_queue_def bb s2_def [symmetric] s3(1) Let_def)
  with s3 c2 show ?thesis by (intro exI [of _ s3] exI [of _ "sv_now_ns s"]) simp
qed


end
