(* ===== verification/Server_Demo.thy ===== *)
theory Server_Demo
  imports Server_Props
begin

text \<open>
  A run of the server for the witnesses, on the reference instance of libpqwire: a pool of one
  connection with group logins, a client of the plain port, a Parse, and a Bind that starts a
  pipeline. In a second run the Bind comes without its Parse.
\<close>

section \<open>Start\<close>

definition demo_config :: config where
  "demo_config = config_defaults\<lparr>plain_mode := True, backend_host := Some ''127.0.0.1'', backend_use_group_as_user := True,
     backend_groups := Some ''default'', backend_lazy_group := False, backend_pool_size := 1,
     maintain_interval_ms := 0, metrics_log_interval_ms := 0\<rparr>"

definition demo_env :: start_env where
  "demo_env = \<lparr>en_ssl = demo_ssl, en_fcntl = (\<lambda>_. True),
     en_listen = \<lparr>le_socket = 0, le_reuse = True, le_pton = (\<lambda>_. True), le_bind = True, le_listen = True, le_getfl = True, le_setfl = True\<rparr>,
     en_uring_ok = True\<rparr>"

lemma demo_env_sel: "en_ssl demo_env = demo_ssl" "en_uring_ok demo_env"
  by (simp_all add: demo_env_def)

lemma demo_listen: "create_listen_socket (en_listen demo_env) cfg \<noteq> None"
  by (simp add: create_listen_socket_def demo_env_def Let_def)

lemma demo_nonblock: "pool_set_nonblock (en_fcntl demo_env) p = 0"
  by (simp add: pool_set_nonblock_0_iff demo_env_def)

definition demo_bcfg :: be_config where
  "demo_bcfg = backend_config_of demo_config"

definition demo_bconn :: "ref_wire be_conn" where
  "demo_bconn = (conn_init 0)\<lparr>be_fd := 5, be_wire := Some ref_wire0, be_login_user := ''default'', be_alive := True\<rparr>"

lemma demo_bcfg_eq: "demo_bcfg = \<lparr>cf_host = ''127.0.0.1'', cf_port = 5432, cf_user = ''postgres'', cf_password = '''',
    cf_database = ''postgres'', cf_use_group_as_user = True, cf_groups = ''default'', cf_lazy_group_connect = False,
    cf_pool_size = 1, cf_quiet = False, cf_auto_reconnect = True, cf_health_check = False\<rparr>"
  by (simp add: demo_bcfg_def backend_config_of_def demo_config_def config_defaults_def backend_config_defaults_def or_default_def)

lemma demo_groups_parsed: "parse_groups ''default'' 16 = [''default'']"
  by (simp add: parse_groups_def parse_groups_loop.simps trim_def blank_def)

lemma demo_bshell:
  "pool_shell demo_bcfg = \<lparr>po_cfg = demo_bcfg,
     po_login = \<lparr>lo_host = ''127.0.0.1'', lo_port = 5432, lo_password = '''', lo_database = ''postgres''\<rparr>,
     po_user = ''postgres'', po_groups = [''default''], po_use_group_as_user = True, po_lazy_connect = False,
     po_max_conns = 1, po_conns = [conn_init 0], po_n = 1, po_rr_cursor = 0\<rparr>"
  by (simp add: pool_shell_def demo_bcfg_eq demo_groups_parsed pool_size_for_def strncpy_arr_def Let_def)

lemma demo_bwarm:
  "warm_one ref_pw demo_crypto lo (conn_init 0) ''default'' demo_world =
     (0, demo_bconn, \<lparr>w_io = [], w_log = [(5, [83])], w_metrics = metrics_zero\<rparr>)"
  unfolding warm_one_def Let_def demo_world_def tcp_connect_def
  by (simp add: next_io_def backend_authenticate_def ref_pw_sel ref_wire0_def ref_put_def write_all.simps
      demo_auth_loop [of _ _ _ 62, simplified] demo_bconn_def conn_init_def conn_teardown_io_def strncpy_arr_def)

definition demo_bpool :: "ref_wire be_pool" where
  "demo_bpool = (pool_shell demo_bcfg)\<lparr>po_conns := [demo_bconn]\<rparr>"

lemma demo_bcreate: "pool_create ref_pw demo_crypto demo_bcfg demo_world = (Some demo_bpool, demo_world')"
proof -
  have "cf_host demo_bcfg \<noteq> []" by (simp add: demo_bcfg_eq)
  then show ?thesis
    by (simp add: pool_create_def pool_warm_def demo_bshell demo_bwarm set_conn_def upt_rec demo_bpool_def demo_world'_def Let_def)
qed

definition demo_sub :: "uring_op \<Rightarrow> int \<Rightarrow> sub" where
  "demo_sub opc fd = \<lparr>su_ud = pack_ud (op_code opc) 0, su_fd = fd, su_flags = 0, su_data = []\<rparr>"

definition demo_srv0 :: "ref_wire server" where
  "demo_srv0 = \<lparr>sv_cfg = demo_config, sv_tls = None, sv_pool = Some demo_bpool, sv_async = True, sv_fair = True,
     sv_conns = replicate 256 fconn_zero, sv_last_maintain_ms = 0, sv_last_metrics_ms = 0, sv_wait = wait_empty,
     sv_now_ns = 0, sv_world = demo_world', sv_ssl = [], sv_sq = [], sv_flight = [demo_sub OP_ACCEPT 0]\<rparr>"

lemma demo_config_sel: "plain_mode demo_config" "backend_host demo_config = Some ''127.0.0.1''" "fair_schedule demo_config"
  "maintain_interval_ms demo_config = 0" "metrics_log_interval_ms demo_config = 0" "\<not> msg_zerocopy demo_config"
  "cfg_identity_slot demo_config = 0" "identity_param_name demo_config = None"
  by (simp_all add: demo_config_def config_defaults_def)

lemma demo_start: "server_start ref_pw demo_crypto demo_env demo_config 0 demo_world [] = Some demo_srv0"
  by (simp add: server_start_def server_zero_def start_pool_def demo_config_sel demo_bcreate [unfolded demo_bcfg_def]
      demo_env_sel demo_listen demo_nonblock
      submit_accept_def add_sqe_def uring_submit_def mono_ms_def demo_srv0_def demo_sub_def Let_def)

section \<open>Turns\<close>

lemma tick_off: "maintain_interval_ms (sv_cfg srv) = 0 \<Longrightarrow> metrics_log_interval_ms (sv_cfg srv) = 0 \<Longrightarrow> snd (server_tick pw cr srv) = srv"
  by (simp add: server_tick_def tick_maintain_def tick_metrics_def interval_over_def split: option.splits)

lemma demo_unpack: "unpack_ud (pack_ud (op_code OP_ACCEPT) 0) = (1, 0)" "unpack_ud (pack_ud (op_code OP_RECV) 0) = (2, 0)"
  "unpack_ud (pack_ud 1 0) = (1, 0)" "unpack_ud (pack_ud 2 0) = (2, 0)"
  by (simp_all add: unpack_ud_def pack_ud_def)

definition demo_cqe :: "uring_op \<Rightarrow> int \<Rightarrow> bytes \<Rightarrow> cqe" where
  "demo_cqe opc res data = \<lparr>cq_ud = pack_ud (op_code opc) 0, cq_res = res, cq_data = data, cq_zc = False, cq_ssl_ok = False\<rparr>"

definition demo_client :: "ref_wire fconn" where
  "demo_client = fconn_zero\<lparr>fc_fd := 9, fc_state := CS_ACTIVE, fc_frontend := Some ref_wire0,
     fc_id := \<lparr>router_id = ''plain-dev'', group_name = ''default'', identity_slot = 0\<rparr>, fc_identity_ready := True,
     fc_recv_pending := True\<rparr>"

definition demo_srv1 :: "ref_wire server" where
  "demo_srv1 = demo_srv0\<lparr>sv_conns := (replicate 256 fconn_zero)[0 := demo_client],
     sv_world := demo_world'\<lparr>w_metrics := metrics_inc_accepts (w_metrics demo_world')\<rparr>,
     sv_flight := [demo_sub OP_RECV 9, demo_sub OP_ACCEPT 0]\<rparr>"

lemma demo_identity: "identity_from_cert_subject ''plain-dev:default'' =
    \<lparr>router_id = ''plain-dev'', group_name = ''default'', identity_slot = 0\<rparr>"
  by code_simp

lemma demo_alloc: "sv_conns srv = replicate 256 fconn_zero \<Longrightarrow> alloc_conn srv = Some (0, upd 0 (\<lambda>_. fconn_zero\<lparr>fc_slot := 0,
    fc_fd := - 1, fc_id := identity_clear, fc_cache := stmt_cache_init\<rparr>) srv)"
proof -
  assume "sv_conns srv = replicate 256 fconn_zero"
  moreover have "[0..<256] = 0 # [1..<256]" by (simp add: upt_conv_Cons)
  ultimately show ?thesis by (simp add: alloc_conn_def cn_def fconn_zero_def)
qed

lemma demo_turn: "sv_cfg srv = demo_config \<Longrightarrow> loop_turn pw cr (WDone k q) srv = uring_submit (dispatch pw cr q (take_flight k srv))"
  by (simp add: take_flight_def tick_off demo_config_sel)

lemma demo_step1: "server_step ref_pw demo_crypto demo_srv0 demo_srv1"
proof -
  let ?q = "demo_cqe OP_ACCEPT 9 []"
  have env: "set_env 0 [] [] demo_srv0 = demo_srv0" by (simp add: set_env_def demo_srv0_def demo_world'_def)
  have cfg: "sv_cfg demo_srv0 = demo_config" by (simp add: demo_srv0_def)
  have take: "take_flight 0 demo_srv0 = demo_srv0\<lparr>sv_flight := []\<rparr>" by (simp add: take_flight_def demo_srv0_def)
  have conns: "sv_conns (demo_srv0\<lparr>sv_flight := []\<rparr>) = replicate 256 fconn_zero" by (simp add: demo_srv0_def)
  have "loop_turn ref_pw demo_crypto (WDone 0 ?q) demo_srv0 = demo_srv1"
    unfolding demo_turn [OF cfg] take dispatch_def demo_cqe_def cqe.simps demo_unpack Let_def split on_accept_cqe_def accept_one_def
      demo_alloc [OF conns] option.case accept_setup_def ref_pw_sel accept_plain_def demo_identity
    by (simp add: demo_srv0_def demo_srv1_def demo_client_def with_identity_def submit_recv_def submit_accept_def add_sqe_def
      upd_def cn_def count_def fconn_zero_def demo_config_sel uring_submit_def demo_sub_def Let_def)
  moreover have "completes ?q (sv_flight demo_srv0 ! 0)"
    by (simp add: completes_def demo_cqe_def demo_srv0_def demo_sub_def demo_unpack Let_def)
  ultimately show ?thesis
    using server_step.completion [of 0 demo_srv0 ?q ref_pw demo_crypto 0 "[]" "[]"] env by (simp add: demo_srv0_def)
qed

lemma demo_turn_step:
  assumes "sv_cfg srv = demo_config" "sv_now_ns srv = 0" "sv_ssl srv = []" "w_io (sv_world srv) = []"
    and "k < length (sv_flight srv)" "sv_flight srv ! k = demo_sub OP_RECV fd" "length data \<le> 16384"
  shows "server_step ref_pw demo_crypto srv
    (uring_submit (on_slot 0 (\<lambda>_. True) (on_recv_cqe ref_pw demo_crypto (int (length data)) data) (take_flight k srv)))"
proof -
  let ?q = "demo_cqe OP_RECV (int (length data)) data"
  have env: "set_env 0 [] [] srv = srv" using assms(2-4) by (cases srv) (simp add: set_env_def)
  have "completes ?q (sv_flight srv ! k)"
    using assms(6,7) by (simp add: completes_def demo_cqe_def demo_sub_def demo_unpack Let_def)
  moreover have "loop_turn ref_pw demo_crypto (WDone k ?q) srv =
      uring_submit (on_slot 0 (\<lambda>_. True) (on_recv_cqe ref_pw demo_crypto (int (length data)) data) (take_flight k srv))"
    unfolding demo_turn [OF assms(1)] dispatch_def demo_cqe_def cqe.simps demo_unpack Let_def split by simp
  ultimately show ?thesis
    using server_step.completion [OF assms(5), of ?q ref_pw demo_crypto 0 "[]" "[]"] env by simp
qed

text \<open>The Parse.\<close>

definition demo_parsed :: "ref_wire fconn" where
  "demo_parsed = demo_client\<lparr>fc_cache := demo_cache 0, fc_send := [49], fc_send_pending := True\<rparr>"

definition demo_srv2 :: "ref_wire server" where
  "demo_srv2 = demo_srv1\<lparr>sv_conns := (replicate 256 fconn_zero)[0 := demo_parsed],
     sv_flight := [demo_sub OP_ACCEPT 0, (demo_sub OP_SEND 9)\<lparr>su_data := [49]\<rparr>, demo_sub OP_RECV 9]\<rparr>"

lemma demo_step2: "server_step ref_pw demo_crypto demo_srv1 demo_srv2"
proof -
  have put: "stmt_cache_put ref_pw stmt_cache_init (demo_parse ''s'' ''SELECT 1'') 0 = (0, demo_cache 0)" by (rule demo_put)
  have take: "take_flight 0 demo_srv1 = demo_srv1\<lparr>sv_flight := [demo_sub OP_ACCEPT 0]\<rparr>" by (simp add: take_flight_def demo_srv1_def)
  have "uring_submit (on_slot 0 (\<lambda>_. True) (on_recv_cqe ref_pw demo_crypto 1 [80]) (take_flight 0 demo_srv1)) = demo_srv2"
    unfolding take
    by (simp add: on_slot_def on_recv_cqe_def on_recv_plain_def feed_plain_def process_frontend_def ref_pw_sel ref_wire0_def
        on_event_def on_ev_parse_def frontend_parse_def parse_slot_def on_parse_ex_def put ref_put_def
        drain_frontend_out_def queue_plain_send_def append_send_def submit_send_def send_flags_def close_if_def
        demo_srv0_def demo_srv1_def demo_srv2_def demo_client_def demo_parsed_def submit_recv_def add_sqe_def
        upd_def cn_def fconn_zero_def demo_config_sel uring_submit_def demo_sub_def Let_def)
  with demo_turn_step [of demo_srv1 0 9 "[80]"] show ?thesis
    by (simp add: demo_srv1_def demo_srv0_def demo_world'_def)
qed

text \<open>The Bind: the client owns the connection.\<close>

lemma demo_cursor: "rotation demo_bpool = [0]"
  by (simp add: rotation_def demo_bpool_def demo_bshell)

lemma demo_bpool_sel: "po_max_conns demo_bpool = 1" "po_conns demo_bpool = [demo_bconn]" "po_use_group_as_user demo_bpool"
  "cf_auto_reconnect (po_cfg demo_bpool)" "\<not> cf_health_check (po_cfg demo_bpool)" "po_rr_cursor demo_bpool = 0"
  unfolding demo_bpool_def demo_bshell by (simp_all add: demo_bcfg_eq)

lemma demo_maintain: "pool_maintain ref_pw demo_crypto demo_bpool w =
    (0, demo_bpool, w\<lparr>w_metrics := metrics_inc_maintain 0 (w_metrics w)\<rparr>)"
  by (simp add: pool_maintain_def demo_bpool_sel demo_bconn_def conn_init_def)

lemma demo_bcheckout: "checkout ref_pw demo_crypto ''default'' demo_bpool w =
    (Some 0, (set_busy 0 True demo_bpool)\<lparr>po_rr_cursor := 0\<rparr>, w\<lparr>w_metrics := metrics_inc_maintain 0 (w_metrics w)\<rparr>)"
  by (simp add: checkout_def demo_maintain demo_cursor checkout_try_def demo_bpool_sel demo_bconn_def conn_init_def set_busy_def
      Let_def)

lemma demo_no_formats: "ref_bind\<lparr>b_formats := []\<rparr> = ref_bind"
  by (simp add: ref_bind_def)

lemma demo_begin:
  "\<exists>p'. async_begin ref_pw demo_crypto (demo_cache 0) (ref_bind\<lparr>b_formats := fs\<rparr>) \<lparr>router_id = r, group_name = ''default'', identity_slot = 0\<rparr> demo_bpool w =
    (Some 0, p', w\<lparr>w_metrics := metrics_inc_maintain 0 (w_metrics w)\<rparr>) \<and>
    be_send (po_conns p' ! 0) = [80, 66, 69, 83] \<and> be_send_off (po_conns p' ! 0) = 0 \<and>
    be_login_user (po_conns p' ! 0) = ''default'' \<and> po_use_group_as_user p'"
proof -
  have dw: "drop_output ref_pw 1024 (w_n_output ref_pw ref_wire0) ref_wire0 = ref_wire0"
    by (simp add: ref_pw_sel ref_wire0_def)
  have nth: "po_conns (set_busy 0 True demo_bpool) = [demo_bconn\<lparr>be_busy := True\<rparr>]"
    by (simp add: set_busy_def demo_bpool_sel)
  have wire: "be_wire demo_bconn = Some ref_wire0" by (simp add: demo_bconn_def)
  obtain sent where ob: "on_bind ref_pw ref_wire0 (demo_cache 0) (ref_bind\<lparr>b_formats := fs\<rparr>) \<lparr>router_id = r, group_name = ''default'', identity_slot = 0\<rparr> =
      (0, \<lparr>rw_sent = sent, rw_out = [80, 66, 69, 83], rw_events = []\<rparr>)"
    by (simp add: on_bind_def demo_get ref_bind_def bind_slot_def ref_pw_sel ref_send_def ref_wire0_def stored_stmt_def Let_def)
  show ?thesis
    unfolding async_begin_def
    by (simp add: demo_bcheckout nth wire dw ob Let_def) (simp add: ref_pw_sel nth set_conn_def demo_bconn_def demo_bpool_sel set_busy_def)
qed

lemma demo_step3: "\<exists>srv. server_step ref_pw demo_crypto demo_srv2 srv \<and> fc_be (cn srv 0) = Some 0 \<and>
    fc_state (cn srv 0) = CS_ACTIVE \<and> fc_be_wait (cn srv 0) = BE_SENDING \<and> group_name (fc_id (cn srv 0)) = ''default'' \<and>
    (\<exists>p. sv_pool srv = Some p \<and> po_use_group_as_user p)"
proof -
  have take: "take_flight 2 demo_srv2 = demo_srv2\<lparr>sv_flight := take 2 (sv_flight demo_srv2)\<rparr>" by (simp add: take_flight_def demo_srv2_def)
  let ?w = "demo_world'\<lparr>w_metrics := metrics_inc_accepts (w_metrics demo_world')\<rparr>"
  obtain p' where b: "async_begin ref_pw demo_crypto (demo_cache 0) ref_bind
      \<lparr>router_id = ''plain-dev'', group_name = ''default'', identity_slot = 0\<rparr> demo_bpool ?w =
      (Some 0, p', ?w\<lparr>w_metrics := metrics_inc_maintain 0 (w_metrics ?w)\<rparr>)"
    "be_send (po_conns p' ! 0) = [80, 66, 69, 83]" "be_send_off (po_conns p' ! 0) = 0" "po_use_group_as_user p'"
    using demo_begin [where fs = "[]" and r = "''plain-dev''" and w = ?w, unfolded demo_no_formats] by blast
  let ?srv = "uring_submit (on_slot 0 (\<lambda>_. True) (on_recv_cqe ref_pw demo_crypto 1 [66]) (take_flight 2 demo_srv2))"
  have "fc_be (cn ?srv 0) = Some 0 \<and>
    fc_state (cn ?srv 0) = CS_ACTIVE \<and> fc_be_wait (cn ?srv 0) = BE_SENDING \<and> group_name (fc_id (cn ?srv 0)) = ''default'' \<and>
    sv_pool ?srv = Some p'"
    unfolding take
    by (simp add: on_slot_def on_recv_cqe_def on_recv_plain_def feed_plain_def process_frontend_def ref_pw_sel ref_wire0_def
        on_event_def on_ev_bind_def start_async_bind_from_event_def begin_be_def b submit_be_send_def async_send_ptr_def sv_be_def
        set_pool_def drain_frontend_out_def close_if_def
        demo_srv0_def demo_srv1_def demo_srv2_def demo_client_def demo_parsed_def submit_recv_def add_sqe_def
        upd_def cn_def fconn_zero_def demo_config_sel uring_submit_def demo_sub_def Let_def)
  moreover have "server_step ref_pw demo_crypto demo_srv2 ?srv"
    using demo_turn_step [of demo_srv2 2 9 "[66]"] by (simp add: demo_srv2_def demo_srv1_def demo_srv0_def demo_world'_def)
  ultimately show ?thesis using b(4) by blast
qed

end
