(* ===== verification/Server_Witness.thy ===== *)
theory Server_Witness
  imports Server_Grant Server_Watch Server_Demo
begin

text \<open>
  The properties of the server at the states of the run of \<open>Server_Demo\<close>, and a second run in which
  the client sends the Bind without its Parse.
\<close>

section \<open>The states of the run\<close>

lemma demo_reach1: "reachable ref_pw demo_crypto demo_config demo_srv1"
  by (rule reachable.step [OF reachable.start [OF demo_start] demo_step1])

lemma demo_reach2: "reachable ref_pw demo_crypto demo_config demo_srv2"
  by (rule reachable.step [OF demo_reach1 demo_step2])

lemma demo_reach3: "\<exists>srv p. reachable ref_pw demo_crypto demo_config srv \<and> fc_be (cn srv 0) = Some 0 \<and> fc_state (cn srv 0) = CS_ACTIVE \<and>
    group_name (fc_id (cn srv 0)) = ''default'' \<and> sv_pool srv = Some p \<and> po_use_group_as_user p"
  using demo_step3 reachable.step [OF demo_reach2] by blast

theorem event_loop_well_formed_witness: "reachable ref_pw demo_crypto demo_config demo_srv2 \<and> length (sv_conns demo_srv2) = 256"
  using demo_reach2 event_loop_well_formed [OF demo_reach2] by blast

theorem one_frontend_per_backend_witness: "\<exists>srv. reachable ref_pw demo_crypto demo_config srv \<and> fc_be (cn srv 0) = Some 0 \<and>
    fc_be (cn srv 1) \<noteq> Some 0"
proof -
  obtain srv where s: "reachable ref_pw demo_crypto demo_config srv" "fc_be (cn srv 0) = Some 0" using demo_reach3 by blast
  have "fc_be (cn srv 1) \<noteq> Some 0"
    using one_frontend_per_backend [OF s(1) _ s(2)] by (metis one_less_numeral_iff semiring_norm(76) zero_less_numeral zero_neq_one)
  with s show ?thesis by blast
qed




theorem release_terminates_witness: "fc_state (cn demo_srv2 0) \<noteq> CS_FREE \<and>
    release ref_pw demo_crypto (257 + 743) 0 demo_srv2 = after_backend_release ref_pw demo_crypto 0 demo_srv2"
proof -
  have "fc_state (cn demo_srv2 0) \<noteq> CS_FREE" by (simp add: demo_srv2_def demo_srv1_def demo_srv0_def demo_parsed_def demo_client_def cn_def)
  then show ?thesis using release_terminates [OF demo_reach2, of 0 743] by simp
qed

text \<open>A server that requires client certificates, without its periodic work.\<close>

definition demo_mtls_server :: config where
  "demo_mtls_server = demo_mtls\<lparr>maintain_interval_ms := 0, metrics_log_interval_ms := 0\<rparr>"

lemma demo_mtls_start: "\<exists>srv :: ref_wire server. server_start ref_pw demo_crypto demo_env demo_mtls_server 0 demo_world [] = Some srv \<and>
    sv_cfg srv = demo_mtls_server \<and> sv_tls srv \<noteq> None \<and> sv_conns srv = replicate 256 fconn_zero \<and> sv_flight srv = [demo_sub OP_ACCEPT 0] \<and> sv_sq srv = []"
proof -
  obtain ctx where "tls_ctx_create demo_ssl demo_mtls_server = Some ctx"
    by (simp add: tls_ctx_create_def tls_ctx_verify_def demo_mtls_server_def demo_mtls_def demo_ssl_def config_defaults_def Let_def)
  then show ?thesis
    by (simp add: server_start_def start_pool_def server_zero_def submit_accept_def add_sqe_def uring_submit_def demo_env_sel demo_listen demo_nonblock
        demo_mtls_server_def demo_mtls_def config_defaults_def demo_sub_def Let_def)
qed

theorem mutual_tls_enforced_witness: "\<exists>(srv :: ref_wire server) ctx. reachable ref_pw demo_crypto demo_mtls_server srv \<and> sv_tls srv = Some ctx \<and>
    tc_verify_peer ctx \<and> tc_fail_if_no_peer_cert ctx \<and> tc_ca ctx = Some ''ca.crt''"
proof -
  obtain srv :: "ref_wire server" where s: "server_start ref_pw demo_crypto demo_env demo_mtls_server 0 demo_world [] = Some srv" "sv_cfg srv = demo_mtls_server"
    using demo_mtls_start by blast
  have r: "reachable ref_pw demo_crypto demo_mtls_server srv" by (rule reachable.start [OF s(1)])
  have "\<not> plain_mode demo_mtls_server" "require_mtls demo_mtls_server" "ca_file demo_mtls_server = Some ''ca.crt''"
    by (simp_all add: demo_mtls_server_def demo_mtls_def config_defaults_def)
  then show ?thesis using mutual_tls_enforced [OF r] r unfolding s(2) by auto
qed

text \<open>A client whose handshake is over at once and whose certificate names \<open>router-9\<close> of \<open>region_east\<close>.\<close>

definition demo_handshake :: "tls_res list" where
  "demo_handshake = [THandshake True 1 SslOther SslOther, TKtls False False, TIdentity (Some (demo_x509 ''router-9'' ''region_east''))]"

lemma demo_peer: "peer_identity (demo_x509 ''router-9'' ''region_east'') (Some ()) =
    Some \<lparr>router_id = ''router-9'', group_name = ''region_east'', identity_slot = 0\<rparr>"
  using identity_from_x509_cn_ou [OF demo_x509_entries(1,2) _ _ demo_x509_entries(3)] by (simp add: peer_identity_def)

lemma demo_mtls_accept: "\<exists>srv. reachable ref_pw demo_crypto demo_mtls_server srv \<and> sv_cfg srv = demo_mtls_server \<and> fc_state (cn srv 0) = CS_ACTIVE \<and>
    fc_ssl (cn srv 0) \<and> fc_send (cn srv 0) = [] \<and>
    fc_id (cn srv 0) = \<lparr>router_id = ''router-9'', group_name = ''region_east'', identity_slot = 0\<rparr>"
proof -
  obtain srv0 :: "ref_wire server" where s: "server_start ref_pw demo_crypto demo_env demo_mtls_server 0 demo_world [] = Some srv0"
    "sv_cfg srv0 = demo_mtls_server" "sv_tls srv0 \<noteq> None" "sv_conns srv0 = replicate 256 fconn_zero" "sv_flight srv0 = [demo_sub OP_ACCEPT 0]"
    "sv_sq srv0 = []" using demo_mtls_start by blast
  let ?q = "(demo_cqe OP_ACCEPT 9 [])\<lparr>cq_ssl_ok := True\<rparr>"
  let ?s = "set_env 0 [] demo_handshake srv0"
  let ?t = "?s\<lparr>sv_flight := []\<rparr>"
  have off: "maintain_interval_ms demo_mtls_server = 0" "metrics_log_interval_ms demo_mtls_server = 0" "require_mtls demo_mtls_server" "\<not> msg_zerocopy demo_mtls_server"
    "cfg_identity_slot demo_mtls_server = 0" by (simp_all add: demo_mtls_server_def demo_mtls_def config_defaults_def)
  have take: "take_flight 0 ?s = ?t" by (simp add: take_flight_def set_env_def s)
  have conns: "sv_conns ?t = replicate 256 fconn_zero" by (simp add: set_env_def s)
  have "sv_cfg ?t = demo_mtls_server" by (simp add: set_env_def s)
  then have turn: "loop_turn ref_pw demo_crypto (WDone 0 ?q) ?s = uring_submit (dispatch ref_pw demo_crypto ?q ?t)"
    unfolding loop_turn.simps take using off(1,2) by (subst tick_off) simp_all
  have "sv_cfg (loop_turn ref_pw demo_crypto (WDone 0 ?q) ?s) = demo_mtls_server \<and> fc_state (cn (loop_turn ref_pw demo_crypto (WDone 0 ?q) ?s) 0) = CS_ACTIVE \<and>
    fc_ssl (cn (loop_turn ref_pw demo_crypto (WDone 0 ?q) ?s) 0) \<and> fc_send (cn (loop_turn ref_pw demo_crypto (WDone 0 ?q) ?s) 0) = [] \<and>
    fc_id (cn (loop_turn ref_pw demo_crypto (WDone 0 ?q) ?s) 0) = \<lparr>router_id = ''router-9'', group_name = ''region_east'', identity_slot = 0\<rparr>"
    unfolding turn unfolding dispatch_def demo_cqe_def cqe.simps demo_unpack Let_def split on_accept_cqe_def accept_one_def demo_alloc [OF conns] option.case
      accept_setup_def ref_pw_sel
    using s(3)
    by (simp add: set_env_def s accept_tls_def tls_conn_new_fd_def tls_handshake_def demo_handshake_def handshake_rc_def tls_on_handshake_done_def
      ktls_query_def tls_identity_def demo_peer with_identity_def submit_poll_def submit_accept_def add_sqe_def
      upd_def cn_def count_def fconn_zero_def off uring_submit_def Let_def)
  moreover have "completes ?q (sv_flight srv0 ! 0)"
    by (simp add: completes_def demo_cqe_def s demo_sub_def demo_unpack Let_def)
  ultimately show ?thesis
    using reachable.step [OF reachable.start [OF s(1)] server_step.completion [of 0 srv0 ?q ref_pw demo_crypto 0 "[]" demo_handshake]] s(5) by auto
qed

theorem active_client_has_identity_witness: "\<exists>srv. reachable ref_pw demo_crypto demo_mtls_server srv \<and> fc_state (cn srv 0) = CS_ACTIVE \<and>
    fc_identity_ready (cn srv 0) \<and> router_id (fc_id (cn srv 0)) = ''router-9'' \<and> identity_slot (fc_id (cn srv 0)) = 0"
proof -
  obtain srv where s: "reachable ref_pw demo_crypto demo_mtls_server srv" "sv_cfg srv = demo_mtls_server" "fc_state (cn srv 0) = CS_ACTIVE"
    "fc_id (cn srv 0) = \<lparr>router_id = ''router-9'', group_name = ''region_east'', identity_slot = 0\<rparr>" using demo_mtls_accept by blast
  have "require_mtls (sv_cfg srv)" by (simp add: s(2) demo_mtls_server_def demo_mtls_def config_defaults_def)
  from active_client_has_identity [OF s(1) _ this s(3)] s show ?thesis by auto
qed


theorem every_client_is_watched_witness: "reachable ref_pw demo_crypto demo_config demo_srv1 \<and>
    (\<exists>s \<in> set (sv_flight demo_srv1). su_fd s = 9 \<and> su_ud s = pack_ud (op_code OP_RECV) 0)"
  using demo_reach1 every_client_is_watched [OF demo_reach1, of 0] by (simp add: demo_srv1_def demo_srv0_def demo_client_def cn_def fconn_zero_def)

theorem shutdown_leaves_nothing_witness: "\<exists>srv srv' fds. reachable ref_pw demo_crypto demo_config srv \<and> fc_be (cn srv 0) = Some 0 \<and>
    server_shutdown ref_pw demo_crypto srv = (srv', fds) \<and> fc_be (cn srv' 0) = None \<and> sv_flight srv' = []"
proof -
  obtain srv where s: "reachable ref_pw demo_crypto demo_config srv" "fc_be (cn srv 0) = Some 0" using demo_reach3 by blast
  obtain srv' fds where d: "server_shutdown ref_pw demo_crypto srv = (srv', fds)" by fastforce
  from shutdown_leaves_nothing [OF s(1) d] s d show ?thesis by auto
qed

section \<open>A Bind without its Parse\<close>

lemma demo_unknown: "stmt_cache_get stmt_cache_init ''s'' = None"
  by (simp add: cache_get_map [OF cache_inv_init] cache_map_init)

lemma demo_begin_unknown:
  "\<exists>p'. async_begin ref_pw demo_crypto stmt_cache_init ref_bind \<lparr>router_id = r, group_name = ''default'', identity_slot = 0\<rparr> demo_bpool w =
    (None, p', w\<lparr>w_metrics := metrics_inc_maintain 0 (w_metrics w)\<rparr>)"
proof -
  have dw: "drop_output ref_pw 1024 (w_n_output ref_pw ref_wire0) ref_wire0 = ref_wire0"
    by (simp add: ref_pw_sel ref_wire0_def)
  have nth: "po_conns (set_busy 0 True demo_bpool) = [demo_bconn\<lparr>be_busy := True\<rparr>]"
    by (simp add: set_busy_def demo_bpool_sel)
  have wire: "be_wire demo_bconn = Some ref_wire0" by (simp add: demo_bconn_def)
  show ?thesis
    unfolding async_begin_def
    by (simp add: demo_bcheckout nth wire dw on_bind_def ref_bind_def demo_unknown Let_def)
qed

lemma demo_push: "\<exists>q m' it q'. feq_push_bind ref_pw feq_empty ref_bind m = (0, q, m') \<and> feq_pop q = Some (it, q') \<and> q_count q = 1 \<and>
    it_kind it = FEQ_BIND \<and> b_statement (bind_of_item ref_pw it) = ''s''"
proof -
  let ?ps = "b_params ref_bind"
  have own: "own_params ref_pw ?ps = Some ?ps" by (simp add: ref_bind_def identity_param_def own_param_def ref_pw_sel code_of_def)
  show ?thesis
    by (simp add: feq_push_bind_def ref_pw_sel own [unfolded ref_bind_def, simplified] ref_bind_def feq_push_def feq_empty_def feq_pop_def
      bind_of_item_def strncpy_arr_def Let_def)
qed

lemma demo_park: "\<exists>srv it q r p. reachable ref_pw demo_crypto demo_config srv \<and> fc_be_wait (cn srv 0) = BE_WAITING_POOL \<and>
    waiters_pop (sv_wait srv) = Some (0, r) \<and> feq_pop (fc_q (cn srv 0)) = Some (it, q) \<and> it_kind it = FEQ_BIND \<and>
    stmt_cache_get (fc_cache (cn srv 0)) (b_statement (bind_of_item ref_pw it)) = None \<and> sv_pool srv = Some p \<and>
    sv_async srv \<and> sv_fair srv \<and> fc_identity_ready (cn srv 0)"
proof -
  have take: "take_flight 0 demo_srv1 = demo_srv1\<lparr>sv_flight := [demo_sub OP_ACCEPT 0]\<rparr>" by (simp add: take_flight_def demo_srv1_def)
  let ?w = "demo_world'\<lparr>w_metrics := metrics_inc_accepts (w_metrics demo_world')\<rparr>"
  obtain p' where b: "async_begin ref_pw demo_crypto stmt_cache_init ref_bind
      \<lparr>router_id = ''plain-dev'', group_name = ''default'', identity_slot = 0\<rparr> demo_bpool ?w =
      (None, p', ?w\<lparr>w_metrics := metrics_inc_maintain 0 (w_metrics ?w)\<rparr>)"
    using demo_begin_unknown [of "''plain-dev''" ?w] by blast
  obtain q m' it q' where fq: "feq_push_bind ref_pw feq_empty ref_bind (metrics_inc_maintain 0 (w_metrics ?w)) = (0, q, m')"
    "feq_pop q = Some (it, q')" "q_count q = 1" "it_kind it = FEQ_BIND" "b_statement (bind_of_item ref_pw it) = ''s''"
    using demo_push by metis
  note push = fq(1) [simplified]
  have empty: "waiting wait_empty = []" by (simp add: waiting_def wait_empty_def)
  let ?srv = "uring_submit (on_slot 0 (\<lambda>_. True) (on_recv_cqe ref_pw demo_crypto 1 [66]) (take_flight 0 demo_srv1))"
  have "fc_be_wait (cn ?srv 0) = BE_WAITING_POOL \<and>
    (\<exists>r. waiters_pop (sv_wait ?srv) = Some (0, r)) \<and> fc_q (cn ?srv 0) = q \<and> fc_cache (cn ?srv 0) = stmt_cache_init \<and> sv_pool ?srv = Some p' \<and>
    sv_async ?srv \<and> sv_fair ?srv \<and> fc_identity_ready (cn ?srv 0)"
    unfolding take
    by (simp add: on_slot_def on_recv_cqe_def on_recv_plain_def feed_plain_def process_frontend_def ref_pw_sel ref_wire0_def
        on_event_def on_ev_bind_def start_async_bind_from_event_def begin_be_def b on_queue_def push
        park_for_backend_def sv_waiters_push_def waiters_push_def empty [unfolded wait_empty_def]
        waiters_pop_def wait_empty_def
        set_pool_def drain_frontend_out_def close_if_def
        demo_srv0_def demo_srv1_def demo_client_def submit_recv_def add_sqe_def
        upd_def cn_def count_def fconn_zero_def demo_config_sel uring_submit_def demo_sub_def Let_def)
  moreover have "server_step ref_pw demo_crypto demo_srv1 ?srv"
    using demo_turn_step [of demo_srv1 0 9 "[66]"] by (simp add: demo_srv1_def demo_srv0_def demo_world'_def)
  ultimately show ?thesis using reachable.step [OF demo_reach1] demo_unknown fq(2-5) by metis
qed

theorem waiting_frontend_in_ring_witness: "\<exists>srv. reachable ref_pw demo_crypto demo_config srv \<and>
    fc_be_wait (cn srv 0) = BE_WAITING_POOL \<and> 0 \<in> set (waiting (sv_wait srv))"
proof -
  obtain srv where s: "reachable ref_pw demo_crypto demo_config srv" "fc_be_wait (cn srv 0) = BE_WAITING_POOL"
    using demo_park by blast
  then show ?thesis using waiting_frontend_in_ring [OF s(1) _ s(2)] by auto
qed


section \<open>A pipelined Bind\<close>

definition demo_fifo :: fe_queue where
  "demo_fifo = \<lparr>q_buf = feq_zero\<lparr>it_kind := FEQ_EXECUTE\<rparr> # feq_zero\<lparr>it_kind := FEQ_SYNC\<rparr> # replicate 30 feq_zero,
     q_head = 0, q_tail = 2, q_count = 2\<rparr>"

definition demo_answered :: "ref_wire server" where
  "demo_answered = demo_srv2\<lparr>sv_conns := (replicate 256 fconn_zero)[0 :=
     demo_client\<lparr>fc_be := Some 0, fc_be_wait := BE_READING, fc_got_sync := True, fc_be_resp := [68, 90], fc_q := demo_fifo\<rparr>]\<rparr>"

lemma demo_fifo_items: "feq_inv demo_fifo"
  "feq_items demo_fifo = [feq_zero\<lparr>it_kind := FEQ_EXECUTE\<rparr>, feq_zero\<lparr>it_kind := FEQ_SYNC\<rparr>]"
  by (simp_all add: feq_inv_def feq_items_def ring_view_def demo_fifo_def upt_rec)

lemma ref_emits: "emits rw_out (w_send_bind_complete ref_pw) [50]"
  "emits rw_out (\<lambda>w. w_send_command_complete ref_pw w ''SELECT 0'') [67]" "emits rw_out (w_send_ready_for_query ref_pw) [90]"
  by (simp_all add: emits_def ref_pw_sel ref_put_def)


section \<open>A waiting frontend\<close>

definition demo_item :: feq_item where
  "demo_item = feq_zero\<lparr>it_kind := FEQ_BIND, it_bind_stmt := ''s'', it_n_params := 2, it_params := b_params ref_bind\<rparr>"

definition demo_waiting :: "ref_wire server" where
  "demo_waiting = demo_srv2\<lparr>sv_conns := (replicate 256 fconn_zero)[0 := demo_parsed\<lparr>fc_be_wait := BE_WAITING_POOL,
       fc_q := \<lparr>q_buf = demo_item # replicate 31 feq_zero, q_head = 0, q_tail = 1, q_count = 1\<rparr>\<rparr>],
     sv_wait := \<lparr>r_slots = replicate 256 0, r_head = 0, r_tail = 1, r_count = 1\<rparr>\<rparr>"

lemma demo_item_bind: "bind_of_item ref_pw demo_item = ref_bind\<lparr>b_formats := [0, 0]\<rparr>"
  by (simp add: bind_of_item_def demo_item_def ref_pw_sel ref_bind_def identity_param_def strncpy_arr_def feq_zero_def)


end
