(* ===== verification/Server_Stale.thy ===== *)
theory Server_Stale
  imports Server_Demo
begin

text \<open>
  A completion carries the operation and the slot it was submitted for, and nothing of the connection.
  \<open>close_conn\<close> forgets what is in flight but does not cancel it, so a completion that comes
  after the slot was given to another client is taken for one of that client. The run of
  \<open>Server_Demo\<close> goes on: a send to the first client fails while a receive on it is in flight, the slot is freed
  and given to a second client, and then the receive of the first client fails, which closes
  the second.
\<close>

section \<open>The first client is closed\<close>

definition demo_closed :: "ref_wire fconn" where
  "demo_closed = demo_parsed\<lparr>fc_fd := - 1, fc_state := CS_FREE, fc_frontend := None, fc_send_pending := False, fc_recv_pending := False,
     fc_q := feq_clear_all feq_empty\<rparr>"

definition demo_gone :: "ref_wire server" where
  "demo_gone = demo_srv2\<lparr>sv_conns := (replicate 256 fconn_zero)[0 := demo_closed],
     sv_wait := fst (waiters_remove wait_empty 0 (w_metrics (sv_world demo_srv2))),
     sv_world := (sv_world demo_srv2)\<lparr>w_metrics := metrics_inc_closes (snd (waiters_remove wait_empty 0 (w_metrics (sv_world demo_srv2))))\<rparr>,
     sv_flight := [demo_sub OP_ACCEPT 0, demo_sub OP_RECV 9]\<rparr>"

text \<open>A turn that one completion ends, when there is no periodic work.\<close>

lemma demo_completion:
  assumes "sv_cfg srv = demo_config" "sv_now_ns srv = 0" "sv_ssl srv = []" "w_io (sv_world srv) = []"
    and "k < length (sv_flight srv)" "completes q (sv_flight srv ! k)"
  shows "server_step ref_pw demo_crypto srv (uring_submit (dispatch ref_pw demo_crypto q (take_flight k srv)))"
proof -
  have "set_env 0 [] [] srv = srv" using assms(2-4) by (cases srv) (simp add: set_env_def)
  then show ?thesis
    using server_step.completion [OF assms(5,6), of ref_pw demo_crypto 0 "[]" "[]"] demo_turn [OF assms(1)] by simp
qed

lemma demo_unpack_send: "unpack_ud (pack_ud 3 0) = (3, 0)"
  by (simp add: unpack_ud_def pack_ud_def)

lemma demo_step_gone: "server_step ref_pw demo_crypto demo_srv2 demo_gone"
proof -
  let ?q = "demo_cqe OP_SEND (- 32) []"
  have take: "take_flight 1 demo_srv2 = demo_srv2\<lparr>sv_flight := [demo_sub OP_ACCEPT 0, demo_sub OP_RECV 9]\<rparr>"
    by (simp add: take_flight_def demo_srv2_def)
  have "uring_submit (dispatch ref_pw demo_crypto ?q (take_flight 1 demo_srv2)) = demo_gone"
    unfolding take
    by (simp add: dispatch_def demo_cqe_def demo_unpack_send on_slot_def on_send_cqe_def close_conn_def sv_waiters_remove_def
      demo_gone_def demo_closed_def demo_srv2_def demo_srv1_def demo_srv0_def demo_parsed_def demo_client_def
      upd_def cn_def count_def fconn_zero_def uring_submit_def case_prod_beta Let_def)
  moreover have "completes ?q (sv_flight demo_srv2 ! 1)"
    by (simp add: completes_def demo_cqe_def demo_srv2_def demo_sub_def demo_unpack_send Let_def)
  ultimately show ?thesis
    using demo_completion [of demo_srv2 1 ?q] by (simp add: demo_srv2_def demo_srv1_def demo_srv0_def demo_world'_def)
qed

section \<open>A second client gets its slot\<close>

lemma demo_alloc_first:
  assumes "length (sv_conns srv) = 256" and "fc_state (cn srv 0) = CS_FREE"
  shows "alloc_conn srv = Some (0, upd 0 (\<lambda>_. fconn_zero\<lparr>fc_slot := 0, fc_fd := - 1, fc_id := identity_clear, fc_cache := stmt_cache_init\<rparr>) srv)"
proof -
  have "[0..<256] = 0 # [1..<256]" by (simp add: upt_conv_Cons)
  then show ?thesis using assms by (simp add: alloc_conn_def)
qed

definition demo_next :: "ref_wire server" where
  "demo_next = demo_gone\<lparr>sv_conns := (replicate 256 fconn_zero)[0 := demo_client\<lparr>fc_fd := 10\<rparr>],
     sv_world := (sv_world demo_gone)\<lparr>w_metrics := metrics_inc_accepts (w_metrics (sv_world demo_gone))\<rparr>,
     sv_flight := [demo_sub OP_RECV 9, demo_sub OP_RECV 10, demo_sub OP_ACCEPT 0]\<rparr>"

lemma demo_step_next: "server_step ref_pw demo_crypto demo_gone demo_next"
proof -
  let ?q = "demo_cqe OP_ACCEPT 10 []"
  let ?t = "demo_gone\<lparr>sv_flight := [demo_sub OP_RECV 9]\<rparr>"
  have take: "take_flight 0 demo_gone = ?t" by (simp add: take_flight_def demo_gone_def)
  have free: "length (sv_conns ?t) = 256" "fc_state (cn ?t 0) = CS_FREE"
    by (simp_all add: demo_gone_def cn_def demo_closed_def)
  have "uring_submit (dispatch ref_pw demo_crypto ?q ?t) = demo_next"
    unfolding dispatch_def demo_cqe_def cqe.simps demo_unpack Let_def split on_accept_cqe_def accept_one_def
      demo_alloc_first [OF free] option.case accept_setup_def ref_pw_sel accept_plain_def demo_identity
    by (simp add: demo_gone_def demo_next_def demo_srv2_def demo_srv1_def demo_srv0_def demo_client_def with_identity_def submit_recv_def
      submit_accept_def add_sqe_def upd_def cn_def count_def fconn_zero_def demo_config_sel uring_submit_def demo_sub_def Let_def)
  moreover have "completes ?q (sv_flight demo_gone ! 0)"
    by (simp add: completes_def demo_cqe_def demo_gone_def demo_sub_def demo_unpack Let_def)
  ultimately show ?thesis
    using demo_completion [of demo_gone 0 ?q] take
    by (simp add: demo_gone_def demo_srv2_def demo_srv1_def demo_srv0_def demo_world'_def)
qed

section \<open>The old receive closes the new client\<close>

text \<open>A completion reaches the wrong client: there is a reachable state with a client in service on descriptor 10
  and a receive in flight that was submitted for descriptor 9, that of the client before it, such that
  the completion of the latter, a possible next step, closes the connection of the former.\<close>

theorem stale_completion_closes_next_client:
  "\<exists>srv srv' k. reachable ref_pw demo_crypto demo_config srv \<and> fc_state (cn srv 0) = CS_ACTIVE \<and> fc_fd (cn srv 0) = 10 \<and>
    k < length (sv_flight srv) \<and> su_fd (sv_flight srv ! k) = 9 \<and>
    (\<exists>q. completes q (sv_flight srv ! k) \<and> srv' = loop_turn ref_pw demo_crypto (WDone k q) srv) \<and>
    server_step ref_pw demo_crypto srv srv' \<and> fc_state (cn srv' 0) = CS_FREE"
proof -
  let ?q = "demo_cqe OP_RECV (- 104) []"
  let ?s = "loop_turn ref_pw demo_crypto (WDone 0 ?q) demo_next"
  have cfg: "sv_cfg demo_next = demo_config" by (simp add: demo_next_def demo_gone_def demo_srv2_def demo_srv1_def demo_srv0_def)
  have r: "reachable ref_pw demo_crypto demo_config demo_next"
    by (rule reachable.step [OF reachable.step [OF reachable.step [OF reachable.step [OF reachable.start [OF demo_start]
      demo_step1] demo_step2] demo_step_gone] demo_step_next])
  have take: "take_flight 0 demo_next = demo_next\<lparr>sv_flight := [demo_sub OP_RECV 10, demo_sub OP_ACCEPT 0]\<rparr>"
    by (simp add: take_flight_def demo_next_def)
  have c: "completes ?q (sv_flight demo_next ! 0)"
    by (simp add: completes_def demo_cqe_def demo_next_def demo_sub_def demo_unpack Let_def)
  have "fc_state (cn ?s 0) = CS_FREE"
    unfolding demo_turn [OF cfg] take
    by (simp add: dispatch_def demo_cqe_def demo_unpack on_slot_def on_recv_cqe_def close_conn_def sv_waiters_remove_def
      demo_next_def demo_client_def demo_gone_def demo_srv2_def demo_srv1_def demo_srv0_def
      upd_def cn_def count_def fconn_zero_def uring_submit_def case_prod_beta Let_def)
  moreover have "server_step ref_pw demo_crypto demo_next ?s"
    using demo_completion [of demo_next 0 ?q] c cfg demo_turn [OF cfg]
    by (simp add: demo_next_def demo_gone_def demo_srv2_def demo_srv1_def demo_srv0_def demo_world'_def)
  moreover have "fc_state (cn demo_next 0) = CS_ACTIVE \<and> fc_fd (cn demo_next 0) = 10 \<and> 0 < length (sv_flight demo_next) \<and>
      su_fd (sv_flight demo_next ! 0) = 9"
    by (simp add: demo_next_def cn_def demo_client_def demo_sub_def)
  ultimately show ?thesis using r c by blast
qed

end
