(* ===== verification/Server_Late.thy ===== *)
theory Server_Late
  imports Server_Stale
begin

text \<open>
  The answer for one client that reaches another. When a client goes away, \<open>close_conn\<close> closes its
  backend connection, but the receive on the old socket stays in flight, and it keeps that socket open until
  the database has answered. Its completion carries the slot of the client only. The run: a client
  starts a pipeline, waits for the answer and is closed; a second client gets its slot and starts a
  pipeline of its own on the new connection; then the answer for the first client arrives and
  is sent to the second.
\<close>

section \<open>The states of the run\<close>

definition late_pool :: "ref_wire be_conn \<Rightarrow> ref_wire be_pool" where
  "late_pool b = demo_bpool\<lparr>po_conns := [b]\<rparr>"

definition late_srv :: "ref_wire fconn \<Rightarrow> ref_wire be_conn \<Rightarrow> world \<Rightarrow> sub list \<Rightarrow> sub list \<Rightarrow> ref_wire server" where
  "late_srv c b w sq fl = demo_srv0\<lparr>sv_conns := (replicate 256 fconn_zero)[0 := c], sv_pool := Some (late_pool b),
     sv_world := w, sv_sq := sq, sv_flight := fl\<rparr>"

lemma late_pool_sel [simp]: "po_max_conns (late_pool b) = 1" "po_conns (late_pool b) = [b]" "po_use_group_as_user (late_pool b)"
  "cf_auto_reconnect (po_cfg (late_pool b))" "\<not> cf_health_check (po_cfg (late_pool b))" "po_rr_cursor (late_pool b) = 0"
  "po_user (late_pool b) = ''postgres''"
  unfolding late_pool_def demo_bpool_def demo_bshell by (simp_all add: demo_bcfg_eq)

lemma late_srv_sel [simp]:
  "cn (late_srv c b w sq fl) 0 = c" "sv_pool (late_srv c b w sq fl) = Some (late_pool b)" "sv_flight (late_srv c b w sq fl) = fl"
  "sv_world (late_srv c b w sq fl) = w" "sv_cfg (late_srv c b w sq fl) = demo_config"
  "sv_now_ns (late_srv c b w sq fl) = 0" "sv_ssl (late_srv c b w sq fl) = []" "sv_sq (late_srv c b w sq fl) = sq"
  "sv_async (late_srv c b w sq fl)" "sv_fair (late_srv c b w sq fl)" "sv_wait (late_srv c b w sq fl) = wait_empty"
  "length (sv_conns (late_srv c b w sq fl)) = 256" "sv_tls (late_srv c b w sq fl) = None"
  "sv_conns (late_srv c b w sq fl) \<noteq> []"
  by (simp_all add: late_srv_def demo_srv0_def cn_def)

lemma late_srv_upd [simp]:
  "upd 0 f (late_srv c b w sq fl) = late_srv (f c) b w sq fl"
  "set_pool (late_pool b') w' (late_srv c b w sq fl) = late_srv c b' w' sq fl"
  "count g (late_srv c b w sq fl) = late_srv c b (w\<lparr>w_metrics := g (w_metrics w)\<rparr>) sq fl"
  "take_flight k (late_srv c b w sq fl) = late_srv c b w sq (take k fl @ drop (Suc k) fl)"
  "uring_submit (late_srv c b w sq fl) = late_srv c b w [] (fl @ sq)"
  "set_env 0 ios [] (late_srv c b w sq fl) = late_srv c b (w\<lparr>w_io := ios\<rparr>) sq fl"
  "length sq < 512 \<Longrightarrow> add_sqe opc s fd flags data (late_srv c b w sq fl) = 
     Some (late_srv c b w (sq @ [\<lparr>su_ud = pack_ud (op_code opc) (word_of_nat s), su_fd = fd, su_flags = flags, su_data = data\<rparr>]) fl)"
  by (simp_all add: late_srv_def demo_srv0_def upd_def cn_def set_pool_def count_def take_flight_def uring_submit_def set_env_def add_sqe_def)

lemma late_conn [simp]: "set_conn 0 b' (late_pool b) = late_pool b'" "set_be_conn 0 b' (late_srv c b w sq fl) = late_srv c b' w sq fl"
  by (simp_all add: set_conn_def late_pool_def set_be_conn_def late_srv_def)

lemma late_be [simp]: "sv_be (late_srv c b w sq fl) 0 = (case fc_be c of None \<Rightarrow> None | Some k \<Rightarrow> Some (k, late_pool b, [b] ! k))"
  by (simp add: sv_be_def split: option.splits)

lemma late_no_waiters [simp]: "sv_waiters_remove 0 (late_srv c b w sq fl) = late_srv c b w sq fl"
  "fair_schedule_waiters ref_pw demo_crypto (late_srv c b w sq fl) = (0, late_srv c b w sq fl)"
  by (simp_all add: sv_waiters_remove_def waiters_remove_def fair_schedule_waiters_def schedule_waiters_def wait_empty_def)
    (simp_all add: late_srv_def demo_srv0_def count_def wait_empty_def)

lemma late_srv2: "demo_srv2 = late_srv demo_parsed demo_bconn \<lparr>w_io = [], w_log = [(5, [83])], w_metrics = metrics_inc_accepts metrics_zero\<rparr> []
    [demo_sub OP_ACCEPT 0, (demo_sub OP_SEND 9)\<lparr>su_data := [49]\<rparr>, demo_sub OP_RECV 9]"
  by (simp add: late_srv_def demo_srv2_def demo_srv1_def demo_srv0_def demo_world'_def late_pool_def demo_bpool_def)

text \<open>A turn that one completion ends.\<close>

lemma late_turn:
  assumes "k < length fl" and "completes q (fl ! k)"
  shows "server_step ref_pw demo_crypto (late_srv c b w [] fl)
    (uring_submit (dispatch ref_pw demo_crypto q (late_srv c b (w\<lparr>w_io := ios\<rparr>) [] (take k fl @ drop (Suc k) fl))))"
  using server_step.completion [of k "late_srv c b w [] fl" q ref_pw demo_crypto 0 ios "[]"] assms
  by (simp add: tick_off demo_config_sel)

section \<open>A pipeline of the first client\<close>

definition leased :: "be_msg list \<Rightarrow> ref_wire be_conn \<Rightarrow> ref_wire be_conn" where
  "leased sent b = b\<lparr>be_wire := Some \<lparr>rw_sent = sent, rw_out = [], rw_events = []\<rparr>, be_busy := True, be_send := [80, 66, 69, 83],
     be_send_off := 0, be_recv_acc := [], be_skip_parse_bind := True, be_pipe := pipe_init\<rparr>"

definition idle_conn :: "ref_wire be_conn \<Rightarrow> bool" where
  "idle_conn b \<longleftrightarrow> be_alive b \<and> \<not> be_busy b \<and> be_wire b = Some ref_wire0 \<and> be_login_user b = ''default''"

lemma late_maintain: "be_alive b \<Longrightarrow> pool_maintain ref_pw demo_crypto (late_pool b) w =
    (0, late_pool b, w\<lparr>w_metrics := metrics_inc_maintain 0 (w_metrics w)\<rparr>)"
  by (simp add: pool_maintain_def)

lemma late_begin:
  assumes "idle_conn b"
  shows "\<exists>sent. async_begin ref_pw demo_crypto (demo_cache 0) ref_bind \<lparr>router_id = r, group_name = ''default'', identity_slot = 0\<rparr>
      (late_pool b) w = (Some 0, late_pool (leased sent b), w\<lparr>w_metrics := metrics_inc_maintain 0 (w_metrics w)\<rparr>)"
proof -
  have b: "be_alive b" "\<not> be_busy b" "be_wire b = Some ref_wire0" "be_login_user b = ''default''"
    using assms by (simp_all add: idle_conn_def)
  have out: "checkout ref_pw demo_crypto ''default'' (late_pool b) w =
      (Some 0, late_pool (b\<lparr>be_busy := True\<rparr>), w\<lparr>w_metrics := metrics_inc_maintain 0 (w_metrics w)\<rparr>)"
    by (simp add: checkout_def late_maintain b rotation_def checkout_try_def set_busy_def Let_def)
  have dw: "drop_output ref_pw 1024 (w_n_output ref_pw ref_wire0) ref_wire0 = ref_wire0"
    by (simp add: ref_pw_sel ref_wire0_def)
  obtain sent where ob: "on_bind ref_pw ref_wire0 (demo_cache 0) ref_bind \<lparr>router_id = r, group_name = ''default'', identity_slot = 0\<rparr> =
      (0, \<lparr>rw_sent = sent, rw_out = [80, 66, 69, 83], rw_events = []\<rparr>)"
    by (simp add: on_bind_def demo_get ref_bind_def bind_slot_def ref_pw_sel ref_send_def ref_wire0_def stored_stmt_def Let_def)
  show ?thesis
    by (rule exI [of _ sent]) (simp add: async_begin_def out b dw ob leased_def Let_def, simp add: ref_pw_sel, cases b, simp)
qed

lemma late_unpack: "unpack_ud (pack_ud 3 0) = (3, 0)" "unpack_ud (pack_ud 5 0) = (5, 0)" "unpack_ud (pack_ud 6 0) = (6, 0)"
  by (simp_all add: unpack_ud_def pack_ud_def)

lemmas late_run = dispatch_def demo_cqe_def demo_unpack late_unpack on_slot_def on_recv_cqe_def on_recv_plain_def feed_plain_def
  process_frontend_def ref_pw_sel ref_wire0_def on_event_def drain_frontend_out_def close_if_def submit_recv_def
  demo_client_def demo_parsed_def fconn_zero_def demo_config_sel demo_sub_def Let_def

definition late_bound :: "int \<Rightarrow> ref_wire fconn" where
  "late_bound fd = demo_parsed\<lparr>fc_fd := fd, fc_be := Some 0, fc_be_wait := BE_SENDING, fc_be_send_pending := True\<rparr>"

lemma late_bind:
  assumes b: "idle_conn b" and k: "k < length fl" "fl ! k = demo_sub OP_RECV fd"
  shows "\<exists>sent w'. server_step ref_pw demo_crypto (late_srv (demo_parsed\<lparr>fc_fd := fd\<rparr>) b w [] fl)
    (late_srv (late_bound fd) (leased sent b) w' [] (take k fl @ drop (Suc k) fl @ [(demo_sub OP_BE_SEND (be_fd b))\<lparr>su_data := [80, 66, 69, 83]\<rparr>, demo_sub OP_RECV fd]))"
proof -
  let ?q = "demo_cqe OP_RECV 1 [66]"
  let ?w = "w\<lparr>w_io := []\<rparr>"
  obtain sent where a: "async_begin ref_pw demo_crypto (demo_cache 0) ref_bind \<lparr>router_id = ''plain-dev'', group_name = ''default'', identity_slot = 0\<rparr>
      (late_pool b) ?w = (Some 0, late_pool (leased sent b), ?w\<lparr>w_metrics := metrics_inc_maintain 0 (w_metrics ?w)\<rparr>)"
    using late_begin [OF b] by blast
  have c: "completes ?q (fl ! k)" by (simp add: k completes_def demo_cqe_def demo_sub_def demo_unpack Let_def)
  have "uring_submit (dispatch ref_pw demo_crypto ?q (late_srv (demo_parsed\<lparr>fc_fd := fd\<rparr>) b ?w [] (take k fl @ drop (Suc k) fl))) =
    late_srv (late_bound fd) (leased sent b) (?w\<lparr>w_metrics := metrics_inc_maintain 0 (w_metrics ?w)\<rparr>) []
      (take k fl @ drop (Suc k) fl @ [(demo_sub OP_BE_SEND (be_fd b))\<lparr>su_data := [80, 66, 69, 83]\<rparr>, demo_sub OP_RECV fd])"
    by (simp add: late_run on_ev_bind_def start_async_bind_from_event_def begin_be_def a submit_be_send_def async_send_ptr_def leased_def late_bound_def)
  with late_turn [OF k(1) c, of "demo_parsed\<lparr>fc_fd := fd\<rparr>" b w "[]"] show ?thesis by metis
qed

text \<open>The Bind is sent: the answer is waited for.\<close>

lemma late_sent:
  assumes k: "k < length fl" "fl ! k = (demo_sub OP_BE_SEND fd')\<lparr>su_data := [80, 66, 69, 83]\<rparr>"
  shows "\<exists>w'. server_step ref_pw demo_crypto (late_srv (late_bound fd) (leased sent b) w [] fl)
    (late_srv ((late_bound fd)\<lparr>fc_be_send_pending := False, fc_be_recv_pending := True, fc_be_wait := BE_READING\<rparr>) ((leased sent b)\<lparr>be_send_off := 4\<rparr>) w' []
      (take k fl @ drop (Suc k) fl @ [demo_sub OP_BE_RECV (be_fd b)]))"
proof -
  let ?q = "demo_cqe OP_BE_SEND 4 []"
  have c: "completes ?q (fl ! k)" by (simp add: k completes_def demo_cqe_def demo_sub_def late_unpack Let_def)
  have "uring_submit (dispatch ref_pw demo_crypto ?q (late_srv (late_bound fd) (leased sent b) (w\<lparr>w_io := []\<rparr>) [] (take k fl @ drop (Suc k) fl))) =
    late_srv ((late_bound fd)\<lparr>fc_be_send_pending := False, fc_be_recv_pending := True, fc_be_wait := BE_READING\<rparr>) ((leased sent b)\<lparr>be_send_off := 4\<rparr>)
      (w\<lparr>w_io := []\<rparr>) [] (take k fl @ drop (Suc k) fl @ [demo_sub OP_BE_RECV (be_fd b)])"
    by (simp add: late_run on_be_send_cqe_def async_send_advance_def submit_be_send_def async_send_ptr_def submit_be_recv_def leased_def late_bound_def)
  with late_turn [OF k(1) c, of "late_bound fd" "leased sent b" w "[]"] show ?thesis by metis
qed

section \<open>The first client goes\<close>

lemma late_warm:
  "warm_one ref_pw demo_crypto lo b ''default'' (w\<lparr>w_io := [Ret (Suc 0), Ret fd, Ret 0, Ret (Suc 0), Seg [82, 0, 0, 0, 8, 0, 0, 0, 0], Seg [90, 0, 0, 0, 5, 73]]\<rparr>) =
     (0, (conn_teardown_io b)\<lparr>be_fd := int fd, be_login_user := ''default'', be_wire := Some ref_wire0, be_alive := True, be_busy := False\<rparr>,
      w\<lparr>w_io := [], w_log := w_log w @ [(int fd, [83])]\<rparr>)"
  unfolding warm_one_def Let_def tcp_connect_def
  by (cases w) (simp add: next_io_def backend_authenticate_def ref_pw_sel ref_wire0_def ref_put_def write_all.simps
      demo_auth_loop [of _ _ _ 62, simplified] strncpy_arr_def)

lemma late_closed:
  assumes k: "k < length fl" "fl ! k = demo_sub OP_RECV fd'" and b: "be_login_user b = ''default''"
    and c: "fc_state c = CS_ACTIVE" "fc_slot c = 0" "fc_be c = Some 0"
  shows "\<exists>c' b' w'. server_step ref_pw demo_crypto (late_srv c b w [] fl) (late_srv c' b' w' [] (take k fl @ drop (Suc k) fl)) \<and>
    fc_state c' = CS_FREE \<and> idle_conn b' \<and> be_fd b' = 6"
proof -
  let ?q = "demo_cqe OP_RECV (- 104) []"
  let ?io = "[Ret (Suc 0), Ret 6, Ret 0, Ret (Suc 0), Seg [82, 0, 0, 0, 8, 0, 0, 0, 0], Seg [90, 0, 0, 0, 5, 73]]"
  let ?fl = "take k fl @ drop (Suc k) fl"
  define b' where "b' = (conn_teardown_io b)\<lparr>be_fd := 6, be_login_user := ''default'', be_wire := Some ref_wire0, be_alive := True, be_busy := False\<rparr>"
  have b': "idle_conn b'" "be_fd b' = 6" by (simp_all add: b'_def idle_conn_def)
  have q: "completes ?q (fl ! k)" by (simp add: k completes_def demo_cqe_def demo_sub_def demo_unpack Let_def)
  let ?t = "(conn_teardown_io b)\<lparr>be_login_user := ''default''\<rparr>"
  have rec: "reconnect ref_pw demo_crypto 0 (late_pool ?t) (w\<lparr>w_io := ?io\<rparr>) =
      (0, late_pool (b'\<lparr>be_busy := be_busy b\<rparr>), w\<lparr>w_io := [], w_log := w_log w @ [(6, [83])]\<rparr>)"
    using late_warm [of "po_login (late_pool ?t)" ?t 6 w]
    by (simp add: reconnect_def conn_reconnect_def strncpy_arr_def b'_def Let_def) (simp add: conn_teardown_io_def)
  obtain w2 where fin: "async_finish ref_pw demo_crypto 0 True (late_pool b) (w\<lparr>w_io := ?io\<rparr>) = (late_pool b', w2)"
    by (simp add: async_finish_def b strncpy_arr_def rec Let_def) (simp add: set_busy_def checkin_def b'_def conn_teardown_io_def, cases b, simp)
  have "\<exists>c' w'. uring_submit (dispatch ref_pw demo_crypto ?q (late_srv c b (w\<lparr>w_io := ?io\<rparr>) [] ?fl)) = late_srv c' b' w' [] ?fl \<and> fc_state c' = CS_FREE"
    by (simp add: late_run close_conn_def finish_be_def fin c) (intro exI conjI, rule refl, simp)
  then show ?thesis using late_turn [OF k(1) q, of c b w ?io] b' by metis
qed

section \<open>A second client takes its slot\<close>

lemma late_accept:
  assumes k: "k < length fl" "fl ! k = demo_sub OP_ACCEPT 0" and c: "fc_state c = CS_FREE" and fd: "0 \<le> fd"
  shows "\<exists>w'. server_step ref_pw demo_crypto (late_srv c b w [] fl)
    (late_srv (demo_client\<lparr>fc_fd := fd\<rparr>) b w' [] (take k fl @ drop (Suc k) fl @ [demo_sub OP_RECV fd, demo_sub OP_ACCEPT 0]))"
proof -
  let ?q = "demo_cqe OP_ACCEPT fd []" and ?fl = "take k fl @ drop (Suc k) fl"
  have q: "completes ?q (fl ! k)" by (simp add: k completes_def demo_cqe_def demo_sub_def demo_unpack Let_def)
  have al: "alloc_conn (late_srv c b v [] ?fl) = Some (0, late_srv (fconn_zero\<lparr>fc_slot := 0, fc_fd := - 1, fc_id := identity_clear,
      fc_cache := stmt_cache_init\<rparr>) b v [] ?fl)" for v
    using demo_alloc_first [of "late_srv c b v [] ?fl"] c by simp
  have "\<exists>w'. uring_submit (dispatch ref_pw demo_crypto ?q (late_srv c b (w\<lparr>w_io := []\<rparr>) [] ?fl)) =
      late_srv (demo_client\<lparr>fc_fd := fd\<rparr>) b w' [] (?fl @ [demo_sub OP_RECV fd, demo_sub OP_ACCEPT 0])"
    using fd
    by (simp add: late_run on_accept_cqe_def accept_one_def al accept_setup_def accept_plain_def demo_identity with_identity_def submit_accept_def) (rule exI, rule refl)
  then show ?thesis using late_turn [OF k(1) q, of c b w "[]"] by (metis append_assoc)
qed

lemma late_parse:
  assumes k: "k < length fl" "fl ! k = demo_sub OP_RECV fd"
  shows "\<exists>w'. server_step ref_pw demo_crypto (late_srv (demo_client\<lparr>fc_fd := fd\<rparr>) b w [] fl)
    (late_srv (demo_parsed\<lparr>fc_fd := fd\<rparr>) b w' [] (take k fl @ drop (Suc k) fl @ [(demo_sub OP_SEND fd)\<lparr>su_data := [49]\<rparr>, demo_sub OP_RECV fd]))"
proof -
  let ?q = "demo_cqe OP_RECV 1 [80]" and ?fl = "take k fl @ drop (Suc k) fl"
  have q: "completes ?q (fl ! k)" by (simp add: k completes_def demo_cqe_def demo_sub_def demo_unpack Let_def)
  have put: "stmt_cache_put ref_pw stmt_cache_init (demo_parse ''s'' ''SELECT 1'') 0 = (0, demo_cache 0)" by (rule demo_put)
  have "uring_submit (dispatch ref_pw demo_crypto ?q (late_srv (demo_client\<lparr>fc_fd := fd\<rparr>) b (w\<lparr>w_io := []\<rparr>) [] ?fl)) =
      late_srv (demo_parsed\<lparr>fc_fd := fd\<rparr>) b (w\<lparr>w_io := []\<rparr>) [] (?fl @ [(demo_sub OP_SEND fd)\<lparr>su_data := [49]\<rparr>, demo_sub OP_RECV fd])"
    by (simp add: late_run on_ev_parse_def frontend_parse_def parse_slot_def on_parse_ex_def put ref_put_def
        queue_plain_send_def append_send_def submit_send_def send_flags_def)
  then show ?thesis using late_turn [OF k(1) q, of "demo_client\<lparr>fc_fd := fd\<rparr>" b w "[]"] by (metis append_assoc)
qed

text \<open>Its Sync waits in its queue.\<close>

definition late_q :: fe_queue where
  "late_q = \<lparr>q_buf = feq_zero\<lparr>it_kind := FEQ_SYNC\<rparr> # replicate 31 feq_zero, q_head = 0, q_tail = Suc 0, q_count = Suc 0\<rparr>"

lemma late_sync:
  assumes k: "k < length fl" "fl ! k = demo_sub OP_RECV fd"
  shows "\<exists>w'. server_step ref_pw demo_crypto (late_srv (late_bound fd) b w [] fl)
    (late_srv ((late_bound fd)\<lparr>fc_got_sync := True, fc_q := late_q\<rparr>) b w' [] (take k fl @ drop (Suc k) fl @ [demo_sub OP_RECV fd])) \<and> w_io w' = []"
proof -
  let ?q = "demo_cqe OP_RECV 1 [83]" and ?fl = "take k fl @ drop (Suc k) fl"
  have q: "completes ?q (fl ! k)" by (simp add: k completes_def demo_cqe_def demo_sub_def demo_unpack Let_def)
  have buf: "(replicate 32 feq_zero)[0 := feq_zero\<lparr>it_kind := FEQ_SYNC\<rparr>] = feq_zero\<lparr>it_kind := FEQ_SYNC\<rparr> # replicate 31 feq_zero"
    by (simp add: numeral_eq_Suc)
  have "\<exists>w'. uring_submit (dispatch ref_pw demo_crypto ?q (late_srv (late_bound fd) b (w\<lparr>w_io := []\<rparr>) [] ?fl)) =
      late_srv ((late_bound fd)\<lparr>fc_got_sync := True, fc_q := late_q\<rparr>) b w' [] (?fl @ [demo_sub OP_RECV fd]) \<and> w_io w' = []"
    by (simp add: late_run late_bound_def on_ev_sync_def on_queue_def feq_push_def feq_empty_def late_q_def buf) (intro exI conjI, rule refl, simp)
  then show ?thesis using late_turn [OF k(1) q, of "late_bound fd" b w "[]"] by (metis append_assoc)
qed

section \<open>The old answer reaches it\<close>

definition late_answer :: bytes where
  "late_answer = [68, 0, 0, 0, 5, 42, 90, 0, 0, 0, 5, 73]"

lemma late_recv: "async_on_recv ref_pw (leased sent b) late_answer [] 16384 =
    (0, True, (leased sent b)\<lparr>be_pipe := \<lparr>ps_saw_error = False, ps_complete = True\<rparr>\<rparr>, late_answer)"
  by (simp add: async_on_recv_def leased_def late_answer_def recv_loop.simps be32_at_def be_filter_append_def ref_pw_sel ref_peek_def ref_feed_def
    pipe_init_def Let_def)

lemma release_once: "after_backend_release pw cr = release_step pw (drain_queue pw cr (release pw cr 256))"
  by (simp add: after_backend_release_def numeral_eq_Suc)

lemma late_finish: "\<exists>b'. async_finish ref_pw demo_crypto 0 False (late_pool b) w = (late_pool b', w)"
  by (auto simp: async_finish_def checkin_def set_busy_def)

lemma late_complete:
  assumes "ps_saw_error (be_pipe b) = False"
  shows "\<exists>c' b' w'. backend_async_complete ref_pw demo_crypto (after_backend_release ref_pw demo_crypto) 0
      (late_srv ((late_bound fd)\<lparr>fc_got_sync := True, fc_be_resp := late_answer, fc_q := late_q\<rparr>) b w [] fl) = (0, late_srv c' b' w' [] fl) \<and>
    fc_fd c' = fd \<and> fc_state c' = CS_ACTIVE \<and> fc_send c' = [49] @ late_answer @ [50, 90]"
proof -
  have ne: "late_answer \<noteq> []" "length late_answer = 12" by (simp_all add: late_answer_def)
  obtain b' where fin: "async_finish ref_pw demo_crypto 0 False (late_pool b) (w\<lparr>w_metrics := metrics_inc_be_ok (w_metrics w)\<rparr>) =
    (late_pool b', w\<lparr>w_metrics := metrics_inc_be_ok (w_metrics w)\<rparr>)" using late_finish by blast
  show ?thesis
    by (simp add: late_run late_bound_def backend_async_complete_def note_wait_def fe_call_def assms deliver_response_def ne
      queue_plain_send_def append_send_def submit_send_def ref_put_def finish_be_def fin)
      (simp add: release_once release_step_def drain_queue_def late_q_def feq_pop_def drain_item_def fe_call_def ref_pw_sel ref_put_def
        drain_frontend_out_def queue_plain_send_def append_send_def submit_send_def ne wait_empty_def Let_def, intro exI conjI, rule refl, simp_all)
qed

lemma late_delivered:
  assumes k: "k < length fl" "fl ! k = demo_sub OP_BE_RECV fd'"
  shows "\<exists>c' b' w' fl'. loop_turn ref_pw demo_crypto (WDone k (demo_cqe OP_BE_RECV 12 late_answer))
      (late_srv ((late_bound fd)\<lparr>fc_got_sync := True, fc_q := late_q\<rparr>) (leased sent b) w [] fl) = late_srv c' b' w' [] fl' \<and>
    fc_fd c' = fd \<and> fc_state c' = CS_ACTIVE \<and> fc_send c' = [49] @ late_answer @ [50, 90]"
proof -
  let ?b = "(leased sent b)\<lparr>be_pipe := \<lparr>ps_saw_error = False, ps_complete = True\<rparr>\<rparr>" and ?fl = "take k fl @ drop (Suc k) fl"
  obtain c' b' w' where fin: "backend_async_complete ref_pw demo_crypto (after_backend_release ref_pw demo_crypto) 0
      (late_srv ((late_bound fd)\<lparr>fc_got_sync := True, fc_be_resp := late_answer, fc_q := late_q\<rparr>) ?b w [] ?fl) = (0, late_srv c' b' w' [] ?fl)"
    "fc_fd c' = fd" "fc_state c' = CS_ACTIVE" "fc_send c' = [49] @ late_answer @ [50, 90]"
    using late_complete [of ?b fd w ?fl] by auto
  have c: "(late_bound fd)\<lparr>fc_got_sync := True, fc_q := late_q, fc_be_recv_pending := False, fc_be_resp := late_answer\<rparr> =
      (late_bound fd)\<lparr>fc_got_sync := True, fc_be_resp := late_answer, fc_q := late_q\<rparr>"
    "fc_be (late_bound fd) = Some 0" "fc_be_resp (late_bound fd) = []" "fc_state (late_bound fd) = CS_ACTIVE"
    by (simp_all add: late_bound_def demo_parsed_def demo_client_def fconn_zero_def)
  have "loop_turn ref_pw demo_crypto (WDone k (demo_cqe OP_BE_RECV 12 late_answer))
      (late_srv ((late_bound fd)\<lparr>fc_got_sync := True, fc_q := late_q\<rparr>) (leased sent b) w [] fl) = late_srv c' b' w' [] ?fl"
    by (simp add: tick_off demo_config_sel)
      (simp add: dispatch_def demo_cqe_def late_unpack on_slot_def on_be_recv_cqe_def late_recv c fin(1) close_if_def Let_def)
  with fin(2-4) show ?thesis by blast
qed

section \<open>The run\<close>

abbreviation (input) bind_sub :: "int \<Rightarrow> sub" where
  "bind_sub fd \<equiv> (demo_sub OP_BE_SEND fd)\<lparr>su_data := [80, 66, 69, 83]\<rparr>"

abbreviation (input) parsed_sub :: "int \<Rightarrow> sub" where
  "parsed_sub fd \<equiv> (demo_sub OP_SEND fd)\<lparr>su_data := [49]\<rparr>"

abbreviation (input) late_reach :: "ref_wire server \<Rightarrow> bool" where
  "late_reach \<equiv> reachable ref_pw demo_crypto demo_config"

lemmas late_step = reachable.step [where pw = ref_pw and cr = demo_crypto and cfg = demo_config]

text \<open>The first client has gone; what it asked for is still to be received.\<close>

lemma late_first: "\<exists>c b w. late_reach (late_srv c b w [] [demo_sub OP_ACCEPT 0, parsed_sub 9, demo_sub OP_BE_RECV 5]) \<and>
    fc_state c = CS_FREE \<and> idle_conn b \<and> be_fd b = 6"
proof -
  have idle: "idle_conn demo_bconn" "be_fd demo_bconn = 5" by (simp_all add: idle_conn_def demo_bconn_def conn_init_def)
  have p9: "demo_parsed\<lparr>fc_fd := 9\<rparr> = demo_parsed" by (simp add: demo_parsed_def demo_client_def)
  have r2: "late_reach demo_srv2"
    by (rule late_step [OF late_step [OF reachable.start [OF demo_start] demo_step1] demo_step2])
  obtain s3 w3 where r3: "late_reach (late_srv (late_bound 9) (leased s3 demo_bconn) w3 []
      [demo_sub OP_ACCEPT 0, parsed_sub 9, bind_sub 5, demo_sub OP_RECV 9])"
    using late_bind [OF idle(1), of 2 "[demo_sub OP_ACCEPT 0, parsed_sub 9, demo_sub OP_RECV 9]" 9] late_step [OF r2]
    by (simp add: late_srv2 p9 idle) blast
  let ?c = "(late_bound 9)\<lparr>fc_be_send_pending := False, fc_be_recv_pending := True, fc_be_wait := BE_READING\<rparr>"
  let ?b = "(leased s3 demo_bconn)\<lparr>be_send_off := 4\<rparr>"
  obtain w4 where r4: "late_reach (late_srv ?c ?b w4 [] [demo_sub OP_ACCEPT 0, parsed_sub 9, demo_sub OP_RECV 9, demo_sub OP_BE_RECV 5])"
    using late_sent [of 2 "[demo_sub OP_ACCEPT 0, parsed_sub 9, bind_sub 5, demo_sub OP_RECV 9]" 5 9 s3 demo_bconn w3] late_step [OF r3]
    by (auto simp: idle)
  have c: "be_login_user ?b = ''default''" "fc_state ?c = CS_ACTIVE" "fc_slot ?c = 0" "fc_be ?c = Some 0"
    by (simp_all add: late_bound_def demo_parsed_def demo_client_def fconn_zero_def leased_def demo_bconn_def)
  show ?thesis
    using late_closed [OF _ _ c, of 2 "[demo_sub OP_ACCEPT 0, parsed_sub 9, demo_sub OP_RECV 9, demo_sub OP_BE_RECV 5]" 9 w4]
      late_step [OF r4] by auto
qed

text \<open>The second client has its own pipeline in flight.\<close>

lemma late_second: "\<exists>sent b w. late_reach (late_srv ((late_bound 10)\<lparr>fc_got_sync := True, fc_q := late_q\<rparr>) (leased sent b) w []
      [parsed_sub 9, demo_sub OP_BE_RECV 5, demo_sub OP_ACCEPT 0, parsed_sub 10, bind_sub 6, demo_sub OP_RECV 10]) \<and>
    be_fd b = 6 \<and> w_io w = []"
proof -
  let ?acc = "demo_sub OP_ACCEPT 0" and ?rv = "demo_sub OP_RECV 10" and ?br = "demo_sub OP_BE_RECV 5"
  obtain c b w where r5: "late_reach (late_srv c b w [] [?acc, parsed_sub 9, ?br])" and c: "fc_state c = CS_FREE"
    and b: "idle_conn b" "be_fd b = 6" using late_first by blast
  obtain w6 where r6: "late_reach (late_srv (demo_client\<lparr>fc_fd := 10\<rparr>) b w6 [] [parsed_sub 9, ?br, ?rv, ?acc])"
    using late_accept [of 0 "[?acc, parsed_sub 9, ?br]" c 10 b w] late_step [OF r5] c by auto
  obtain w7 where r7: "late_reach (late_srv (demo_parsed\<lparr>fc_fd := 10\<rparr>) b w7 [] [parsed_sub 9, ?br, ?acc, parsed_sub 10, ?rv])"
    using late_parse [of 2 "[parsed_sub 9, ?br, ?rv, ?acc]" 10 b w6] late_step [OF r6] by auto
  let ?fl = "[parsed_sub 9, ?br, ?acc, parsed_sub 10, bind_sub 6, ?rv]"
  obtain s8 w8 where r8: "late_reach (late_srv (late_bound 10) (leased s8 b) w8 [] ?fl)"
    using late_bind [OF b(1), of 4 "[parsed_sub 9, ?br, ?acc, parsed_sub 10, ?rv]" 10 w7] late_step [OF r7] by (auto simp: b)
  show ?thesis using late_sync [of 5 ?fl 10 "leased s8 b" w8] late_step [OF r8] b(2) by auto
qed

text \<open>C23. An answer can reach the wrong client: there is a reachable state in which the client in slot 0, on descriptor
  10, owns a backend connection with descriptor 6, and a receive on descriptor 5, the backend socket of the client
  before it, is in flight; when that receive completes, which is a possible next step, the bytes it
  brings, a row of the old answer and its ReadyForQuery, are put into what is sent to the client on descriptor 10.\<close>

theorem old_answer_reaches_next_client:
  "\<exists>srv srv' p k q. reachable ref_pw demo_crypto demo_config srv \<and> fc_state (cn srv 0) = CS_ACTIVE \<and> fc_fd (cn srv 0) = 10 \<and>
    fc_send (cn srv 0) = [49] \<and> fc_be (cn srv 0) = Some 0 \<and> sv_pool srv = Some p \<and> be_fd (po_conns p ! 0) = 6 \<and>
    k < length (sv_flight srv) \<and> su_fd (sv_flight srv ! k) = 5 \<and> completes q (sv_flight srv ! k) \<and>
    srv' = loop_turn ref_pw demo_crypto (WDone k q) srv \<and> server_step ref_pw demo_crypto srv srv' \<and>
    cq_data q = late_answer \<and> fc_fd (cn srv' 0) = 10 \<and> fc_send (cn srv' 0) = [49] @ cq_data q @ [50, 90]"
proof -
  let ?fl = "[parsed_sub 9, demo_sub OP_BE_RECV 5, demo_sub OP_ACCEPT 0, parsed_sub 10, bind_sub 6, demo_sub OP_RECV 10]"
  obtain sent b w where r: "late_reach (late_srv ((late_bound 10)\<lparr>fc_got_sync := True, fc_q := late_q\<rparr>) (leased sent b) w [] ?fl)"
    and b: "be_fd b = 6" and w: "w_io w = []" using late_second by blast
  let ?s = "late_srv ((late_bound 10)\<lparr>fc_got_sync := True, fc_q := late_q\<rparr>) (leased sent b) w [] ?fl"
  let ?q = "demo_cqe OP_BE_RECV 12 late_answer"
  have q: "completes ?q (?fl ! 1)"
    by (simp add: completes_def demo_cqe_def demo_sub_def late_unpack late_answer_def Let_def)
  have "set_env 0 [] [] ?s = ?s" using w by (cases w) simp
  then have st: "server_step ref_pw demo_crypto ?s (loop_turn ref_pw demo_crypto (WDone 1 ?q) ?s)"
    using server_step.completion [of 1 ?s ?q ref_pw demo_crypto 0 "[]" "[]"] q by simp
  obtain c' b' w' fl' where d: "loop_turn ref_pw demo_crypto (WDone 1 ?q) ?s = late_srv c' b' w' [] fl'"
    "fc_fd c' = 10" "fc_send c' = [49] @ late_answer @ [50, 90]"
    using late_delivered [of 1 ?fl 5 10 sent b w] by auto
  have "fc_state (cn ?s 0) = CS_ACTIVE \<and> fc_fd (cn ?s 0) = 10 \<and> fc_send (cn ?s 0) = [49] \<and> fc_be (cn ?s 0) = Some 0 \<and>
      sv_pool ?s = Some (late_pool (leased sent b)) \<and> be_fd (po_conns (late_pool (leased sent b)) ! 0) = 6 \<and>
      1 < length (sv_flight ?s) \<and> su_fd (sv_flight ?s ! 1) = 5 \<and> completes ?q (sv_flight ?s ! 1) \<and> cq_data ?q = late_answer"
    using q by (simp add: late_bound_def demo_parsed_def demo_client_def leased_def b demo_sub_def) (simp add: demo_cqe_def)
  then show ?thesis using r st d late_srv_sel(1) by metis
qed

end
