(* ===== verification/Spec2Isabelle.thy ===== *)
theory Spec2Isabelle
  imports Prelude C_Strings Interfaces Pqwire Pqwire_Ref Stmt_Cache Slot_Resolve Identity Rewrite Scram Metrics Metrics_Http
    Backend_Io Backend_Conn Backend_Pool Backend_Async Backend_Answer Pool_Lease Fe_Queue Config Config_Props Tls
    Server_State Server_Backend Server_Frontend Server_Run Server_Inv Server_Keeps Server_Safe Server_Calm Server_Watch Server_Fuel
    Server_Props Server_Answer Server_Grant Server_Demo Server_Witness Server_Stale Server_Late
begin

text \<open>
  This development models pqproxy, a PostgreSQL wire proxy written in C that puts the verified
  identity of a client's certificate into the statements it forwards. It is read beside the
  repository: file and function names are those under src/.

  The program. \<open>main\<close> (src/main.c) reads the command line and a YAML file (src/config_yaml.c) into a
  configuration and calls \<open>pqproxy_run\<close> (src/iouring_loop.c), a single-threaded loop over the
  completions of io_uring. A client connects over TLS (src/tls_mtls.c, src/ktls.c); its certificate gives a router
  id and a group (src/identity.c). Its Parse messages are answered from a cache of prepared
  statements, its Bind messages become a Parse, Bind, Execute and Sync on a backend connection with the identity
  in the identity slot (src/rewrite_engine.c). Backend connections come from a pool
  (src/backend_pool.c) that logs in with SCRAM-SHA-256 (src/scram_client.c), one login per group. While a
  pipeline runs, the client's further requests wait in a ring of 32; when no backend connection is
  free, the frontend waits in a ring of slots and is scheduled when one is released. Counters are kept and served
  over HTTP (src/metrics.c, src/metrics_http.c).

  Theories and code. \<open>Prelude\<close>: lemmas on lists and words. \<open>C_Strings\<close>: strncpy, strrchr, atoi
  and the character classes of C. \<open>Interfaces\<close>: the locales that clients of a component rely on, a bounded
  map (the statement cache), a lease pool, a first-in-first-out ring, a ring without duplicates. \<open>Pqwire\<close>: libpqwire,
  which is not part of the repository, as a record of functions, with the documented behaviour that
  proofs need as named predicates; \<open>Pqwire_Ref\<close>: one instance of it, for the witnesses.

  \<^item> \<open>Stmt_Cache\<close>, \<open>Slot_Resolve\<close>, \<open>Rewrite\<close> (src/rewrite_engine.c): the open-addressing table, the
    resolution of the identity slot from the SQL text, the handlers of Parse, Bind and Query. The table refines a map of at
    most 64 names; a Bind becomes exactly four messages with the identity in its slot; nothing the
    client binds there reaches the backend.
  \<^item> \<open>Identity\<close> (src/identity.c): subject strings and X.509 names; every identity extracted is bounded and non-empty.
  \<^item> \<open>Scram\<close> (src/scram_client.c): the client and a server of RFC 5802 accept each other; the client
    accepts no other signature.
  \<^item> \<open>Metrics\<close> (src/metrics.c, the answer of src/metrics_http.c): counters of 64 bits, the text formats within their buffers.
    \<open>Metrics_Http\<close> (src/metrics_http.c): start, stop and the answering thread as the step relation \<open>http_step\<close> over the
    run flag and the open descriptors; none is leaked or closed twice, and after a stop every thread returns.
  \<^item> \<open>Backend_Io\<close>, \<open>Backend_Conn\<close>, \<open>Backend_Pool\<close>, \<open>Backend_Async\<close> (src/backend_pool.c): the blocking
    reads and writes over a script of outcomes of the system calls, authentication, the pool with its checkout, the
    pipelines that the event loop drives. \<open>Backend_Answer\<close>: what a blocking round trip answers. \<open>Pool_Lease\<close>: which
    connections each operation leaves in use, whose login they have and whose pipeline they carry.
  \<^item> \<open>Config\<close>, \<open>Config_Props\<close> (src/config_yaml.c, src/main.c, \<open>pqproxy_config_defaults\<close>): the record of the
    configuration, the rules of the YAML keys in the order of the code, both passes over the command line. What is
    loaded is in range, and mutual TLS and the rejection of simple queries stay on unless they are turned off.
  \<^item> \<open>Tls\<close> (src/tls_mtls.c, src/ktls.c): the settings of the TLS context, what the wrappers make of OpenSSL's results, the
    connections over memory buffers.
  \<^item> \<open>Fe_Queue\<close>: the two rings of the event loop and the user data of its entries. \<open>Server_State\<close>, \<open>Server_Backend\<close>,
    \<open>Server_Frontend\<close>, \<open>Server_Run\<close> (src/iouring_loop.c): the records \<open>conn_t\<close> and \<open>server_t\<close>, the submissions and the send
    buffer; the end of a pipeline, fair scheduling, the draining of the queue, closing; the handler of
    every protocol event, TLS reads and writes, acceptance; the periodic work, the dispatch of completions, the
    start, and the loop as the step relation \<open>server_step\<close> with its states \<open>reachable\<close>.
  \<^item> \<open>Server_Inv\<close>, \<open>Server_Keeps\<close>, \<open>Server_Safe\<close>: one invariant \<open>Inv\<close> of the server (table, buffers, identities,
    leases, logins and pipelines, ring, TLS context) and that every operation, hence every step, keeps it. The contract of a handler that is called back
    is the locale \<open>kept\<close>, interpreted on \<open>after_backend_release\<close> and \<open>drain_fe_queue\<close>. \<open>Server_Calm\<close>, \<open>Server_Watch\<close>: what the
    operations do to the submissions (the locale \<open>calm_handler\<close>): each client in service has an operation in flight, and an answer
    to a TLS client is not submitted; what a shutdown leaves. \<open>Server_Fuel\<close>: the nesting of these
    handlers ends (the locale \<open>agreeing\<close>). \<open>Server_Props\<close>: what the invariant says of reachable states.
    \<open>Server_Answer\<close>: the bytes a client gets for a pipelined Bind, and the fate of a Bind of an unknown statement.
    \<open>Server_Grant\<close>: the first waiting frontend is served. \<open>Server_Demo\<close>, \<open>Server_Witness\<close>: runs of the server at which
    the properties are instantiated. \<open>Server_Stale\<close>: a run in which a completion reaches the wrong client;
    \<open>Server_Late\<close>: one in which the answer for a client is sent to the next client of its slot.

  State and effects. A C structure is a record, a pointer to a connection its index. System calls
  take their outcomes from a script in the world, OpenSSL's calls on a connection from another; between two
  steps of the loop both scripts and the clock are arbitrary, and the completion that ends a wait is any entry in
  flight with any result the kernel may give it. An operation that returns 0 or -1 returns that number beside the
  state; a NULL is \<open>None\<close>. Buffers are lists whose length is the C length field, with the bounds of the code.

  Bounds and fuel. A loop over a table or a string recurses on it. The loops that read until the
  outside stops (authentication, at most 64 rounds; a blocking answer, at most 256 messages) keep the bound of the code.
  The loop over the events of a client takes as fuel the number of events libpqwire holds, which shrinks with each; the drain of a
  request queue the number of its items; TLS reads and writes the length of OpenSSL's script. Releasing a backend, scheduling, draining and
  failing call each other; the nesting is bounded by the drain marks of the 256 connections, so the fuel of 257
  is enough, which is the theorem \<open>release_terminates\<close>.

  Not modelled. Signal handlers (a signal ends the loop between two turns) and socket options are pure I/O; the listening
  socket is its outcome and the address it is bound to. The metrics counters are read by the HTTP thread without a lock; the model reads
  them at one point. The memory-BIO functions of src/tls_mtls.c have no caller. Freeing memory and
  logging leave the modelled state alone. Allocation does not fail. The text of usage and of log lines is left out, except the metrics
  formats and the line after a handshake. Test programs are not part of the proxy.
\<close>

section \<open>From the command line to the server\<close>

text \<open>C35. Secure unless asked otherwise, from the command line to the running server: a proxy that starts
  without a configuration file and without \<open>--plain\<close>, \<open>--no-mtls\<close> and \<open>--allow-simple-query\<close>
  has a TLS context that verifies the certificate of every client against the authorities given with
  \<open>--ca\<close> and refuses a client without one, and it rejects simple queries, whatever else is on the
  command line and however the pool comes up.\<close>

theorem secure_start:
  assumes "main_args ya files argv = Inr cfg" and "find_config argv None = None"
    and "set argv \<inter> {''--plain'', ''--no-mtls'', ''--allow-simple-query''} = {}"
    and start: "server_start pw cr en cfg now w ssl = Some srv"
  shows "sv_cfg srv = cfg \<and> reject_simple_query cfg \<and> ca_file cfg \<noteq> None \<and>
    (\<exists>ctx. sv_tls srv = Some ctx \<and> tc_verify_peer ctx \<and> tc_fail_if_no_peer_cert ctx \<and> tc_ca ctx = ca_file cfg)"
proof -
  note S = main_args_secure [OF assms(1,3,2)]
  have "sv_cfg srv = cfg \<and> sv_tls srv = tls_ctx_create (en_ssl en) cfg \<and> (\<exists>ctx. sv_tls srv = Some ctx)"
    using start S by (auto simp: server_start_def start_pool_def server_zero_def submit_accept_def add_sqe_def uring_submit_def
        secure_def Let_def case_prod_beta split: if_splits)
  then obtain ctx where "sv_cfg srv = cfg" "sv_tls srv = Some ctx" "tls_ctx_create (en_ssl en) cfg = Some ctx" by metis
  then show ?thesis using S tls_ctx_secure [of "en_ssl en" cfg ctx] by (auto simp: secure_def)
qed

definition demo_argv :: "string list" where
  "demo_argv = [''--cert'', ''server.crt'', ''--key'', ''server.key'', ''--ca'', ''ca.crt'', ''--quiet'']"

theorem secure_start_witness: "\<exists>cfg srv ctx. main_args demo_yaml (\<lambda>_. None) demo_argv = Inr cfg \<and>
    server_start ref_pw demo_crypto demo_env cfg 0 demo_world [] = Some (srv :: ref_wire server) \<and>
    sv_tls srv = Some ctx \<and> tc_fail_if_no_peer_cert ctx \<and> tc_ca ctx = Some ''ca.crt''"
proof -
  let ?c = "demo_mtls\<lparr>quiet := True\<rparr>"
  have f: "find_config demo_argv None = None" by (simp add: demo_argv_def)
  have c: "main_args demo_yaml (\<lambda>_. None) demo_argv = Inr ?c"
    by (simp add: main_args_def demo_argv_def cli_flag_def cli_flags_def cli_value_def cli_values_def set_opt_def run_config_def
        bundle_init_def config_defaults_def demo_mtls_def)
  obtain ctx where "tls_ctx_create demo_ssl ?c = Some ctx"
    by (simp add: tls_ctx_create_def tls_ctx_verify_def demo_mtls_def demo_ssl_def config_defaults_def Let_def)
  then obtain srv where s: "server_start ref_pw demo_crypto demo_env ?c 0 demo_world [] = Some (srv :: ref_wire server)"
    by (simp add: server_start_def start_pool_def server_zero_def submit_accept_def add_sqe_def demo_env_sel demo_listen demo_nonblock demo_mtls_def
        config_defaults_def Let_def)
  have "set demo_argv \<inter> {''--plain'', ''--no-mtls'', ''--allow-simple-query''} = {}" by (simp add: demo_argv_def)
  from secure_start [OF c f this s] c s show ?thesis by (auto simp: demo_mtls_def config_defaults_def)
qed

end
